(* ===== verification/Prelude.thy ===== *)
theory Prelude
  imports "HOL-Library.Word" "HOL-Library.Signed_Division"
begin

text \<open>
  Shared foundations of the xv6 development.

  \<^item> The machine integers of the kernel's C (\<^verbatim>\<open>kernel/types.h\<close>) as fixed-width words.
  \<^item> The result type of a kernel routine: it returns, calls \<open>panic\<close>, or is stuck spinning on a
    lock that another hart holds.
  \<^item> Loops over a table of \<open>n\<close> entries, and the lemmas that turn such a loop into one map.
  \<^item> The lemma collections used by the component theories.
\<close>

unbundle bit_operations_syntax

section \<open>Machine integers\<close>

type_synonym u8 = "8 word"
type_synonym u16 = "16 word"
type_synonym u32 = "32 word"
type_synonym u64 = "64 word"

text \<open>A C \<^verbatim>\<open>int\<close> is a 32-bit word that is read with \<^const>\<open>sint\<close>; division truncates.\<close>

type_synonym i32 = "32 word"

definition sdiv_i32 :: "i32 \<Rightarrow> i32 \<Rightarrow> i32" where
  "sdiv_i32 a b = word_of_int (sint a sdiv sint b)"

lemma unat_u32_less: "unat (x :: u32) < 2 ^ 32"
  using unsigned_less[where ?'a = nat, of x] by simp

lemma unat_u64_less: "unat (x :: u64) < 2 ^ 64"
  using unsigned_less[where ?'a = nat, of x] by simp

text \<open>Signed readings of 32-bit values that do not overflow.\<close>

lemma signed_take_bit_31: "- 2147483648 \<le> k \<Longrightarrow> k < 2147483648 \<Longrightarrow> signed_take_bit 31 k = (k :: int)"
  by (rule signed_take_bit_int_eq_self) simp_all

lemma sint_of_int_i32:
  "- 2147483648 \<le> k \<Longrightarrow> k < 2147483648 \<Longrightarrow> sint (word_of_int k :: i32) = k"
  by (simp add: sint_sbintrunc' signed_take_bit_31)

lemma sint_range_i32: "- 2147483648 \<le> sint (x :: i32)" "sint (x :: i32) < 2147483648"
  using sint_ge[of x] sint_lt[of x] by simp_all

lemma sint_add_i32:
  "- 2147483648 \<le> sint a + sint b \<Longrightarrow> sint a + sint b < 2147483648 \<Longrightarrow>
   sint (a + b :: i32) = sint a + sint b"
  by (simp add: sint_word_add signed_take_bit_31)

lemma sint_diff_i32:
  "- 2147483648 \<le> sint a - sint b \<Longrightarrow> sint a - sint b < 2147483648 \<Longrightarrow>
   sint (a - b :: i32) = sint a - sint b"
  by (simp add: sint_word_diff signed_take_bit_31)

lemma sint_unat_u32: "unat x < 2147483648 \<Longrightarrow> sint (x :: u32) = int (unat x)"
proof -
  assume "unat x < 2147483648"
  then have "int (unat x) < int 2147483648" by (simp only: of_nat_less_iff)
  then have "uint x < 2147483648" by simp
  moreover have "0 \<le> uint x" by simp
  ultimately have "signed_take_bit 31 (uint x) = uint x" by (intro signed_take_bit_31) linarith+
  then show ?thesis by (simp add: sint_uint)
qed

lemma unat_sint_nonneg: "0 \<le> sint (x :: i32) \<Longrightarrow> int (unat x) = sint x"
proof -
  assume "0 \<le> sint x"
  then have "take_bit 32 (sint x) = sint x"
    using sint_range_i32(2)[of x] by (intro take_bit_int_eq_self) simp_all
  then show ?thesis using uint_sint[of x] by simp
qed

lemma sint_sdiv2: "sint (sdiv_i32 a 2) = sint a sdiv 2"
proof -
  have "- 2147483648 \<le> sint a sdiv 2" "sint a sdiv 2 < 2147483648"
    using sint_range_i32[of a] by (auto simp: signed_divide_int_def sgn_if)
  then show ?thesis unfolding sdiv_i32_def by (simp add: sint_of_int_i32)
qed

lemma unat_less_iff_word: "unat a < unat b \<longleftrightarrow> a < b" "unat a \<le> unat b \<longleftrightarrow> a \<le> b"
  by (simp_all add: word_less_nat_alt word_le_nat_alt)

named_theorems frame_simps \<open>which fields of the state an operation leaves alone\<close>
named_theorems param_defs \<open>the kernel's numeric parameters\<close>

section \<open>Results of kernel routines\<close>

text \<open>
  \<open>Ok x\<close>: the routine returned \<open>x\<close>. \<open>Panic msg\<close>: it called \<^verbatim>\<open>panic(msg)\<close>, which never
  returns. \<open>Spin\<close>: it is waiting in \<^verbatim>\<open>acquire\<close> for a lock that another hart holds, so it
  makes no progress until that hart releases it.
\<close>

datatype 'a res = Ok 'a | Panic string | Spin

primrec rbind :: "'a res \<Rightarrow> ('a \<Rightarrow> 'b res) \<Rightarrow> 'b res" where
  "rbind (Ok x) f = f x"
| "rbind (Panic msg) f = Panic msg"
| "rbind Spin f = Spin"

lemma rbind_eq_Ok_iff: "rbind m f = Ok y \<longleftrightarrow> (\<exists>x. m = Ok x \<and> f x = Ok y)"
  by (cases m) auto

lemma rbind_OkE [elim!]:
  assumes "rbind m f = Ok y"
  obtains x where "m = Ok x" and "f x = Ok y"
  using assms by (auto simp: rbind_eq_Ok_iff)

lemma rbind_assoc: "rbind (rbind m f) g = rbind m (\<lambda>x. rbind (f x) g)"
  by (cases m) auto

lemma rbind_Ok_right [simp]: "rbind m Ok = m"
  by (cases m) auto

text \<open>Following a pointer that may be null: the page fault in the kernel makes \<^verbatim>\<open>kerneltrap\<close> panic.\<close>

definition deref :: "'a option \<Rightarrow> 'a res" where
  "deref p = (case p of Some x \<Rightarrow> Ok x | None \<Rightarrow> Panic ''kerneltrap'')"

lemma deref_simps [simp]: "deref (Some x) = Ok x" "deref None = Panic ''kerneltrap''"
  by (simp_all add: deref_def)

lemma deref_OkE [elim!]: "deref p = Ok x \<Longrightarrow> (p = Some x \<Longrightarrow> thesis) \<Longrightarrow> thesis"
  by (cases p) simp_all

text \<open>A recursive call in the continuation happens only after the first routine has returned.\<close>

lemma rbind_cong [fundef_cong]:
  "m = m' \<Longrightarrow> (\<And>x. m' = Ok x \<Longrightarrow> f x = g x) \<Longrightarrow> rbind m f = rbind m' g"
  by (cases m') auto

section \<open>Table loops\<close>

text \<open>
  A C loop \<^verbatim>\<open>for (p = tab; p < &tab[n]; p++) body\<close> whose body may panic or block runs the
  body over the list of indices.
\<close>

primrec rfold :: "('i \<Rightarrow> 's \<Rightarrow> 's res) \<Rightarrow> 'i list \<Rightarrow> 's \<Rightarrow> 's res" where
  "rfold f [] s = Ok s"
| "rfold f (i # is) s = rbind (f i s) (rfold f is)"

lemma rfold_append: "rfold f (xs @ ys) s = rbind (rfold f xs s) (rfold f ys)"
proof (induction xs arbitrary: s)
  case Nil
  then show ?case by simp
next
  case (Cons i xs)
  then show ?case by (cases "f i s") simp_all
qed

text \<open>A loop whose body always returns under an invariant it keeps is a fold of pure updates.\<close>

lemma rfold_pure:
  assumes "I s"
    and "\<And>i s. i \<in> set is \<Longrightarrow> I s \<Longrightarrow> f i s = Ok (g i s) \<and> I (g i s)"
  shows "rfold f is s = Ok (fold g is s) \<and> I (fold g is s)"
  using assms
proof (induction "is" arbitrary: s)
  case Nil
  then show ?case by simp
next
  case (Cons i "is")
  from Cons.prems(2)[of i s] Cons.prems(1) have step: "f i s = Ok (g i s)" "I (g i s)" by auto
  have "rfold f is (g i s) = Ok (fold g is (g i s)) \<and> I (fold g is (g i s))"
    using step(2) Cons.prems(2) by (intro Cons.IH) auto
  with step(1) show ?case by simp
qed

lemma rfold_invariant:
  assumes "rfold f is s = Ok s'" and "I s"
    and "\<And>i s s'. i \<in> set is \<Longrightarrow> I s \<Longrightarrow> f i s = Ok s' \<Longrightarrow> I s'"
  shows "I s'"
  using assms by (induction "is" arbitrary: s) auto

text \<open>A loop that may return from the middle: the first \<open>Some\<close> ends it.\<close>

primrec rsearch :: "('i \<Rightarrow> 's \<Rightarrow> ('r option \<times> 's) res) \<Rightarrow> 'i list \<Rightarrow> 's \<Rightarrow> ('r option \<times> 's) res" where
  "rsearch f [] s = Ok (None, s)"
| "rsearch f (i # is) s =
     rbind (f i s) (\<lambda>(r, s). case r of Some x \<Rightarrow> Ok (Some x, s) | None \<Rightarrow> rsearch f is s)"

text \<open>Updating every entry of a table in turn is one map over the table.\<close>

lemma fold_table_map:
  "fold (\<lambda>i t. t(i := h i (t i))) [0..<n] t = (\<lambda>i. if i < n then h i (t i) else t i)"
  by (induction n) auto

lemma upt_split_Cons: "m < n \<Longrightarrow> [m..<n] = m # [Suc m..<n]"
  by (rule upt_conv_Cons)

end
