(* ===== verification/CMem.thy ===== *)
theory CMem
  imports Prelude
begin

text \<open>
  Byte-addressed memory and the C string routines of \<^verbatim>\<open>kernel/string.c\<close>.

  Memory is a total map from 64-bit addresses to bytes. Every routine is the loop of the source,
  one byte per iteration; the lemmas give its effect in closed form.
\<close>

type_synonym memory = "u64 \<Rightarrow> u8"

section \<open>Address ranges\<close>

text \<open>\<open>a\<close> is one of the \<open>n\<close> bytes that start at \<open>d\<close>.\<close>

definition in_range :: "u64 \<Rightarrow> nat \<Rightarrow> u64 \<Rightarrow> bool" where
  "in_range d n a \<longleftrightarrow> unat (a - d) < n"

lemma in_range_0 [simp]: "\<not> in_range d 0 a"
  by (simp add: in_range_def)

lemma unat_of_nat_u64 [simp]: "k < 2 ^ 64 \<Longrightarrow> unat (of_nat k :: u64) = k"
  by (simp add: unat_of_nat)

lemma in_range_iff:
  "n \<le> 2 ^ 64 \<Longrightarrow> in_range d n a \<longleftrightarrow> (\<exists>k < n. a = d + of_nat k)"
proof
  assume "in_range d n a"
  then have "unat (a - d) < n" by (simp add: in_range_def)
  moreover have "a = d + of_nat (unat (a - d))" by simp
  ultimately show "\<exists>k < n. a = d + of_nat k" by blast
next
  assume "n \<le> 2 ^ 64" "\<exists>k < n. a = d + of_nat k"
  then show "in_range d n a" by (auto simp: in_range_def)
qed

lemma in_rangeI: "k < n \<Longrightarrow> n \<le> 2 ^ 64 \<Longrightarrow> in_range d n (d + of_nat k)"
  by (auto simp: in_range_iff)

lemma in_range_Suc:
  "Suc n \<le> 2 ^ 64 \<Longrightarrow> in_range d (Suc n) a \<longleftrightarrow> a = d \<or> in_range (d + 1) n a"
proof
  assume n: "Suc n \<le> 2 ^ 64" and "in_range d (Suc n) a"
  then obtain k where k: "k < Suc n" "a = d + of_nat k" by (auto simp: in_range_iff)
  show "a = d \<or> in_range (d + 1) n a"
  proof (cases k)
    case 0
    with k show ?thesis by simp
  next
    case (Suc j)
    with k have "j < n" "a = (d + 1) + of_nat j" by (simp_all add: ac_simps)
    with n show ?thesis by (auto simp: in_range_iff)
  qed
next
  assume n: "Suc n \<le> 2 ^ 64" and "a = d \<or> in_range (d + 1) n a"
  then consider "a = d" | j where "j < n" "a = (d + 1) + of_nat j" by (auto simp: in_range_iff)
  then show "in_range d (Suc n) a"
  proof cases
    case 1
    then show ?thesis by (simp add: in_range_def)
  next
    case (2 j)
    then have "Suc j < Suc n" "a = d + of_nat (Suc j)" by (simp_all add: ac_simps)
    with n show ?thesis by (subst in_range_iff) auto
  qed
qed


lemma in_range_shift: "in_range (d + 1) n a \<Longrightarrow> Suc n \<le> 2 ^ 64 \<Longrightarrow> in_range d (Suc n) a"
  by (simp add: in_range_Suc)

lemma start_notin_tail: "Suc n \<le> 2 ^ 64 \<Longrightarrow> \<not> in_range (d + 1) n d"
proof
  assume n: "Suc n \<le> 2 ^ 64" and "in_range (d + 1) n d"
  then obtain j where "j < n" "d = (d + 1) + of_nat j" by (auto simp: in_range_iff)
  then have "of_nat (Suc j) = (0 :: u64)" by (simp add: add.assoc)
  then have "unat (of_nat (Suc j) :: u64) = 0" by simp
  with \<open>j < n\<close> n show False by (simp del: of_nat_Suc)
qed

text \<open>The two ranges have no address in common.\<close>

definition disj_range :: "u64 \<Rightarrow> nat \<Rightarrow> u64 \<Rightarrow> nat \<Rightarrow> bool" where
  "disj_range d n e k \<longleftrightarrow> (\<forall>a. \<not> (in_range d n a \<and> in_range e k a))"

section \<open>memset\<close>

function memset_loop :: "u64 \<Rightarrow> u8 \<Rightarrow> nat \<Rightarrow> nat \<Rightarrow> memory \<Rightarrow> memory" where
  "memset_loop dst c i n m =
     (if i < n then memset_loop dst c (Suc i) n (m(dst + of_nat i := c)) else m)"
  by pat_completeness auto
termination
  by (relation "measure (\<lambda>(dst, c, i, n, m). n - i)") auto

declare memset_loop.simps [simp del]

definition memset :: "u64 \<Rightarrow> i32 \<Rightarrow> u32 \<Rightarrow> memory \<Rightarrow> memory" where
  "memset dst c n m = memset_loop dst (ucast c) 0 (unat n) m"

lemma memset_loop_apply:
  "n \<le> 2 ^ 64 \<Longrightarrow>
   memset_loop dst c i n m a = (if \<exists>k. i \<le> k \<and> k < n \<and> a = dst + of_nat k then c else m a)"
proof (induction dst c i n m rule: memset_loop.induct)
  case (1 dst c i n m)
  show ?case
  proof (cases "i < n")
    case True
    have "(\<exists>k. i \<le> k \<and> k < n \<and> a = dst + of_nat k) \<longleftrightarrow>
        a = dst + of_nat i \<or> (\<exists>k. Suc i \<le> k \<and> k < n \<and> a = dst + of_nat k)"
      using True by (metis Suc_le_eq le_eq_less_or_eq)
    moreover have "memset_loop dst c i n m a = memset_loop dst c (Suc i) n (m(dst + of_nat i := c)) a"
      using True by (subst memset_loop.simps) simp
    ultimately show ?thesis
      by (simp only: "1.IH"[OF True "1.prems"]) auto
  next
    case False
    then show ?thesis by (auto simp: memset_loop.simps[of dst c i])
  qed
qed

lemma memset_apply:
  "memset dst c n m a = (if in_range dst (unat n) a then ucast c else m a)"
proof -
  have n: "unat n \<le> 2 ^ 64" using unat_u32_less[of n] by simp
  then show ?thesis
    by (simp add: memset_def memset_loop_apply in_range_iff)
qed

section \<open>memcmp\<close>

fun memcmp_loop :: "memory \<Rightarrow> u64 \<Rightarrow> u64 \<Rightarrow> nat \<Rightarrow> int" where
  "memcmp_loop m s1 s2 0 = 0"
| "memcmp_loop m s1 s2 (Suc n) =
     (if m s1 \<noteq> m s2 then uint (m s1) - uint (m s2) else memcmp_loop m (s1 + 1) (s2 + 1) n)"

definition memcmp :: "memory \<Rightarrow> u64 \<Rightarrow> u64 \<Rightarrow> u32 \<Rightarrow> int" where
  "memcmp m v1 v2 n = memcmp_loop m v1 v2 (unat n)"

lemma all_less_Suc_shift: "(\<forall>k < Suc n. P k) \<longleftrightarrow> P 0 \<and> (\<forall>k < n. P (Suc k))"
  by (auto simp: less_Suc_eq_0_disj)

lemma memcmp_loop_eq_0_iff:
  "memcmp_loop m s1 s2 n = 0 \<longleftrightarrow> (\<forall>k < n. m (s1 + of_nat k) = m (s2 + of_nat k))"
proof (induction n arbitrary: s1 s2)
  case 0
  then show ?case by simp
next
  case (Suc n)
  show ?case
    by (simp add: Suc.IH all_less_Suc_shift add.assoc word_uint_eq_iff)
qed

section \<open>memmove\<close>

fun move_fwd :: "u64 \<Rightarrow> u64 \<Rightarrow> nat \<Rightarrow> memory \<Rightarrow> memory" where
  "move_fwd d s 0 m = m"
| "move_fwd d s (Suc n) m = move_fwd (d + 1) (s + 1) n (m(d := m s))"

fun move_bwd :: "u64 \<Rightarrow> u64 \<Rightarrow> nat \<Rightarrow> memory \<Rightarrow> memory" where
  "move_bwd d s 0 m = m"
| "move_bwd d s (Suc n) m = move_bwd (d - 1) (s - 1) n (m(d - 1 := m (s - 1)))"

definition memmove :: "u64 \<Rightarrow> u64 \<Rightarrow> u32 \<Rightarrow> memory \<Rightarrow> memory" where
  "memmove dst src n m =
     (if n = 0 then m
      else if src < dst \<and> src + ucast n > dst
      then move_bwd (dst + ucast n) (src + ucast n) (unat n) m
      else move_fwd dst src (unat n) m)"

text \<open>\<^verbatim>\<open>memcpy\<close> is \<open>memmove\<close>.\<close>

definition memcpy :: "u64 \<Rightarrow> u64 \<Rightarrow> u32 \<Rightarrow> memory \<Rightarrow> memory" where
  "memcpy dst src n m = memmove dst src n m"

text \<open>Each loop copies from the memory it started with, as long as it never overwrites a source
  byte that it still has to read.\<close>

lemma move_fwd_apply:
  assumes "n \<le> 2 ^ 64" and "\<And>j k. j < k \<Longrightarrow> k < n \<Longrightarrow> s + of_nat k \<noteq> d + of_nat j"
  shows "move_fwd d s n m a = (if in_range d n a then m (s + (a - d)) else m a)"
  using assms
proof (induction n arbitrary: d s m)
  case 0
  then show ?case by simp
next
  case (Suc n)
  have IH: "move_fwd (d + 1) (s + 1) n (m(d := m s)) a =
      (if in_range (d + 1) n a then (m(d := m s)) (s + 1 + (a - (d + 1))) else (m(d := m s)) a)"
  proof (rule Suc.IH)
    show "n \<le> 2 ^ 64" using Suc.prems(1) by simp
    fix j k assume "j < k" "k < n"
    then show "s + 1 + of_nat k \<noteq> d + 1 + of_nat j"
      using Suc.prems(2)[of "Suc j" "Suc k"] by (simp add: ac_simps)
  qed
  show ?case
  proof (cases "in_range (d + 1) n a")
    case True
    then obtain k where k: "k < n" "a = d + of_nat (Suc k)"
      using Suc.prems(1) by (auto simp: in_range_iff ac_simps)
    have "s + of_nat (Suc k) \<noteq> d" using Suc.prems(2)[of 0 "Suc k"] k(1) by simp
    then have "s + (a - d) \<noteq> d" using k(2) by simp
    with True IH Suc.prems(1) show ?thesis by (simp add: in_range_Suc algebra_simps)
  next
    case False
    with IH Suc.prems(1) show ?thesis by (simp add: in_range_Suc)
  qed
qed

lemma move_bwd_apply:
  assumes "n \<le> 2 ^ 64" and "\<And>j k. j < k \<Longrightarrow> k < n \<Longrightarrow> s + of_nat j \<noteq> d + of_nat k"
  shows "move_bwd (d + of_nat n) (s + of_nat n) n m a =
    (if in_range d n a then m (s + (a - d)) else m a)"
  using assms
proof (induction n arbitrary: m)
  case 0
  then show ?case by simp
next
  case (Suc n)
  let ?m = "m(d + of_nat n := m (s + of_nat n))"
  have IH: "move_bwd (d + of_nat n) (s + of_nat n) n ?m a =
      (if in_range d n a then ?m (s + (a - d)) else ?m a)"
    using Suc.prems by (intro Suc.IH) simp_all
  have split: "in_range d (Suc n) a \<longleftrightarrow> a = d + of_nat n \<or> in_range d n a"
    using Suc.prems(1) by (auto simp: in_range_iff less_Suc_eq)
  have step: "move_bwd (d + of_nat (Suc n)) (s + of_nat (Suc n)) (Suc n) m a =
      move_bwd (d + of_nat n) (s + of_nat n) n ?m a"
    by (simp add: algebra_simps)
  show ?case
  proof (cases "in_range d n a")
    case True
    then obtain k where k: "k < n" "a = d + of_nat k"
      using Suc.prems(1) by (auto simp: in_range_iff)
    have "s + of_nat k \<noteq> d + of_nat n" using Suc.prems(2)[of k n] k(1) by simp
    then have "s + (a - d) \<noteq> d + of_nat n" using k(2) by simp
    with True IH step split show ?thesis by simp
  next
    case False
    with IH step split show ?thesis by auto
  qed
qed


lemma unat_add_offset: "unat (a :: u64) + k < 2 ^ 64 \<Longrightarrow> unat (a + of_nat k) = unat a + k"
  by (simp add: unat_word_ariths unat_of_nat)

lemma offset_eq_iff:
  assumes "unat a + j < 2 ^ 64" and "unat b + k < 2 ^ 64"
  shows "(a :: u64) + of_nat j = b + of_nat k \<longleftrightarrow> unat a + j = unat b + k"
  using unat_add_offset[OF assms(1)] unat_add_offset[OF assms(2)] by (metis word_unat_eq_iff)

text \<open>The result of \<open>memmove\<close> is a copy of the source as it was before the call, also when the two
  regions overlap.\<close>

lemma memmove_apply:
  assumes src: "unat src + unat n \<le> 2 ^ 64" and dst: "unat dst + unat n \<le> 2 ^ 64"
  shows "memmove dst src n m a = (if in_range dst (unat n) a then m (src + (a - dst)) else m a)"
proof -
  have n: "unat n \<le> 2 ^ 64" using unat_u32_less[of n] by simp
  have len: "ucast n = (of_nat (unat n) :: u64)" by simp
  have off: "src + of_nat j = dst + of_nat k \<longleftrightarrow> unat src + j = unat dst + k"
    if "j < unat n" "k < unat n" for j k
    using that src dst by (intro offset_eq_iff) simp_all
  consider "n = 0" | "n \<noteq> 0" "src < dst \<and> src + ucast n > dst"
    | "n \<noteq> 0" "\<not> (src < dst \<and> src + ucast n > dst)" by blast
  then show ?thesis
  proof cases
    case 1
    then show ?thesis by (simp add: memmove_def)
  next
    case 2
    have "move_bwd (dst + ucast n) (src + ucast n) (unat n) m a =
        (if in_range dst (unat n) a then m (src + (a - dst)) else m a)"
      unfolding len using 2(2) off by (intro move_bwd_apply n) (simp add: word_less_nat_alt)
    with 2 show ?thesis by (simp add: memmove_def)
  next
    case 3
    have "unat dst \<le> unat src \<or> unat src + unat n \<le> unat dst"
    proof (cases "unat src + unat n = 2 ^ 64")
      case True
      with dst show ?thesis by simp
    next
      case False
      with src have "unat (src + ucast n) = unat src + unat n"
        unfolding len by (intro unat_add_offset) simp
      moreover have "\<not> unat src < unat dst \<or> \<not> unat dst < unat (src + ucast n)"
        using 3(2) unfolding word_less_nat_alt by blast
      ultimately show ?thesis by linarith
    qed
    then have "move_fwd dst src (unat n) m a =
        (if in_range dst (unat n) a then m (src + (a - dst)) else m a)"
      using off by (intro move_fwd_apply n) auto
    with 3 show ?thesis by (auto simp: memmove_def)
  qed
qed

section \<open>NUL-terminated strings\<close>

text \<open>\<open>c_string m a xs\<close>: the bytes \<open>xs\<close>, none of them zero, are stored at \<open>a\<close> and followed by a
  zero byte.\<close>

primrec c_string :: "memory \<Rightarrow> u64 \<Rightarrow> u8 list \<Rightarrow> bool" where
  "c_string m a [] \<longleftrightarrow> m a = 0"
| "c_string m a (x # xs) \<longleftrightarrow> m a = x \<and> x \<noteq> 0 \<and> c_string m (a + 1) xs"

fun strncmp_loop :: "memory \<Rightarrow> u64 \<Rightarrow> u64 \<Rightarrow> nat \<Rightarrow> int" where
  "strncmp_loop m p q 0 = 0"
| "strncmp_loop m p q (Suc n) =
     (if m p \<noteq> 0 \<and> m p = m q then strncmp_loop m (p + 1) (q + 1) n
      else uint (m p) - uint (m q))"

definition strncmp :: "memory \<Rightarrow> u64 \<Rightarrow> u64 \<Rightarrow> u32 \<Rightarrow> int" where
  "strncmp m p q n = strncmp_loop m p q (unat n)"

lemma strncmp_loop_eq_0_iff:
  assumes "c_string m p xs" and "c_string m q ys"
  shows "strncmp_loop m p q n = 0 \<longleftrightarrow> take n xs = take n ys"
  using assms
proof (induction n arbitrary: p q xs ys)
  case 0
  then show ?case by simp
next
  case (Suc n)
  then show ?case
    by (cases xs; cases ys) (auto simp: word_uint_eq_iff)
qed

text \<open>\<^verbatim>\<open>strncpy\<close>: copy up to and including a NUL, then pad with NULs to exactly \<open>n\<close> bytes.\<close>

fun strncpy_pad :: "u64 \<Rightarrow> nat \<Rightarrow> memory \<Rightarrow> memory" where
  "strncpy_pad s 0 m = m"
| "strncpy_pad s (Suc n) m = strncpy_pad (s + 1) n (m(s := 0))"

fun strncpy_loop :: "u64 \<Rightarrow> u64 \<Rightarrow> nat \<Rightarrow> memory \<Rightarrow> memory" where
  "strncpy_loop s t 0 m = m"
| "strncpy_loop s t (Suc n) m =
     (let m' = m(s := m t)
      in if m t \<noteq> 0 then strncpy_loop (s + 1) (t + 1) n m' else strncpy_pad (s + 1) n m')"

definition strncpy :: "u64 \<Rightarrow> u64 \<Rightarrow> i32 \<Rightarrow> memory \<Rightarrow> memory" where
  "strncpy s t n m = strncpy_loop s t (nat (sint n)) m"

text \<open>\<^verbatim>\<open>safestrcpy\<close>: copy at most \<open>n - 1\<close> bytes, stop after a NUL, and always write a final NUL.\<close>

fun safestrcpy_loop :: "u64 \<Rightarrow> u64 \<Rightarrow> nat \<Rightarrow> memory \<Rightarrow> u64 \<times> memory" where
  "safestrcpy_loop s t 0 m = (s, m)"
| "safestrcpy_loop s t (Suc n) m =
     (let m' = m(s := m t)
      in if m t \<noteq> 0 then safestrcpy_loop (s + 1) (t + 1) n m' else (s + 1, m'))"

definition safestrcpy :: "u64 \<Rightarrow> u64 \<Rightarrow> i32 \<Rightarrow> memory \<Rightarrow> memory" where
  "safestrcpy s t n m =
     (if sint n \<le> 0 then m
      else let (s', m') = safestrcpy_loop s t (nat (sint n) - 1) m in m'(s' := 0))"

text \<open>\<^verbatim>\<open>strlen\<close> scans for the first zero byte; memory with no zero byte would be scanned forever.\<close>

partial_function (option) strlen_from :: "memory \<Rightarrow> u64 \<Rightarrow> nat \<Rightarrow> nat option" where
  "strlen_from m s n = (if m (s + of_nat n) \<noteq> 0 then strlen_from m s (Suc n) else Some n)"

definition strlen :: "memory \<Rightarrow> u64 \<Rightarrow> nat option" where
  "strlen m s = strlen_from m s 0"

lemma strlen_from_c_string:
  "c_string m (s + of_nat n) xs \<Longrightarrow> strlen_from m s n = Some (n + length xs)"
proof (induction xs arbitrary: n)
  case Nil
  then show ?case by (simp add: strlen_from.simps)
next
  case (Cons x xs)
  have "c_string m (s + of_nat (Suc n)) xs" using Cons.prems by (simp add: ac_simps)
  from Cons.IH[OF this] Cons.prems show ?case by (simp add: strlen_from.simps[of m s n])
qed

lemma strlen_c_string: "c_string m s xs \<Longrightarrow> strlen m s = Some (length xs)"
  using strlen_from_c_string[of m s 0 xs] by (simp add: strlen_def)


lemma c_string_upd:
  "Suc (length xs) \<le> 2 ^ 64 \<Longrightarrow> \<not> in_range t (Suc (length xs)) a \<Longrightarrow>
   c_string (m(a := v)) t xs = c_string m t xs"
proof (induction xs arbitrary: t)
  case Nil
  then show ?case by (auto simp: in_range_def)
next
  case (Cons x xs)
  then have "a \<noteq> t" "\<not> in_range (t + 1) (Suc (length xs)) a"
    by (simp_all add: in_range_Suc[of "Suc (length xs)"])
  with Cons show ?case by simp
qed

lemma disj_range_tail:
  assumes "disj_range s (Suc n) t (Suc k)" and "Suc n \<le> 2 ^ 64" and "Suc k \<le> 2 ^ 64"
  shows "disj_range (s + 1) n (t + 1) k"
  using assms by (auto simp: disj_range_def in_range_Suc)

text \<open>\<open>safestrcpy\<close> with its final store folded in, as a recursion.\<close>

definition safestrcpy_fin :: "u64 \<Rightarrow> u64 \<Rightarrow> nat \<Rightarrow> memory \<Rightarrow> memory" where
  "safestrcpy_fin s t k m = (let (s', m') = safestrcpy_loop s t k m in m'(s' := 0))"

lemma safestrcpy_fin_simps [simp]:
  "safestrcpy_fin s t 0 m = m(s := 0)"
  "safestrcpy_fin s t (Suc k) m =
     (if m t \<noteq> 0 then safestrcpy_fin (s + 1) (t + 1) k (m(s := m t))
      else (m(s := m t))(s + 1 := 0))"
  by (simp_all add: safestrcpy_fin_def)

lemma safestrcpy_fin_frame:
  "Suc k \<le> 2 ^ 64 \<Longrightarrow> \<not> in_range s (Suc k) a \<Longrightarrow> safestrcpy_fin s t k m a = m a"
proof (induction k arbitrary: s t m)
  case 0
  then show ?case by (auto simp: in_range_def)
next
  case (Suc k)
  have "a \<noteq> s" "\<not> in_range (s + 1) (Suc k) a"
    using Suc.prems by (simp_all add: in_range_Suc[of "Suc k"])
  moreover from this(2) have "a \<noteq> s + 1" by (auto simp: in_range_def)
  ultimately show ?case using Suc.IH[of "s + 1" "t + 1"] Suc.prems(1) by simp
qed

lemma safestrcpy_fin_c_string:
  assumes "c_string m t xs" and "disj_range s (Suc k) t (Suc (length xs))"
    and "Suc k \<le> 2 ^ 64" and "Suc (length xs) \<le> 2 ^ 64"
  shows "c_string (safestrcpy_fin s t k m) s (take k xs)"
  using assms
proof (induction k arbitrary: s t m xs)
  case 0
  then show ?case by simp
next
  case (Suc k)
  have s_out: "\<not> in_range t (Suc (length xs)) s"
    using Suc.prems(2) by (auto simp: disj_range_def in_range_def)
  show ?case
  proof (cases xs)
    case Nil
    have "s + 1 \<noteq> s" by simp
    with Nil Suc.prems(1) show ?thesis by simp
  next
    case (Cons x ys)
    let ?m = "m(s := x)"
    have x: "m t = x" "x \<noteq> 0" and "c_string m (t + 1) ys" using Suc.prems(1) Cons by simp_all
    moreover have "\<not> in_range (t + 1) (Suc (length ys)) s"
      using s_out Suc.prems(4) Cons by (auto dest: in_range_shift)
    ultimately have src: "c_string ?m (t + 1) ys"
      using Suc.prems(4) Cons by (simp add: c_string_upd)
    have disj: "disj_range (s + 1) (Suc k) (t + 1) (Suc (length ys))"
      using Suc.prems Cons by (intro disj_range_tail) simp_all
    have rest: "c_string (safestrcpy_fin (s + 1) (t + 1) k ?m) (s + 1) (take k ys)"
      by (rule Suc.IH[OF src disj]) (use Suc.prems(3,4) Cons in simp_all)
    have "safestrcpy_fin (s + 1) (t + 1) k ?m s = ?m s"
      using Suc.prems(3) by (intro safestrcpy_fin_frame start_notin_tail) simp_all
    with x rest Cons show ?thesis by simp
  qed
qed

lemma safestrcpy_eq_fin: "0 < sint n \<Longrightarrow> safestrcpy s t n m = safestrcpy_fin s t (nat (sint n) - 1) m"
  by (simp add: safestrcpy_def safestrcpy_fin_def)

lemma nat_sint_i32_less: "nat (sint (n :: i32)) < 2 ^ 31"
  using sint_less[of n] by simp

section \<open>64-bit loads and stores\<close>

text \<open>Pointers and page-table entries are little-endian 64-bit words in memory.\<close>

definition load64 :: "memory \<Rightarrow> u64 \<Rightarrow> u64" where
  "load64 m a =
     ucast (m a) OR push_bit 8 (ucast (m (a + 1))) OR push_bit 16 (ucast (m (a + 2))) OR
     push_bit 24 (ucast (m (a + 3))) OR push_bit 32 (ucast (m (a + 4))) OR
     push_bit 40 (ucast (m (a + 5))) OR push_bit 48 (ucast (m (a + 6))) OR
     push_bit 56 (ucast (m (a + 7)))"

definition store64 :: "u64 \<Rightarrow> u64 \<Rightarrow> memory \<Rightarrow> memory" where
  "store64 a v m =
     (\<lambda>b. if in_range a 8 b then ucast (drop_bit (8 * unat (b - a)) v) else m b)"

lemma load64_cong:
  "(\<And>b. in_range a 8 b \<Longrightarrow> m b = m' b) \<Longrightarrow> load64 m a = load64 m' a"
  by (simp add: load64_def in_range_def)

lemma load_store64 [simp]: "load64 (store64 a v m) a = v"
proof (rule bit_word_eqI)
  fix n assume "n < LENGTH(64)"
  then have "n < 64" by simp
  then consider "n < 8" | "8 \<le> n \<and> n < 16" | "16 \<le> n \<and> n < 24" | "24 \<le> n \<and> n < 32"
    | "32 \<le> n \<and> n < 40" | "40 \<le> n \<and> n < 48" | "48 \<le> n \<and> n < 56" | "56 \<le> n \<and> n < 64"
    by linarith
  then show "bit (load64 (store64 a v m) a) n = bit v n"
    by cases (auto simp: load64_def store64_def in_range_def bit_simps)
qed

lemma load_store64_other:
  "disj_range a 8 b 8 \<Longrightarrow> load64 (store64 a v m) b = load64 m b"
  by (rule load64_cong) (auto simp: store64_def disj_range_def)

lemma store64_outside: "\<not> in_range a 8 b \<Longrightarrow> store64 a v m b = m b"
  by (simp add: store64_def)

end
