(* ===== verification/Params.thy ===== *)
theory Params
  imports Prelude
begin

text \<open>
  The numeric parameters of the kernel: \<^verbatim>\<open>kernel/param.h\<close>, the page geometry of
  \<^verbatim>\<open>kernel/riscv.h\<close>, the address map of \<^verbatim>\<open>kernel/memlayout.h\<close> and the scheduler's
  constants of \<^verbatim>\<open>kernel/pstat.h\<close>. Table sizes are definitions, so that a proof about a loop
  does not unroll it; plain numbers are abbreviations.
\<close>

section \<open>param.h\<close>

definition NPROC :: nat where [param_defs]: "NPROC = 64"
definition NCPU :: nat where [param_defs]: "NCPU = 8"
definition NOFILE :: nat where [param_defs]: "NOFILE = 16"
definition NFILE :: nat where [param_defs]: "NFILE = 100"
definition NINODE :: nat where [param_defs]: "NINODE = 50"

section \<open>riscv.h: pages and page-table entries\<close>

abbreviation (input) PGSIZE :: u64 where "PGSIZE \<equiv> 4096"
abbreviation (input) PGSHIFT :: nat where "PGSHIFT \<equiv> 12"

definition PGROUNDUP :: "u64 \<Rightarrow> u64" where
  "PGROUNDUP sz = (sz + PGSIZE - 1) AND NOT (PGSIZE - 1)"

definition PGROUNDDOWN :: "u64 \<Rightarrow> u64" where
  "PGROUNDDOWN a = a AND NOT (PGSIZE - 1)"

abbreviation (input) PTE_V :: u64 where "PTE_V \<equiv> 1"
abbreviation (input) PTE_R :: u64 where "PTE_R \<equiv> 2"
abbreviation (input) PTE_W :: u64 where "PTE_W \<equiv> 4"
abbreviation (input) PTE_X :: u64 where "PTE_X \<equiv> 8"
abbreviation (input) PTE_U :: u64 where "PTE_U \<equiv> 16"

definition PA2PTE :: "u64 \<Rightarrow> u64" where
  "PA2PTE pa = push_bit 10 (drop_bit 12 pa)"

definition PTE2PA :: "u64 \<Rightarrow> u64" where
  "PTE2PA pte = push_bit 12 (drop_bit 10 pte)"

definition PTE_FLAGS :: "u64 \<Rightarrow> u64" where
  "PTE_FLAGS pte = pte AND 0x3FF"

definition PXSHIFT :: "nat \<Rightarrow> nat" where
  "PXSHIFT level = PGSHIFT + 9 * level"

definition PX :: "nat \<Rightarrow> u64 \<Rightarrow> u64" where
  "PX level va = drop_bit (PXSHIFT level) va AND 0x1FF"

abbreviation (input) MAXVA :: u64 where "MAXVA \<equiv> 0x4000000000"

section \<open>memlayout.h\<close>

abbreviation (input) KERNBASE :: u64 where "KERNBASE \<equiv> 0x80000000"
abbreviation (input) PHYSTOP :: u64 where "PHYSTOP \<equiv> 0x88000000"
abbreviation (input) TRAMPOLINE :: u64 where "TRAMPOLINE \<equiv> 0x3FFFFFF000"
abbreviation (input) TRAPFRAME :: u64 where "TRAPFRAME \<equiv> 0x3FFFFFE000"

definition KSTACK :: "nat \<Rightarrow> u64" where
  "KSTACK p = TRAMPOLINE - (of_nat p + 1) * 2 * PGSIZE"

text \<open>The literals above are the header's expressions.\<close>

lemma MAXVA_expr: "MAXVA = push_bit (9 + 9 + 9 + 12 - 1) 1"
  by simp

lemma memlayout_expr:
  "PHYSTOP = KERNBASE + 128 * 1024 * 1024" "TRAMPOLINE = MAXVA - PGSIZE"
  "TRAPFRAME = TRAMPOLINE - PGSIZE"
  by simp_all

section \<open>pstat.h\<close>

abbreviation (input) PROC_TYPE_INTERACTIVE :: i32 where "PROC_TYPE_INTERACTIVE \<equiv> 0"
abbreviation (input) PROC_TYPE_CPU_BOUND :: i32 where "PROC_TYPE_CPU_BOUND \<equiv> 1"
abbreviation (input) PROC_TYPE_MIXED :: i32 where "PROC_TYPE_MIXED \<equiv> 2"

abbreviation (input) INTERACTIVE_BURST_THRESH :: u32 where "INTERACTIVE_BURST_THRESH \<equiv> 2"
abbreviation (input) CPU_BOUND_BURST_THRESH :: u32 where "CPU_BOUND_BURST_THRESH \<equiv> 8"

abbreviation (input) PRIO_BASE_INTERACTIVE :: i32 where "PRIO_BASE_INTERACTIVE \<equiv> 50"
abbreviation (input) PRIO_BASE_MIXED :: i32 where "PRIO_BASE_MIXED \<equiv> 30"
abbreviation (input) PRIO_BASE_CPU_BOUND :: i32 where "PRIO_BASE_CPU_BOUND \<equiv> 10"
abbreviation (input) AGING_WEIGHT :: u64 where "AGING_WEIGHT \<equiv> 2"
abbreviation (input) BURST_PENALTY_WEIGHT :: u32 where "BURST_PENALTY_WEIGHT \<equiv> 1"
abbreviation (input) MAX_PRIORITY :: i32 where "MAX_PRIORITY \<equiv> 100"
abbreviation (input) MIN_PRIORITY :: i32 where "MIN_PRIORITY \<equiv> 1"

abbreviation (input) STARVATION_THRESH_TICKS :: u64 where "STARVATION_THRESH_TICKS \<equiv> 20"
abbreviation (input) BURST_SURGE_THRESH :: u32 where "BURST_SURGE_THRESH \<equiv> 4"
abbreviation (input) MAX_ANOMALY_SCORE :: i32 where "MAX_ANOMALY_SCORE \<equiv> 100"

abbreviation (input) ANOMALY_NONE :: i32 where "ANOMALY_NONE \<equiv> 0"
abbreviation (input) ANOMALY_BURST_SURGE :: i32 where "ANOMALY_BURST_SURGE \<equiv> 1"
abbreviation (input) ANOMALY_STARVATION :: i32 where "ANOMALY_STARVATION \<equiv> 2"
abbreviation (input) ANOMALY_THRASHING :: i32 where "ANOMALY_THRASHING \<equiv> 4"
abbreviation (input) ANOMALY_INSTABILITY :: i32 where "ANOMALY_INSTABILITY \<equiv> 8"

abbreviation (input) HEALTH_NORMAL :: i32 where "HEALTH_NORMAL \<equiv> 0"
abbreviation (input) HEALTH_WARNING :: i32 where "HEALTH_WARNING \<equiv> 1"
abbreviation (input) HEALTH_CRITICAL :: i32 where "HEALTH_CRITICAL \<equiv> 2"

end
