(* ===== verification/Adaptive.thy ===== *)
theory Adaptive
  imports Params
begin

text \<open>
  The adaptive scheduler's per-process metrics: the Phase 1 to 3 fields of \<^verbatim>\<open>struct proc\<close>
  (\<^verbatim>\<open>kernel/proc.h\<close>) and the routines of \<^verbatim>\<open>kernel/proc.c\<close> and \<^verbatim>\<open>kernel/trap.c\<close> that
  compute on them. All arithmetic is at the width of the source: \<^verbatim>\<open>uint\<close> and \<^verbatim>\<open>int\<close> are
  32 bits, \<^verbatim>\<open>uint64\<close> is 64 bits, and every operation wraps.
\<close>

section \<open>Data\<close>

datatype procstate = UNUSED | USED | SLEEPING | RUNNABLE | RUNNING | ZOMBIE

record pmetrics =
  cputicks :: u64
  waitticks :: u64
  sched_count :: u64
  switches :: u64
  creation_tick :: u64
  last_sched_tick :: u64
  current_burst :: u32
  last_burst :: u32
  est_burst :: u32
  proc_type :: i32
  priority :: i32
  time_slice :: u32
  ticks_in_slice :: u32
  predicted_burst :: u32
  prediction_error :: u32
  burst_trend :: i32
  anomaly_score :: i32
  anomaly_flags :: i32
  health_status :: i32
  healing_actions :: u32
  last_heal_tick :: u64

section \<open>Priority and time slice\<close>

definition calc_dynamic_priority :: "'a pmetrics_scheme \<Rightarrow> i32" where
  "calc_dynamic_priority p =
     (let base = (if proc_type p = PROC_TYPE_INTERACTIVE then PRIO_BASE_INTERACTIVE
                  else if proc_type p = PROC_TYPE_MIXED then PRIO_BASE_MIXED
                  else PRIO_BASE_CPU_BOUND);
          prio = base + ucast (waitticks p * AGING_WEIGHT) - est_burst p * BURST_PENALTY_WEIGHT;
          prio = (if prio <s MIN_PRIORITY then MIN_PRIORITY else prio);
          prio = (if MAX_PRIORITY <s prio then MAX_PRIORITY else prio)
      in prio)"

definition calc_time_slice :: "'a pmetrics_scheme \<Rightarrow> u32" where
  "calc_time_slice p =
     (if proc_type p = PROC_TYPE_INTERACTIVE then 1
      else if proc_type p = PROC_TYPE_MIXED then 2
      else 4)"

section \<open>Self-healing\<close>

text \<open>The three remedies, each with whether it was applied; \<open>ticks\<close> is the clock.\<close>

definition heal_starvation :: "'a pmetrics_scheme \<times> bool \<Rightarrow> 'a pmetrics_scheme \<times> bool" where
  "heal_starvation = (\<lambda>(p, healed).
     if anomaly_flags p AND ANOMALY_STARVATION \<noteq> 0
     then let p = p\<lparr>priority := priority p + 25\<rparr>;
              p = (if MAX_PRIORITY <s priority p then p\<lparr>priority := MAX_PRIORITY\<rparr> else p)
          in (p\<lparr>time_slice := 2\<rparr>, True)
     else (p, healed))"

definition heal_burst :: "'a pmetrics_scheme \<times> bool \<Rightarrow> 'a pmetrics_scheme \<times> bool" where
  "heal_burst = (\<lambda>(p, healed).
     if anomaly_flags p AND (ANOMALY_BURST_SURGE OR ANOMALY_INSTABILITY) \<noteq> 0
     then let p = p\<lparr>burst_trend := 0\<rparr>;
              p = p\<lparr>predicted_burst := est_burst p\<rparr>
          in (p\<lparr>time_slice := calc_time_slice p\<rparr>, True)
     else (p, healed))"

definition heal_thrashing :: "'a pmetrics_scheme \<times> bool \<Rightarrow> 'a pmetrics_scheme \<times> bool" where
  "heal_thrashing = (\<lambda>(p, healed).
     if anomaly_flags p AND ANOMALY_THRASHING \<noteq> 0 then (p\<lparr>time_slice := 2\<rparr>, True)
     else (p, healed))"

definition heal_relief :: "u32 \<Rightarrow> 'a pmetrics_scheme \<Rightarrow> 'a pmetrics_scheme" where
  "heal_relief ticks p =
     (let p = p\<lparr>healing_actions := healing_actions p + 1\<rparr>;
          p = p\<lparr>last_heal_tick := ucast ticks\<rparr>;
          p = (if 20 <s anomaly_score p then p\<lparr>anomaly_score := anomaly_score p - 15\<rparr> else p)
      in if anomaly_score p <s 30 then p\<lparr>health_status := HEALTH_NORMAL\<rparr>
         else if anomaly_score p <s 70 then p\<lparr>health_status := HEALTH_WARNING\<rparr>
         else p)"

definition apply_self_healing :: "u32 \<Rightarrow> 'a pmetrics_scheme \<Rightarrow> 'a pmetrics_scheme" where
  "apply_self_healing ticks p =
     (case heal_thrashing (heal_burst (heal_starvation (p, False))) of
        (p, healed) \<Rightarrow> if healed then heal_relief ticks p else p)"

section \<open>Prediction, anomaly detection and health\<close>

definition update_prediction :: "'a pmetrics_scheme \<Rightarrow> 'a pmetrics_scheme" where
  "update_prediction p =
     (let actual = last_burst p;
          p = (if 0 < predicted_burst p
               then if predicted_burst p \<le> actual
                    then p\<lparr>prediction_error := actual - predicted_burst p\<rparr>
                    else p\<lparr>prediction_error := predicted_burst p - actual\<rparr>
               else p\<lparr>prediction_error := 0\<rparr>);
          current_diff = actual - est_burst p;
          p = p\<lparr>burst_trend := sdiv_i32 (current_diff + burst_trend p) 2\<rparr>;
          next_pred = est_burst p + burst_trend p;
          next_pred = (if next_pred <s 1 then 1 else next_pred)
      in p\<lparr>predicted_burst := next_pred\<rparr>)"

definition detect_anomaly :: "'a pmetrics_scheme \<Rightarrow> i32 \<times> i32" where
  "detect_anomaly p =
     (let actual = last_burst p;
          (flags, score) = (ANOMALY_NONE, 0);
          (flags, score) =
            (if BURST_SURGE_THRESH \<le> prediction_error p \<and> predicted_burst p * 2 < actual
             then (flags OR ANOMALY_BURST_SURGE, score + 35) else (flags, score));
          (flags, score) =
            (if STARVATION_THRESH_TICKS \<le> waitticks p
             then (flags OR ANOMALY_STARVATION, score + 40) else (flags, score));
          (flags, score) =
            (if 6 \<le> prediction_error p
             then (flags OR ANOMALY_INSTABILITY, score + 25) else (flags, score));
          (flags, score) =
            (if sched_count p * 2 < switches p \<and> 5 < sched_count p
             then (flags OR ANOMALY_THRASHING, score + 20) else (flags, score));
          score = score + prediction_error p * 3;
          score = (if MAX_ANOMALY_SCORE <s score then MAX_ANOMALY_SCORE else score)
      in (flags, score))"

definition classify_health :: "'a pmetrics_scheme \<Rightarrow> 'a pmetrics_scheme" where
  "classify_health p =
     (if 70 \<le>s anomaly_score p then p\<lparr>health_status := HEALTH_CRITICAL\<rparr>
      else if 30 \<le>s anomaly_score p then p\<lparr>health_status := HEALTH_WARNING\<rparr>
      else p\<lparr>health_status := HEALTH_NORMAL\<rparr>)"

definition update_prediction_and_health :: "u32 \<Rightarrow> 'a pmetrics_scheme \<Rightarrow> 'a pmetrics_scheme" where
  "update_prediction_and_health ticks p =
     (let p = update_prediction p;
          (flags, score) = detect_anomaly p;
          p = classify_health (p\<lparr>anomaly_flags := flags, anomaly_score := score\<rparr>)
      in if health_status p \<noteq> HEALTH_NORMAL \<or> flags AND ANOMALY_STARVATION \<noteq> 0
         then apply_self_healing ticks p else p)"

section \<open>Burst accounting\<close>

text \<open>The accounting of \<^verbatim>\<open>sched()\<close>: what it does to the metrics of a process that has just been
  put into state \<open>st\<close>, before it switches away.\<close>

definition sched_account :: "u32 \<Rightarrow> procstate \<Rightarrow> 'a pmetrics_scheme \<Rightarrow> 'a pmetrics_scheme" where
  "sched_account ticks st p =
     (let p = p\<lparr>switches := switches p + 1\<rparr>
      in if st = SLEEPING \<or> st = ZOMBIE
         then let p = p\<lparr>last_burst := current_burst p\<rparr>;
                  p = (if est_burst p = 0 then p\<lparr>est_burst := last_burst p\<rparr>
                       else p\<lparr>est_burst := (last_burst p + est_burst p) div 2\<rparr>);
                  p = (if est_burst p \<le> INTERACTIVE_BURST_THRESH
                       then p\<lparr>proc_type := PROC_TYPE_INTERACTIVE\<rparr>
                       else if CPU_BOUND_BURST_THRESH \<le> est_burst p
                       then p\<lparr>proc_type := PROC_TYPE_CPU_BOUND\<rparr>
                       else p\<lparr>proc_type := PROC_TYPE_MIXED\<rparr>);
                  p = update_prediction_and_health ticks p
              in p\<lparr>current_burst := 0\<rparr>
         else if st = RUNNABLE \<and> est_burst p < current_burst p
         then let p = p\<lparr>est_burst := current_burst p\<rparr>;
                  p = (if CPU_BOUND_BURST_THRESH \<le> est_burst p
                       then p\<lparr>proc_type := PROC_TYPE_CPU_BOUND\<rparr>
                       else if est_burst p \<le> INTERACTIVE_BURST_THRESH
                       then p\<lparr>proc_type := PROC_TYPE_INTERACTIVE\<rparr>
                       else p\<lparr>proc_type := PROC_TYPE_MIXED\<rparr>);
                  p = p\<lparr>last_burst := current_burst p\<rparr>
              in update_prediction_and_health ticks p
         else p)"

text \<open>The timer-interrupt accounting of \<^verbatim>\<open>usertrap()\<close> and \<^verbatim>\<open>kerneltrap()\<close>: whether the running
  process has used up its slice, and its new metrics.\<close>

definition tick_account :: "'a pmetrics_scheme \<Rightarrow> bool \<times> 'a pmetrics_scheme" where
  "tick_account p =
     (let p = p\<lparr>cputicks := cputicks p + 1\<rparr>;
          p = p\<lparr>current_burst := current_burst p + 1\<rparr>;
          p = p\<lparr>ticks_in_slice := ticks_in_slice p + 1\<rparr>;
          p = (if est_burst p < current_burst p
               then let p = p\<lparr>est_burst := current_burst p\<rparr>
                    in if CPU_BOUND_BURST_THRESH \<le> est_burst p
                       then p\<lparr>proc_type := PROC_TYPE_CPU_BOUND\<rparr>
                       else if est_burst p \<le> INTERACTIVE_BURST_THRESH
                       then p\<lparr>proc_type := PROC_TYPE_INTERACTIVE\<rparr>
                       else p\<lparr>proc_type := PROC_TYPE_MIXED\<rparr>
               else p)
      in if time_slice p \<le> ticks_in_slice p then (True, p\<lparr>ticks_in_slice := 0\<rparr>) else (False, p))"

text \<open>The accounting of \<^verbatim>\<open>clock_tick_accounting()\<close> for one \<open>RUNNABLE\<close> process.\<close>

definition clock_account :: "u32 \<Rightarrow> 'a pmetrics_scheme \<Rightarrow> 'a pmetrics_scheme" where
  "clock_account ticks p =
     (let p = p\<lparr>waitticks := waitticks p + 1\<rparr>
      in if STARVATION_THRESH_TICKS \<le> waitticks p \<and> anomaly_flags p AND ANOMALY_STARVATION = 0
         then let p = p\<lparr>anomaly_flags := anomaly_flags p OR ANOMALY_STARVATION\<rparr>;
                  p = p\<lparr>anomaly_score :=
                          (if MAX_ANOMALY_SCORE <s anomaly_score p + 40 then MAX_ANOMALY_SCORE
                           else anomaly_score p + 40)\<rparr>;
                  p = (if 70 \<le>s anomaly_score p then p\<lparr>health_status := HEALTH_CRITICAL\<rparr>
                       else p\<lparr>health_status := HEALTH_WARNING\<rparr>)
              in apply_self_healing ticks p
         else p)"

text \<open>What the dispatch in \<^verbatim>\<open>scheduler()\<close> does to the metrics of the chosen process.\<close>

definition dispatch_account :: "u32 \<Rightarrow> 'a pmetrics_scheme \<Rightarrow> 'a pmetrics_scheme" where
  "dispatch_account ticks p =
     (let p = p\<lparr>sched_count := sched_count p + 1\<rparr>;
          p = p\<lparr>last_sched_tick := ucast ticks\<rparr>;
          p = p\<lparr>time_slice := calc_time_slice p\<rparr>;
          p = p\<lparr>ticks_in_slice := 0\<rparr>
      in p\<lparr>waitticks := 0\<rparr>)"

text \<open>The Phase 1 to 3 initialisation of \<^verbatim>\<open>allocproc()\<close> and the reset of \<^verbatim>\<open>freeproc()\<close>.\<close>

definition init_metrics :: "u32 \<Rightarrow> 'a pmetrics_scheme \<Rightarrow> 'a pmetrics_scheme" where
  "init_metrics ticks p =
     p\<lparr>cputicks := 0, waitticks := 0, sched_count := 0, switches := 0,
       creation_tick := ucast ticks, last_sched_tick := 0,
       current_burst := 0, last_burst := 0, est_burst := 0,
       proc_type := PROC_TYPE_INTERACTIVE,
       priority := PRIO_BASE_INTERACTIVE, time_slice := 1, ticks_in_slice := 0,
       predicted_burst := 1, prediction_error := 0, burst_trend := 0,
       anomaly_score := 0, anomaly_flags := ANOMALY_NONE, health_status := HEALTH_NORMAL,
       healing_actions := 0, last_heal_tick := 0\<rparr>"

definition reset_metrics :: "'a pmetrics_scheme \<Rightarrow> 'a pmetrics_scheme" where
  "reset_metrics p =
     p\<lparr>cputicks := 0, waitticks := 0, sched_count := 0, switches := 0,
       creation_tick := 0, last_sched_tick := 0,
       current_burst := 0, last_burst := 0, est_burst := 0,
       proc_type := PROC_TYPE_INTERACTIVE,
       priority := PRIO_BASE_INTERACTIVE, time_slice := 1, ticks_in_slice := 0,
       predicted_burst := 0, prediction_error := 0, burst_trend := 0,
       anomaly_score := 0, anomaly_flags := ANOMALY_NONE, health_status := HEALTH_NORMAL,
       healing_actions := 0, last_heal_tick := 0\<rparr>"

end
