(* ===== verification/Adaptive_Inv.thy ===== *)
theory Adaptive_Inv
  imports Adaptive
begin

text \<open>
  What the adaptive metrics satisfy. The first part gives each computation its meaning over the
  integers; the second part follows one process through every event that touches its metrics and
  proves the invariant of all reachable metrics.
\<close>

section \<open>Priority\<close>

lemma sless_i32: "(a :: i32) <s b \<longleftrightarrow> sint a < sint b"
  by (simp add: word_sless_alt)

lemma sle_i32: "(a :: i32) \<le>s b \<longleftrightarrow> sint a \<le> sint b"
  by (simp add: word_sle_eq)

lemmas signed_cmp = sless_i32 sle_i32

lemma calc_dynamic_priority_range:
  "1 \<le> sint (calc_dynamic_priority p)" "sint (calc_dynamic_priority p) \<le> 100"
  by (simp_all add: calc_dynamic_priority_def Let_def signed_cmp)

definition base_score :: "i32 \<Rightarrow> int" where
  "base_score ty = (if ty = PROC_TYPE_INTERACTIVE then 50 else if ty = PROC_TYPE_MIXED then 30 else 10)"

definition clamp :: "int \<Rightarrow> int \<Rightarrow> int \<Rightarrow> int" where
  "clamp lo hi x = max lo (min hi x)"

lemma ucast_double_wait:
  assumes "unat (w :: u64) < 536870912"
  shows "sint (ucast (w * 2) :: i32) = 2 * int (unat w)"
proof -
  have "unat (w * 2) = unat w * 2"
    using assms by (simp add: unat_word_ariths)
  moreover have "unat (ucast (w * 2) :: u32) = unat (w * 2) mod 4294967296"
    by (simp add: unsigned_ucast_eq take_bit_eq_mod)
  ultimately have "unat (ucast (w * 2) :: u32) = unat w * 2" using assms by simp
  then show ?thesis using assms by (simp add: sint_unat_u32)
qed

lemma calc_dynamic_priority_exact:
  assumes "unat (waitticks p) < 536870912" and "unat (est_burst p) < 536870912"
  shows "sint (calc_dynamic_priority p) =
    clamp 1 100 (base_score (proc_type p) + 2 * int (unat (waitticks p)) - int (unat (est_burst p)))"
proof -
  let ?w = "ucast (waitticks p * 2) :: i32" and ?e = "est_burst p"
  let ?b = "if proc_type p = PROC_TYPE_INTERACTIVE then 50
    else if proc_type p = PROC_TYPE_MIXED then 30 else 10 :: i32"
  have w: "sint ?w = 2 * int (unat (waitticks p))" by (rule ucast_double_wait[OF assms(1)])
  have e: "sint ?e = int (unat ?e)" using assms(2) by (intro sint_unat_u32) simp
  have b: "sint ?b = base_score (proc_type p)" by (simp add: base_score_def)
  have b_range: "10 \<le> base_score (proc_type p)" "base_score (proc_type p) \<le> 50"
    by (simp_all add: base_score_def)
  have bw: "sint (?b + ?w) = base_score (proc_type p) + 2 * int (unat (waitticks p))"
    by (subst sint_add_i32) (use assms(1) b_range b w in linarith)+
  have "sint (?b + ?w - ?e) =
      base_score (proc_type p) + 2 * int (unat (waitticks p)) - int (unat ?e)"
    by (subst sint_diff_i32) (use assms b_range bw e in linarith)+
  then show ?thesis
    by (simp add: calc_dynamic_priority_def Let_def signed_cmp clamp_def)
qed


section \<open>Self-healing: frame and effect\<close>

text \<open>Healing writes only the priority, the slice, the trend, the prediction, the score, the health
  and its own counters.\<close>

lemma heal_starvation_frame [simp]:
  "cputicks (fst (heal_starvation x)) = cputicks (fst x)"
  "waitticks (fst (heal_starvation x)) = waitticks (fst x)"
  "sched_count (fst (heal_starvation x)) = sched_count (fst x)"
  "switches (fst (heal_starvation x)) = switches (fst x)"
  "creation_tick (fst (heal_starvation x)) = creation_tick (fst x)"
  "last_sched_tick (fst (heal_starvation x)) = last_sched_tick (fst x)"
  "current_burst (fst (heal_starvation x)) = current_burst (fst x)"
  "last_burst (fst (heal_starvation x)) = last_burst (fst x)"
  "est_burst (fst (heal_starvation x)) = est_burst (fst x)"
  "proc_type (fst (heal_starvation x)) = proc_type (fst x)"
  "ticks_in_slice (fst (heal_starvation x)) = ticks_in_slice (fst x)"
  "prediction_error (fst (heal_starvation x)) = prediction_error (fst x)"
  "anomaly_flags (fst (heal_starvation x)) = anomaly_flags (fst x)"
  "pmetrics.more (fst (heal_starvation x)) = pmetrics.more (fst x)"
  by (simp_all add: heal_starvation_def Let_def split_beta)

lemma heal_burst_frame [simp]:
  "cputicks (fst (heal_burst x)) = cputicks (fst x)"
  "waitticks (fst (heal_burst x)) = waitticks (fst x)"
  "sched_count (fst (heal_burst x)) = sched_count (fst x)"
  "switches (fst (heal_burst x)) = switches (fst x)"
  "creation_tick (fst (heal_burst x)) = creation_tick (fst x)"
  "last_sched_tick (fst (heal_burst x)) = last_sched_tick (fst x)"
  "current_burst (fst (heal_burst x)) = current_burst (fst x)"
  "last_burst (fst (heal_burst x)) = last_burst (fst x)"
  "est_burst (fst (heal_burst x)) = est_burst (fst x)"
  "proc_type (fst (heal_burst x)) = proc_type (fst x)"
  "ticks_in_slice (fst (heal_burst x)) = ticks_in_slice (fst x)"
  "prediction_error (fst (heal_burst x)) = prediction_error (fst x)"
  "anomaly_flags (fst (heal_burst x)) = anomaly_flags (fst x)"
  "pmetrics.more (fst (heal_burst x)) = pmetrics.more (fst x)"
  by (simp_all add: heal_burst_def Let_def split_beta)

lemma heal_thrashing_frame [simp]:
  "cputicks (fst (heal_thrashing x)) = cputicks (fst x)"
  "waitticks (fst (heal_thrashing x)) = waitticks (fst x)"
  "sched_count (fst (heal_thrashing x)) = sched_count (fst x)"
  "switches (fst (heal_thrashing x)) = switches (fst x)"
  "creation_tick (fst (heal_thrashing x)) = creation_tick (fst x)"
  "last_sched_tick (fst (heal_thrashing x)) = last_sched_tick (fst x)"
  "current_burst (fst (heal_thrashing x)) = current_burst (fst x)"
  "last_burst (fst (heal_thrashing x)) = last_burst (fst x)"
  "est_burst (fst (heal_thrashing x)) = est_burst (fst x)"
  "proc_type (fst (heal_thrashing x)) = proc_type (fst x)"
  "ticks_in_slice (fst (heal_thrashing x)) = ticks_in_slice (fst x)"
  "prediction_error (fst (heal_thrashing x)) = prediction_error (fst x)"
  "anomaly_flags (fst (heal_thrashing x)) = anomaly_flags (fst x)"
  "pmetrics.more (fst (heal_thrashing x)) = pmetrics.more (fst x)"
  by (simp_all add: heal_thrashing_def Let_def split_beta)

lemma heal_relief_frame [simp]:
  "cputicks (heal_relief t p) = cputicks p"
  "waitticks (heal_relief t p) = waitticks p"
  "sched_count (heal_relief t p) = sched_count p"
  "switches (heal_relief t p) = switches p"
  "creation_tick (heal_relief t p) = creation_tick p"
  "last_sched_tick (heal_relief t p) = last_sched_tick p"
  "current_burst (heal_relief t p) = current_burst p"
  "last_burst (heal_relief t p) = last_burst p"
  "est_burst (heal_relief t p) = est_burst p"
  "proc_type (heal_relief t p) = proc_type p"
  "ticks_in_slice (heal_relief t p) = ticks_in_slice p"
  "prediction_error (heal_relief t p) = prediction_error p"
  "anomaly_flags (heal_relief t p) = anomaly_flags p"
  "pmetrics.more (heal_relief t p) = pmetrics.more p"
  "priority (heal_relief t p) = priority p"
  "time_slice (heal_relief t p) = time_slice p"
  "burst_trend (heal_relief t p) = burst_trend p"
  "predicted_burst (heal_relief t p) = predicted_burst p"
  by (simp_all add: heal_relief_def Let_def)

lemma heal_frame [simp]:
  "cputicks (apply_self_healing t p) = cputicks p"
  "waitticks (apply_self_healing t p) = waitticks p"
  "sched_count (apply_self_healing t p) = sched_count p"
  "switches (apply_self_healing t p) = switches p"
  "creation_tick (apply_self_healing t p) = creation_tick p"
  "last_sched_tick (apply_self_healing t p) = last_sched_tick p"
  "current_burst (apply_self_healing t p) = current_burst p"
  "last_burst (apply_self_healing t p) = last_burst p"
  "est_burst (apply_self_healing t p) = est_burst p"
  "proc_type (apply_self_healing t p) = proc_type p"
  "ticks_in_slice (apply_self_healing t p) = ticks_in_slice p"
  "prediction_error (apply_self_healing t p) = prediction_error p"
  "anomaly_flags (apply_self_healing t p) = anomaly_flags p"
  "pmetrics.more (apply_self_healing t p) = pmetrics.more p"
  by (simp_all add: apply_self_healing_def split_beta)

text \<open>The priority score and the slice of a dispatch do not depend on what healing writes.\<close>

lemma calc_dynamic_priority_cong:
  "proc_type p = proc_type q \<Longrightarrow> waitticks p = waitticks q \<Longrightarrow> est_burst p = est_burst q \<Longrightarrow>
   calc_dynamic_priority p = calc_dynamic_priority q"
  by (simp add: calc_dynamic_priority_def)

lemma calc_time_slice_cong: "proc_type p = proc_type q \<Longrightarrow> calc_time_slice p = calc_time_slice q"
  by (simp add: calc_time_slice_def)

lemma heal_priority_score: "calc_dynamic_priority (apply_self_healing t p) = calc_dynamic_priority p"
  by (rule calc_dynamic_priority_cong) simp_all

section \<open>The invariant of the metrics of one process\<close>

text \<open>No continuous burst reaches \<open>2\<^sup>2\<^sup>9\<close> ticks (about 620 days at ten ticks a second).\<close>

definition BURST_LIMIT :: nat where "BURST_LIMIT = 536870912"

definition type_of_burst :: "u32 \<Rightarrow> i32" where
  "type_of_burst e = (if e \<le> INTERACTIVE_BURST_THRESH then PROC_TYPE_INTERACTIVE
     else if CPU_BOUND_BURST_THRESH \<le> e then PROC_TYPE_CPU_BOUND else PROC_TYPE_MIXED)"

definition health_of_score :: "i32 \<Rightarrow> i32" where
  "health_of_score sc = (if 70 \<le> sint sc then HEALTH_CRITICAL
     else if 30 \<le> sint sc then HEALTH_WARNING else HEALTH_NORMAL)"

definition bursts_ok :: "'a pmetrics_scheme \<Rightarrow> bool" where
  "bursts_ok p \<longleftrightarrow> current_burst p \<le> est_burst p \<and> unat (est_burst p) < BURST_LIMIT
     \<and> proc_type p = type_of_burst (est_burst p)"

definition trend_ok :: "'a pmetrics_scheme \<Rightarrow> bool" where
  "trend_ok p \<longleftrightarrow> - int BURST_LIMIT \<le> sint (burst_trend p) \<and> sint (burst_trend p) \<le> 0
     \<and> unat (predicted_burst p) \<le> BURST_LIMIT"

definition forecast_ok :: "'a pmetrics_scheme \<Rightarrow> bool" where
  "forecast_ok p \<longleftrightarrow> unat (predicted_burst p) \<le> max 1 (unat (est_burst p))"

definition health_ok :: "'a pmetrics_scheme \<Rightarrow> bool" where
  "health_ok p \<longleftrightarrow> 0 \<le> sint (anomaly_score p) \<and> sint (anomaly_score p) \<le> 100
     \<and> health_status p = health_of_score (anomaly_score p)
     \<and> anomaly_flags p AND ANOMALY_THRASHING = 0"

definition slice_ok :: "'a pmetrics_scheme \<Rightarrow> bool" where
  "slice_ok p \<longleftrightarrow> time_slice p \<in> {1, 2, 4} \<and> 1 \<le> sint (priority p) \<and> sint (priority p) \<le> 100"

lemmas metrics_ok_defs = bursts_ok_def trend_ok_def health_ok_def slice_ok_def forecast_ok_def

lemma bursts_ok_heal [simp]: "bursts_ok (apply_self_healing t p) = bursts_ok p"
  by (simp add: bursts_ok_def)

text \<open>The fields that a remedy does write.\<close>

lemma heal_starvation_eq:
  "heal_starvation (p, healed) =
     (if anomaly_flags p AND ANOMALY_STARVATION = 0 then (p, healed)
      else (p\<lparr>priority := (if MAX_PRIORITY <s priority p + 25 then MAX_PRIORITY else priority p + 25),
               time_slice := 2\<rparr>, True))"
  by (simp add: heal_starvation_def Let_def)

lemma heal_burst_eq:
  "heal_burst (p, healed) =
     (if anomaly_flags p AND (ANOMALY_BURST_SURGE OR ANOMALY_INSTABILITY) = 0 then (p, healed)
      else (p\<lparr>burst_trend := 0, predicted_burst := est_burst p, time_slice := calc_time_slice p\<rparr>,
            True))"
  by (simp add: heal_burst_def Let_def calc_time_slice_def)

lemma heal_thrashing_eq:
  "heal_thrashing (p, healed) =
     (if anomaly_flags p AND ANOMALY_THRASHING = 0 then (p, healed)
      else (p\<lparr>time_slice := 2\<rparr>, True))"
  by (simp add: heal_thrashing_def)

lemma trend_ok_heal:
  assumes "trend_ok p" and "bursts_ok p"
  shows "trend_ok (apply_self_healing t p)"
proof -
  obtain q h where q: "heal_burst (heal_starvation (p, False)) = (q, h)" by fastforce
  have "burst_trend q = burst_trend p \<and> predicted_burst q = predicted_burst p
      \<or> burst_trend q = 0 \<and> predicted_burst q = est_burst p"
    using q by (auto simp: heal_starvation_eq heal_burst_eq split: if_splits)
  then have "trend_ok q" using assms by (auto simp: trend_ok_def bursts_ok_def)
  then have "trend_ok (fst (heal_thrashing (q, h)))"
    by (simp add: heal_thrashing_eq trend_ok_def)
  then show ?thesis by (simp add: apply_self_healing_def q split_beta trend_ok_def)
qed

lemma forecast_ok_heal:
  assumes "forecast_ok p"
  shows "forecast_ok (apply_self_healing t p)"
proof -
  obtain q h where q: "heal_burst (heal_starvation (p, False)) = (q, h)" by fastforce
  have "(predicted_burst q = predicted_burst p \<or> predicted_burst q = est_burst p)
      \<and> est_burst q = est_burst p"
    using q by (auto simp: heal_starvation_eq heal_burst_eq split: if_splits)
  then have "forecast_ok q" using assms by (auto simp: forecast_ok_def)
  then have "forecast_ok (fst (heal_thrashing (q, h)))"
    by (simp add: heal_thrashing_eq forecast_ok_def)
  then show ?thesis by (simp add: apply_self_healing_def q split_beta forecast_ok_def)
qed

lemma calc_time_slice_cases: "calc_time_slice p \<in> {1, 2, 4}"
  by (simp add: calc_time_slice_def)

lemma slice_ok_heal:
  assumes "slice_ok p"
  shows "slice_ok (apply_self_healing t p)"
proof -
  have 1: "slice_ok (fst (heal_starvation x))" if "slice_ok (fst x)" for x
  proof -
    obtain q h where x: "x = (q, h)" by fastforce
    have "sint (priority q + 25) = sint (priority q) + 25"
      using that x by (subst sint_add_i32) (simp_all add: slice_ok_def)
    with that x show ?thesis by (auto simp: slice_ok_def heal_starvation_eq signed_cmp)
  qed
  have 2: "slice_ok (fst (heal_burst x))" if "slice_ok (fst x)" for x
    using that calc_time_slice_cases by (cases x) (auto simp: slice_ok_def heal_burst_eq)
  have 3: "slice_ok (fst (heal_thrashing x))" if "slice_ok (fst x)" for x
    using that by (cases x) (auto simp: slice_ok_def heal_thrashing_eq)
  have "slice_ok (fst (heal_thrashing (heal_burst (heal_starvation (p, False)))))"
    using assms by (intro 1 2 3) simp
  then show ?thesis by (simp add: apply_self_healing_def split_beta slice_ok_def)
qed

lemma health_ok_relief:
  assumes "health_ok p"
  shows "health_ok (heal_relief t p)"
proof (cases "20 <s anomaly_score p")
  case True
  then have "sint (anomaly_score p - 15) = sint (anomaly_score p) - 15"
    using assms by (subst sint_diff_i32) (simp_all add: health_ok_def)
  with assms True show ?thesis
    by (auto simp: health_ok_def heal_relief_def Let_def signed_cmp health_of_score_def)
next
  case False
  with assms show ?thesis
    by (auto simp: health_ok_def heal_relief_def Let_def signed_cmp health_of_score_def)
qed

lemma heal_keeps_health:
  "health_ok (fst (heal_thrashing (heal_burst (heal_starvation (p, h))))) = health_ok p"
  by (simp add: health_ok_def heal_starvation_eq heal_burst_eq heal_thrashing_eq)

lemma health_ok_heal: "health_ok p \<Longrightarrow> health_ok (apply_self_healing t p)"
  using health_ok_relief[of "fst (heal_thrashing (heal_burst (heal_starvation (p, False))))"]
  by (simp add: apply_self_healing_def split_beta heal_keeps_health)

section \<open>Prediction\<close>

lemma update_prediction_frame [simp]:
  "cputicks (update_prediction p) = cputicks p"
  "waitticks (update_prediction p) = waitticks p"
  "sched_count (update_prediction p) = sched_count p"
  "switches (update_prediction p) = switches p"
  "current_burst (update_prediction p) = current_burst p"
  "last_burst (update_prediction p) = last_burst p"
  "est_burst (update_prediction p) = est_burst p"
  "proc_type (update_prediction p) = proc_type p"
  "priority (update_prediction p) = priority p"
  "time_slice (update_prediction p) = time_slice p"
  "ticks_in_slice (update_prediction p) = ticks_in_slice p"
  "pmetrics.more (update_prediction p) = pmetrics.more p"
  by (simp_all add: update_prediction_def Let_def)

lemma half_nonpos:
  assumes "- 2 * k \<le> x" and "x \<le> (0 :: int)" and "0 \<le> k"
  shows "- k \<le> x sdiv 2" and "x sdiv 2 \<le> 0"
  using assms by (auto simp: signed_divide_int_def sgn_if)

lemma update_prediction_error:
  "prediction_error (update_prediction p) =
     (if predicted_burst p = 0 then 0
      else if predicted_burst p \<le> last_burst p then last_burst p - predicted_burst p
      else predicted_burst p - last_burst p)"
  by (simp add: update_prediction_def Let_def word_greater_zero_iff)

text \<open>As long as the last burst does not exceed the estimate, the trend stays at or below zero and
  the forecast stays in range.\<close>

lemma update_prediction_trend:
  assumes "last_burst p \<le> est_burst p" and "unat (est_burst p) < BURST_LIMIT" and "trend_ok p"
  shows "trend_ok (update_prediction p)" and "forecast_ok (update_prediction p)"
proof -
  let ?a = "last_burst p" and ?e = "est_burst p" and ?t = "burst_trend p"
  let ?d = "?a - ?e"
  let ?t' = "sdiv_i32 (?d + ?t) 2"
  have e: "sint ?e = int (unat ?e)" and a: "sint ?a = int (unat ?a)"
    using assms(1,2) by (simp_all add: sint_unat_u32 BURST_LIMIT_def word_le_nat_alt)
  have bnd: "unat ?a \<le> unat ?e" "unat ?e < 536870912"
    using assms(1,2) by (simp_all add: word_le_nat_alt BURST_LIMIT_def)
  have t: "- 536870912 \<le> sint ?t" "sint ?t \<le> 0"
    using assms(3) by (simp_all add: trend_ok_def BURST_LIMIT_def)
  have d: "sint ?d = int (unat ?a) - int (unat ?e)"
    by (subst sint_diff_i32) (use a e bnd in linarith)+
  have sum: "sint (?d + ?t) = sint ?d + sint ?t"
    by (rule sint_add_i32) (use d bnd t in linarith)+
  have t': "- 536870912 \<le> sint ?t'" "sint ?t' \<le> 0"
    unfolding sint_sdiv2
    by (rule half_nonpos[of 536870912 "sint (?d + ?t)"]; use sum d bnd t in linarith)+
  have n: "sint (?e + ?t') = sint ?e + sint ?t'"
    by (rule sint_add_i32) (use e bnd t' in linarith)+
  let ?n = "if ?e + ?t' <s 1 then 1 else ?e + ?t'"
  have "sint (?e + ?t') \<le> int (unat ?e)" using n e bnd t' by linarith
  then have "1 \<le> sint ?n" "sint ?n \<le> max 1 (int (unat ?e))"
    by (auto simp: signed_cmp)
  then have "unat ?n \<le> max 1 (unat ?e)"
    using unat_sint_nonneg[of ?n] by linarith
  moreover have "predicted_burst (update_prediction p) = ?n"
    by (simp add: update_prediction_def Let_def)
  ultimately show "forecast_ok (update_prediction p)"
    by (simp add: forecast_ok_def)
  with bnd t' show "trend_ok (update_prediction p)"
    by (auto simp: trend_ok_def forecast_ok_def BURST_LIMIT_def)
       (simp_all add: update_prediction_def Let_def)
qed


section \<open>Anomaly detection\<close>

lemma detect_anomaly_score:
  assumes "unat (prediction_error p) \<le> BURST_LIMIT"
  shows "0 \<le> sint (snd (detect_anomaly p))" and "sint (snd (detect_anomaly p)) \<le> 100"
proof -
  let ?x = "prediction_error p * 3 :: i32"
  have "unat ?x = unat (prediction_error p) * 3"
    using assms by (simp add: unat_word_ariths BURST_LIMIT_def)
  then have x: "sint ?x = 3 * int (unat (prediction_error p))"
    using assms by (simp add: sint_unat_u32 BURST_LIMIT_def)
  have b: "unat (prediction_error p) \<le> 536870912" using assms by (simp add: BURST_LIMIT_def)
  have nonneg: "0 \<le> sint ?x" using x by linarith
  have add: "sint (sc + ?x) = sint sc + sint ?x" if "0 \<le> sint sc" "sint sc \<le> 120" for sc :: i32
    by (rule sint_add_i32) (use b x that in linarith)+
  show "0 \<le> sint (snd (detect_anomaly p))" "sint (snd (detect_anomaly p)) \<le> 100"
    using nonneg by (auto simp: detect_anomaly_def Let_def add signed_cmp)
qed

lemma detect_anomaly_thrashing:
  "\<not> (sched_count p * 2 < switches p \<and> 5 < sched_count p) \<Longrightarrow>
   fst (detect_anomaly p) AND ANOMALY_THRASHING = 0"
  by (auto simp: detect_anomaly_def Let_def)

lemma detect_anomaly_starvation:
  "waitticks p = 0 \<Longrightarrow> fst (detect_anomaly p) AND ANOMALY_STARVATION = 0"
  by (auto simp: detect_anomaly_def Let_def)

lemma classify_health_status:
  "health_status (classify_health p) = health_of_score (anomaly_score p)"
  by (simp add: classify_health_def health_of_score_def signed_cmp)

lemma classify_health_eq:
  "classify_health p = p\<lparr>health_status := health_of_score (anomaly_score p)\<rparr>"
  by (simp add: classify_health_def health_of_score_def signed_cmp)


lemma prediction_error_bound:
  assumes "last_burst p \<le> est_burst p" and "unat (est_burst p) < BURST_LIMIT" and "trend_ok p"
  shows "unat (prediction_error (update_prediction p)) \<le> BURST_LIMIT"
proof -
  have a: "unat (last_burst p) < BURST_LIMIT" and q: "unat (predicted_burst p) \<le> BURST_LIMIT"
    using assms by (simp_all add: word_le_nat_alt trend_ok_def)
  have "unat (last_burst p - predicted_burst p) \<le> unat (last_burst p)"
    if "predicted_burst p \<le> last_burst p" using that by (simp add: unat_sub word_le_nat_alt)
  moreover have "unat (predicted_burst p - last_burst p) \<le> unat (predicted_burst p)"
    if "\<not> predicted_burst p \<le> last_burst p" using that by (simp add: unat_sub word_le_nat_alt)
  ultimately show ?thesis
    using a q by (auto simp: update_prediction_error)
qed

text \<open>The state in which the health has been classified and before healing.\<close>

definition assessed :: "'a pmetrics_scheme \<Rightarrow> 'a pmetrics_scheme" where
  "assessed p =
     (let p = update_prediction p
      in classify_health
           (p\<lparr>anomaly_flags := fst (detect_anomaly p), anomaly_score := snd (detect_anomaly p)\<rparr>))"

lemma update_prediction_and_health_eq:
  "update_prediction_and_health t p =
     (if health_status (assessed p) \<noteq> HEALTH_NORMAL
         \<or> anomaly_flags (assessed p) AND ANOMALY_STARVATION \<noteq> 0
      then apply_self_healing t (assessed p) else assessed p)"
  by (simp add: update_prediction_and_health_def assessed_def Let_def split_beta
      classify_health_eq)

lemma assessed_frame [simp]:
  "waitticks (assessed p) = waitticks p" "sched_count (assessed p) = sched_count p"
  "switches (assessed p) = switches p" "current_burst (assessed p) = current_burst p"
  "last_burst (assessed p) = last_burst p" "est_burst (assessed p) = est_burst p"
  "proc_type (assessed p) = proc_type p" "priority (assessed p) = priority p"
  "time_slice (assessed p) = time_slice p" "ticks_in_slice (assessed p) = ticks_in_slice p"
  "cputicks (assessed p) = cputicks p" "pmetrics.more (assessed p) = pmetrics.more p"
  by (simp_all add: assessed_def Let_def classify_health_eq)

lemma update_frame [simp]:
  "waitticks (update_prediction_and_health t p) = waitticks p"
  "sched_count (update_prediction_and_health t p) = sched_count p"
  "switches (update_prediction_and_health t p) = switches p"
  "current_burst (update_prediction_and_health t p) = current_burst p"
  "last_burst (update_prediction_and_health t p) = last_burst p"
  "est_burst (update_prediction_and_health t p) = est_burst p"
  "proc_type (update_prediction_and_health t p) = proc_type p"
  "ticks_in_slice (update_prediction_and_health t p) = ticks_in_slice p"
  "cputicks (update_prediction_and_health t p) = cputicks p"
  "pmetrics.more (update_prediction_and_health t p) = pmetrics.more p"
  by (simp_all add: update_prediction_and_health_eq)

lemma assessed_ok:
  assumes "last_burst p \<le> est_burst p" and "bursts_ok p" and "trend_ok p" and "slice_ok p"
    and "\<not> (sched_count p * 2 < switches p \<and> 5 < sched_count p)"
  shows "bursts_ok (assessed p)" and "trend_ok (assessed p)" and "health_ok (assessed p)"
    and "slice_ok (assessed p)" and "forecast_ok (assessed p)"
proof -
  let ?q = "update_prediction p"
  have lim: "unat (est_burst p) < BURST_LIMIT" using assms(2) by (simp add: bursts_ok_def)
  show "bursts_ok (assessed p)" using assms(2) by (simp add: bursts_ok_def)
  show "trend_ok (assessed p)"
    using update_prediction_trend(1)[OF assms(1) lim assms(3)]
    by (simp add: trend_ok_def assessed_def Let_def classify_health_eq)
  show "forecast_ok (assessed p)"
    using update_prediction_trend(2)[OF assms(1) lim assms(3)]
    by (simp add: forecast_ok_def assessed_def Let_def classify_health_eq)
  show "health_ok (assessed p)"
    using detect_anomaly_score[OF prediction_error_bound[OF assms(1) lim assms(3)]]
      detect_anomaly_thrashing[of ?q] assms(5)
    by (simp add: health_ok_def assessed_def Let_def classify_health_eq)
  show "slice_ok (assessed p)" using assms(4) by (simp add: slice_ok_def)
qed

lemma update_ok:
  assumes "last_burst p \<le> est_burst p" and "bursts_ok p" and "trend_ok p" and "slice_ok p"
    and "\<not> (sched_count p * 2 < switches p \<and> 5 < sched_count p)"
  shows "bursts_ok (update_prediction_and_health t p)"
    and "trend_ok (update_prediction_and_health t p)"
    and "health_ok (update_prediction_and_health t p)"
    and "slice_ok (update_prediction_and_health t p)"
    and "forecast_ok (update_prediction_and_health t p)"
  using assessed_ok[OF assms]
  by (simp_all add: update_prediction_and_health_eq trend_ok_heal health_ok_heal slice_ok_heal
      forecast_ok_heal)

section \<open>The life of a process, seen by its metrics\<close>

text \<open>
  One step per place in the kernel that changes the state or the metrics of a process. The two side
  conditions bound a run: no burst lasts \<^const>\<open>BURST_LIMIT\<close> ticks, and no process is dispatched
  \<open>2\<^sup>6\<^sup>3\<close> times.
\<close>

inductive metric_step ::
  "procstate \<times> 'a pmetrics_scheme \<Rightarrow> procstate \<times> 'a pmetrics_scheme \<Rightarrow> bool" where
  m_alloc: "metric_step (UNUSED, p) (USED, init_metrics t p)"
| m_ready: "metric_step (USED, p) (RUNNABLE, p)"
| m_dispatch: "Suc (unat (sched_count p)) < 2 ^ 63 \<Longrightarrow>
    metric_step (RUNNABLE, p) (RUNNING, dispatch_account t p)"
| m_tick: "Suc (unat (current_burst p)) < BURST_LIMIT \<Longrightarrow>
    metric_step (RUNNING, p) (RUNNING, snd (tick_account p))"
| m_preempt: "metric_step (RUNNING, p) (RUNNABLE, sched_account t RUNNABLE p)"
| m_block: "st = SLEEPING \<or> st = ZOMBIE \<Longrightarrow> metric_step (RUNNING, p) (st, sched_account t st p)"
| m_wake: "metric_step (SLEEPING, p) (RUNNABLE, p)"
| m_clock: "metric_step (RUNNABLE, p) (RUNNABLE, clock_account t p)"
| m_score: "metric_step (RUNNABLE, p) (RUNNABLE, p\<lparr>priority := calc_dynamic_priority p\<rparr>)"
| m_free: "st = USED \<or> st = ZOMBIE \<Longrightarrow> metric_step (st, p) (UNUSED, reset_metrics p)"

inductive metric_reach :: "procstate \<times> 'a pmetrics_scheme \<Rightarrow> bool" where
  mr_boot: "metric_reach (UNUSED, p)"
| mr_step: "metric_reach x \<Longrightarrow> metric_step x y \<Longrightarrow> metric_reach y"

definition metrics_inv :: "procstate \<times> 'a pmetrics_scheme \<Rightarrow> bool" where
  "metrics_inv = (\<lambda>(st, p). st = UNUSED \<or>
     bursts_ok p \<and> trend_ok p \<and> health_ok p \<and> slice_ok p \<and> forecast_ok p
     \<and> sched_count p = switches p + (if st = RUNNING then 1 else 0)
     \<and> unat (sched_count p) < 2 ^ 63
     \<and> (st \<noteq> RUNNABLE \<longrightarrow> waitticks p = 0)
     \<and> (st = RUNNING \<longrightarrow> ticks_in_slice p < time_slice p))"

lemma metrics_invI:
  assumes "st \<noteq> UNUSED \<Longrightarrow> bursts_ok p" and "st \<noteq> UNUSED \<Longrightarrow> trend_ok p"
    and "st \<noteq> UNUSED \<Longrightarrow> health_ok p" and "st \<noteq> UNUSED \<Longrightarrow> slice_ok p"
    and "st \<noteq> UNUSED \<Longrightarrow> sched_count p = switches p + (if st = RUNNING then 1 else 0)"
    and "st \<noteq> UNUSED \<Longrightarrow> unat (sched_count p) < 2 ^ 63"
    and "st \<noteq> UNUSED \<Longrightarrow> st \<noteq> RUNNABLE \<Longrightarrow> waitticks p = 0"
    and "st = RUNNING \<Longrightarrow> ticks_in_slice p < time_slice p"
    and "st \<noteq> UNUSED \<Longrightarrow> forecast_ok p"
  shows "metrics_inv (st, p)"
  using assms by (auto simp: metrics_inv_def)

lemma metrics_invD:
  assumes "metrics_inv (st, p)" and "st \<noteq> UNUSED"
  shows "bursts_ok p" "trend_ok p" "health_ok p" "slice_ok p"
    "sched_count p = switches p + (if st = RUNNING then 1 else 0)"
    "unat (sched_count p) < 2 ^ 63" "st \<noteq> RUNNABLE \<Longrightarrow> waitticks p = 0"
    "st = RUNNING \<Longrightarrow> ticks_in_slice p < time_slice p" "forecast_ok p"
  using assms by (auto simp: metrics_inv_def)


subsection \<open>Every step keeps the invariant\<close>

lemma type_of_burst_alt:
  "type_of_burst e = (if CPU_BOUND_BURST_THRESH \<le> e then PROC_TYPE_CPU_BOUND
     else if e \<le> INTERACTIVE_BURST_THRESH then PROC_TYPE_INTERACTIVE else PROC_TYPE_MIXED)"
  by (auto simp: type_of_burst_def word_le_nat_alt)

lemma unat_Suc_u32: "Suc (unat (x :: u32)) < 4294967296 \<Longrightarrow> unat (x + 1) = Suc (unat x)"
  by (simp add: unat_word_ariths)

lemma inv_alloc: "metrics_inv (USED, init_metrics t p)"
  by (rule metrics_invI)
     (simp_all add: init_metrics_def metrics_ok_defs BURST_LIMIT_def type_of_burst_def
        health_of_score_def)

lemma inv_dispatch:
  assumes "metrics_inv (RUNNABLE, p)" and "Suc (unat (sched_count p)) < 2 ^ 63"
  shows "metrics_inv (RUNNING, dispatch_account t p)"
proof -
  have c: "unat (sched_count p + 1) < 2 ^ 63"
    using assms(2) by (simp add: unat_word_ariths)
  show ?thesis
    using metrics_invD[OF assms(1)] calc_time_slice_cases[of p] c
    by (intro metrics_invI)
       (auto simp: dispatch_account_def Let_def metrics_ok_defs calc_time_slice_def)
qed

lemma tick_account_fields:
  "est_burst (snd (tick_account p)) =
     (if est_burst p < current_burst p + 1 then current_burst p + 1 else est_burst p)"
  "current_burst (snd (tick_account p)) = current_burst p + 1"
  "proc_type (snd (tick_account p)) =
     (if est_burst p < current_burst p + 1 then type_of_burst (current_burst p + 1)
      else proc_type p)"
  "ticks_in_slice (snd (tick_account p)) =
     (if time_slice p \<le> ticks_in_slice p + 1 then 0 else ticks_in_slice p + 1)"
  "fst (tick_account p) \<longleftrightarrow> time_slice p \<le> ticks_in_slice p + 1"
  by (simp_all add: tick_account_def Let_def type_of_burst_alt)

lemma tick_account_frame [simp]:
  "time_slice (snd (tick_account p)) = time_slice p"
  "priority (snd (tick_account p)) = priority p"
  "waitticks (snd (tick_account p)) = waitticks p"
  "sched_count (snd (tick_account p)) = sched_count p"
  "switches (snd (tick_account p)) = switches p"
  "burst_trend (snd (tick_account p)) = burst_trend p"
  "predicted_burst (snd (tick_account p)) = predicted_burst p"
  "anomaly_score (snd (tick_account p)) = anomaly_score p"
  "anomaly_flags (snd (tick_account p)) = anomaly_flags p"
  "health_status (snd (tick_account p)) = health_status p"
  "healing_actions (snd (tick_account p)) = healing_actions p"
  "pmetrics.more (snd (tick_account p)) = pmetrics.more p"
  by (simp_all add: tick_account_def Let_def)

lemma inv_tick:
  assumes "metrics_inv (RUNNING, p)" and "Suc (unat (current_burst p)) < BURST_LIMIT"
  shows "metrics_inv (RUNNING, snd (tick_account p))"
proof (rule metrics_invI)
  note D = metrics_invD[OF assms(1)]
  have c: "unat (current_burst p + 1) = Suc (unat (current_burst p))"
    using assms(2) by (intro unat_Suc_u32) (simp add: BURST_LIMIT_def)
  with assms(2) D(1) show "bursts_ok (snd (tick_account p))"
    by (auto simp: bursts_ok_def tick_account_fields)
  show "forecast_ok (snd (tick_account p))"
    using D(9) c
    by (auto simp: forecast_ok_def tick_account_fields word_less_nat_alt)
  show "ticks_in_slice (snd (tick_account p)) < time_slice (snd (tick_account p))"
  proof (cases "time_slice p \<le> ticks_in_slice p + 1")
    case True
    with D(4) show ?thesis by (auto simp: tick_account_fields slice_ok_def)
  next
    case False
    then show ?thesis by (simp add: tick_account_fields)
  qed
qed (use metrics_invD[OF assms(1)] in \<open>simp_all add: trend_ok_def health_ok_def slice_ok_def\<close>)

text \<open>The marking of a process that has just been found starving.\<close>

definition mark_starving :: "'a pmetrics_scheme \<Rightarrow> 'a pmetrics_scheme" where
  "mark_starving p =
     (let sc = (if MAX_ANOMALY_SCORE <s anomaly_score p + 40 then MAX_ANOMALY_SCORE
                else anomaly_score p + 40)
      in p\<lparr>anomaly_flags := anomaly_flags p OR ANOMALY_STARVATION, anomaly_score := sc,
           health_status := (if 70 \<le>s sc then HEALTH_CRITICAL else HEALTH_WARNING)\<rparr>)"

lemma clock_account_eq:
  "clock_account t p =
     (let q = p\<lparr>waitticks := waitticks p + 1\<rparr>
      in if STARVATION_THRESH_TICKS \<le> waitticks q \<and> anomaly_flags q AND ANOMALY_STARVATION = 0
         then apply_self_healing t (mark_starving q) else q)"
  by (simp add: clock_account_def mark_starving_def Let_def)

lemma mark_starving_frame [simp]:
  "waitticks (mark_starving p) = waitticks p" "sched_count (mark_starving p) = sched_count p"
  "switches (mark_starving p) = switches p" "est_burst (mark_starving p) = est_burst p"
  "proc_type (mark_starving p) = proc_type p" "current_burst (mark_starving p) = current_burst p"
  "bursts_ok (mark_starving p) = bursts_ok p" "trend_ok (mark_starving p) = trend_ok p"
  "slice_ok (mark_starving p) = slice_ok p" "forecast_ok (mark_starving p) = forecast_ok p"
  "healing_actions (mark_starving p) = healing_actions p"
  "pmetrics.more (mark_starving p) = pmetrics.more p"
  by (simp_all add: mark_starving_def metrics_ok_defs Let_def)

lemma health_ok_mark:
  assumes "health_ok p"
  shows "health_ok (mark_starving p)"
proof -
  have plus: "sint (anomaly_score p + 40) = sint (anomaly_score p) + 40"
    using assms by (subst sint_add_i32) (simp_all add: health_ok_def)
  have "(anomaly_flags p OR 2) AND 4 = anomaly_flags p AND 4"
    by (rule bit_word_eqI) (auto simp: bit_simps)
  then show ?thesis
    using assms plus
    by (auto simp: health_ok_def health_of_score_def signed_cmp mark_starving_def Let_def)
qed

lemma inv_clock:
  assumes "metrics_inv (RUNNABLE, p)"
  shows "metrics_inv (RUNNABLE, clock_account t p)"
proof -
  let ?q = "p\<lparr>waitticks := waitticks p + 1\<rparr>"
  note D = metrics_invD[OF assms]
  have q: "bursts_ok ?q" "trend_ok ?q" "health_ok ?q" "slice_ok ?q" "forecast_ok ?q"
    using D by (simp_all add: metrics_ok_defs)
  show ?thesis
    using D q by (intro metrics_invI)
      (simp_all add: clock_account_eq Let_def trend_ok_heal health_ok_heal slice_ok_heal
        forecast_ok_heal health_ok_mark)
qed

lemma inv_score: "metrics_inv (RUNNABLE, p) \<Longrightarrow>
    metrics_inv (RUNNABLE, p\<lparr>priority := calc_dynamic_priority p\<rparr>)"
  using calc_dynamic_priority_range[of p] by (auto simp: metrics_inv_def metrics_ok_defs)


text \<open>A voluntary switch: the estimate moves to the mean of the burst and the old estimate.\<close>

definition burst_done :: "'a pmetrics_scheme \<Rightarrow> 'a pmetrics_scheme" where
  "burst_done p =
     (let e = (if est_burst p = 0 then current_burst p else (current_burst p + est_burst p) div 2)
      in p\<lparr>switches := switches p + 1, last_burst := current_burst p, est_burst := e,
           proc_type := type_of_burst e\<rparr>)"

lemma sched_account_block:
  "st = SLEEPING \<or> st = ZOMBIE \<Longrightarrow>
   sched_account t st p = (update_prediction_and_health t (burst_done p))\<lparr>current_burst := 0\<rparr>"
  by (auto simp: sched_account_def burst_done_def type_of_burst_def Let_def)

lemma ema_bounds:
  assumes "c \<le> e" and "unat (e :: u32) < BURST_LIMIT"
  shows "c \<le> (if e = 0 then c else (c + e) div 2)"
    and "(if e = 0 then c else (c + e) div 2) \<le> e"
    and "e \<noteq> 0 \<Longrightarrow> unat ((c + e) div 2) = (unat c + unat e) div 2"
proof -
  have "unat (c + e) = unat c + unat e"
    using assms by (simp add: unat_word_ariths BURST_LIMIT_def word_le_nat_alt)
  then have half: "unat ((c + e) div 2) = (unat c + unat e) div 2" by (simp add: unat_div)
  then show "e \<noteq> 0 \<Longrightarrow> unat ((c + e) div 2) = (unat c + unat e) div 2" .
  show "c \<le> (if e = 0 then c else (c + e) div 2)" "(if e = 0 then c else (c + e) div 2) \<le> e"
    using assms(1) half by (auto simp: word_le_nat_alt)
qed

lemma burst_done_ok:
  assumes "bursts_ok p"
  shows "last_burst (burst_done p) \<le> est_burst (burst_done p)" and "bursts_ok (burst_done p)"
proof -
  have b: "current_burst p \<le> est_burst p" "unat (est_burst p) < BURST_LIMIT"
    using assms by (simp_all add: bursts_ok_def)
  note E = ema_bounds[OF b]
  show "last_burst (burst_done p) \<le> est_burst (burst_done p)"
    using E(1) by (simp add: burst_done_def Let_def)
  have "unat (est_burst (burst_done p)) \<le> unat (est_burst p)"
    using E(2) by (simp add: burst_done_def Let_def word_le_nat_alt)
  with b E(1) show "bursts_ok (burst_done p)"
    by (simp add: bursts_ok_def burst_done_def Let_def)
qed

lemma no_thrashing:
  "unat (n :: u64) < 2 ^ 63 \<Longrightarrow> \<not> (n * 2 < n \<and> 5 < n)"
  by (simp add: word_less_nat_alt unat_word_ariths)

lemma burst_done_frame [simp]:
  "sched_count (burst_done p) = sched_count p" "switches (burst_done p) = switches p + 1"
  "waitticks (burst_done p) = waitticks p" "trend_ok (burst_done p) = trend_ok p"
  "slice_ok (burst_done p) = slice_ok p" "anomaly_flags (burst_done p) = anomaly_flags p"
  "healing_actions (burst_done p) = healing_actions p"
  "pmetrics.more (burst_done p) = pmetrics.more p"
  by (simp_all add: burst_done_def Let_def trend_ok_def slice_ok_def)

lemma inv_block:
  assumes "metrics_inv (RUNNING, p)" and st: "st = SLEEPING \<or> st = ZOMBIE"
  shows "metrics_inv (st, sched_account t st p)"
proof -
  note D = metrics_invD[OF assms(1)]
  let ?d = "burst_done p"
  have count: "sched_count ?d = switches ?d" and small: "unat (switches ?d) < 2 ^ 63"
    using D(5,6) by simp_all
  have "\<not> (sched_count ?d * 2 < switches ?d \<and> 5 < sched_count ?d)"
    unfolding count using no_thrashing[OF small] .
  then have U: "bursts_ok (update_prediction_and_health t ?d)"
      "trend_ok (update_prediction_and_health t ?d)" "health_ok (update_prediction_and_health t ?d)"
      "slice_ok (update_prediction_and_health t ?d)"
      "forecast_ok (update_prediction_and_health t ?d)"
    using D update_ok[OF burst_done_ok(1)[OF D(1)] burst_done_ok(2)[OF D(1)]] by simp_all
  then show ?thesis
    using st D(5-7)
    by (intro metrics_invI) (auto simp: sched_account_block metrics_ok_defs)
qed

text \<open>A preemption only counts the switch: the timer has already raised the estimate to the burst.\<close>

lemma sched_account_preempt:
  "bursts_ok p \<Longrightarrow> sched_account t RUNNABLE p = p\<lparr>switches := switches p + 1\<rparr>"
  by (auto simp: sched_account_def bursts_ok_def Let_def)

lemma inv_preempt:
  assumes "metrics_inv (RUNNING, p)"
  shows "metrics_inv (RUNNABLE, sched_account t RUNNABLE p)"
  using metrics_invD[OF assms]
  by (intro metrics_invI) (simp_all add: sched_account_preempt metrics_ok_defs)

lemma metric_step_inv: "metric_step x y \<Longrightarrow> metrics_inv x \<Longrightarrow> metrics_inv y"
proof (induction rule: metric_step.induct)
  case (m_ready p)
  then show ?case by (auto simp: metrics_inv_def)
next
  case (m_wake p)
  then show ?case by (auto simp: metrics_inv_def)
next
  case (m_free st p)
  then show ?case by (simp add: metrics_inv_def)
qed (simp_all add: inv_alloc inv_dispatch inv_tick inv_preempt inv_block inv_clock inv_score)

lemma metric_reach_inv: "metric_reach x \<Longrightarrow> metrics_inv x"
proof (induction rule: metric_reach.induct)
  case (mr_boot p)
  then show ?case by (simp add: metrics_inv_def)
next
  case (mr_step x y)
  then show ?case by (blast intro: metric_step_inv)
qed

end
