(* ===== verification/Adaptive_Props.thy ===== *)
theory Adaptive_Props
  imports Adaptive_Inv
begin

text \<open>
  The properties of the adaptive scheduler's metrics, and a concrete run that each of them applies
  to. \<open>bss_metrics\<close> is an entry of the process table as the loader leaves it: all zero.
\<close>

section \<open>A concrete run\<close>

definition bss_metrics :: pmetrics where
  "bss_metrics =
     \<lparr>cputicks = 0, waitticks = 0, sched_count = 0, switches = 0, creation_tick = 0,
      last_sched_tick = 0, current_burst = 0, last_burst = 0, est_burst = 0, proc_type = 0,
      priority = 0, time_slice = 0, ticks_in_slice = 0, predicted_burst = 0, prediction_error = 0,
      burst_trend = 0, anomaly_score = 0, anomaly_flags = 0, health_status = 0,
      healing_actions = 0, last_heal_tick = 0\<rparr>"

text \<open>A process created at tick 7, dispatched at tick 9, after its first timer tick.\<close>

definition run_created :: pmetrics where "run_created = init_metrics 7 bss_metrics"
definition run_started :: pmetrics where "run_started = dispatch_account 9 run_created"
definition run_ticked :: pmetrics where "run_ticked = snd (tick_account run_started)"

lemma run_started_eq: "run_started = bss_metrics\<lparr>sched_count := 1, creation_tick := 7,
    last_sched_tick := 9, priority := 50, time_slice := 1, predicted_burst := 1\<rparr>"
  by code_simp

lemma run_ticked_eq: "run_ticked = run_started\<lparr>cputicks := 1, current_burst := 1, est_burst := 1\<rparr>"
  by code_simp

lemmas run_defs = run_ticked_eq run_started_eq bss_metrics_def

lemma run_ready: "metric_reach (RUNNABLE, run_created)"
  unfolding run_created_def by (rule mr_step[OF mr_step[OF mr_boot m_alloc] m_ready])

lemma run_running: "metric_reach (RUNNING, run_started)"
  unfolding run_started_def
  by (rule mr_step[OF run_ready m_dispatch])
     (simp add: run_created_def init_metrics_def bss_metrics_def)

lemma run_running_ticked: "metric_reach (RUNNING, run_ticked)"
  unfolding run_ticked_def
  by (rule mr_step[OF run_running m_tick]) (simp add: run_defs BURST_LIMIT_def)

section \<open>Iterated ticks\<close>

text \<open>The metrics after \<open>n\<close> further timer ticks of one dispatch.\<close>

primrec ticks_run :: "nat \<Rightarrow> 'a pmetrics_scheme \<Rightarrow> 'a pmetrics_scheme" where
  "ticks_run 0 p = p"
| "ticks_run (Suc n) p = snd (tick_account (ticks_run n p))"

lemma ticks_run_slice: "time_slice (ticks_run n p) = time_slice p"
  by (induction n) simp_all

lemma ticks_run_in_slice:
  assumes "ticks_in_slice p = 0" and "n < unat (time_slice p)"
  shows "ticks_in_slice (ticks_run n p) = of_nat n"
  using assms(2)
proof (induction n)
  case 0
  then show ?case using assms(1) by simp
next
  case (Suc n)
  then have "ticks_in_slice (ticks_run n p) = of_nat n" by simp
  moreover have "\<not> time_slice p \<le> of_nat n + 1"
  proof -
    have "unat (of_nat (Suc n) :: u32) = Suc n"
      using Suc.prems unsigned_less[where ?'a = nat, of "time_slice p"]
      by (simp add: unat_of_nat del: of_nat_Suc)
    then show ?thesis using Suc.prems by (simp add: word_le_nat_alt add.commute)
  qed
  ultimately show ?case by (simp add: tick_account_fields ticks_run_slice add.commute)
qed

lemma slice_ends:
  assumes "ticks_in_slice p = 0" and "n < unat (time_slice p)"
  shows "fst (tick_account (ticks_run n p)) \<longleftrightarrow> Suc n = unat (time_slice p)"
proof -
  have lim: "Suc n < 2 ^ 32 \<or> Suc n = 2 ^ 32" and nb: "unat (time_slice p) < 2 ^ 32"
    using assms(2) unsigned_less[where ?'a = nat, of "time_slice p"] by auto
  have "unat (of_nat (Suc n) :: u32) = Suc n"
    using assms(2) nb by (simp add: unat_of_nat del: of_nat_Suc)
  then show ?thesis
    using assms ticks_run_in_slice[OF assms]
    by (auto simp: tick_account_fields ticks_run_slice word_le_nat_alt add.commute)
qed

lemma dispatch_slice:
  "time_slice (dispatch_account t p) = calc_time_slice p" "ticks_in_slice (dispatch_account t p) = 0"
  by (simp_all add: dispatch_account_def Let_def) (simp add: calc_time_slice_def)


section \<open>Runs without a voluntary switch\<close>

text \<open>The steps of a process that never blocks: it only computes and is preempted.\<close>

inductive busy_run :: "procstate \<times> 'a pmetrics_scheme \<Rightarrow> procstate \<times> 'a pmetrics_scheme \<Rightarrow> bool" where
  b_refl: "busy_run x x"
| b_step: "busy_run x (st, p) \<Longrightarrow> metric_step (st, p) (st', q) \<Longrightarrow>
    st' = RUNNABLE \<or> st' = RUNNING \<Longrightarrow> st = RUNNABLE \<or> st = RUNNING \<Longrightarrow> busy_run x (st', q)"

lemma heal_keeps_count [simp]:
  "healing_actions (fst (heal_starvation x)) = healing_actions (fst x)"
  "healing_actions (fst (heal_burst x)) = healing_actions (fst x)"
  "healing_actions (fst (heal_thrashing x)) = healing_actions (fst x)"
  by (simp_all add: heal_starvation_def heal_burst_def heal_thrashing_def Let_def split_beta)

lemma heal_relief_count [simp]: "healing_actions (heal_relief t p) = healing_actions p + 1"
  by (simp add: heal_relief_def Let_def)

lemma heal_keeps_healed:
  "snd x \<Longrightarrow> snd (heal_burst x)" "snd x \<Longrightarrow> snd (heal_thrashing x)"
  by (simp_all add: heal_burst_def heal_thrashing_def Let_def split_beta)

lemma heal_starving_count:
  assumes "anomaly_flags p AND ANOMALY_STARVATION \<noteq> 0"
  shows "healing_actions (apply_self_healing t p) = healing_actions p + 1"
proof -
  have "snd (heal_starvation (p, False))" using assms by (simp add: heal_starvation_eq)
  then have "snd (heal_thrashing (heal_burst (heal_starvation (p, False))))"
    by (intro heal_keeps_healed)
  then show ?thesis
    by (simp add: apply_self_healing_def split_beta)
qed

lemma flag_or_starvation: "(f OR 2) AND (2 :: i32) = 2"
  by (rule bit_word_eqI) (auto simp: bit_simps)

lemma mark_starving_flag: "anomaly_flags (mark_starving p) AND ANOMALY_STARVATION = 2"
  by (simp add: mark_starving_def Let_def flag_or_starvation)

lemma clock_heals:
  "healing_actions (clock_account t p) =
     (if 20 \<le> waitticks p + 1 \<and> anomaly_flags p AND ANOMALY_STARVATION = 0
      then healing_actions p + 1 else healing_actions p)"
  by (auto simp: clock_account_eq Let_def heal_starving_count mark_starving_flag)

lemma clock_flag:
  "anomaly_flags (clock_account t p) AND ANOMALY_STARVATION = 0 \<longleftrightarrow>
   anomaly_flags p AND ANOMALY_STARVATION = 0 \<and> \<not> 20 \<le> waitticks p + 1"
  by (auto simp: clock_account_eq Let_def mark_starving_flag)

text \<open>What a busy run keeps: at most one healing, and after it the flag stays up.\<close>

definition healed_once :: "'a pmetrics_scheme \<Rightarrow> 'a pmetrics_scheme \<Rightarrow> bool" where
  "healed_once p q \<longleftrightarrow> healing_actions q = healing_actions p
     \<or> healing_actions q = healing_actions p + 1 \<and> anomaly_flags q AND ANOMALY_STARVATION \<noteq> 0"

lemma healed_once_step:
  assumes "healed_once p q" and "metric_step (st, q) (st', r)" and "metrics_inv (st, q)"
    and "st = RUNNABLE \<or> st = RUNNING" and "st' = RUNNABLE \<or> st' = RUNNING"
  shows "healed_once p r"
  using assms(2)
proof cases
  case (m_preempt t)
  then have "bursts_ok q" using metrics_invD[OF assms(3)] by simp
  then show ?thesis using m_preempt assms(1) by (simp add: sched_account_preempt healed_once_def)
next
  case (m_clock t)
  then show ?thesis using assms(1) by (auto simp: healed_once_def clock_heals clock_flag)
next
  case (m_block t)
  then show ?thesis using assms(5) by (elim disjE) simp_all
qed (use assms(1,4,5) in \<open>simp_all add: healed_once_def dispatch_account_def Let_def\<close>)

lemma busy_run_healed:
  assumes "busy_run x y" and "metrics_inv x"
  shows "metrics_inv y \<and> healed_once (snd x) (snd y)"
  using assms
proof (induction rule: busy_run.induct)
  case (b_refl x)
  then show ?case by (simp add: healed_once_def)
next
  case (b_step x st p st' q)
  then have inv: "metrics_inv (st, p)" and once: "healed_once (snd x) p" by simp_all
  show ?case
    using metric_step_inv[OF b_step.hyps(2) inv] healed_once_step[OF once b_step.hyps(2) inv]
      b_step.hyps(3,4) by simp
qed

section \<open>Properties\<close>

text \<open>
  C1 (invariant): at every point of every life of a process, whatever the interleaving of dispatches,
  ticks, preemptions, sleeps and wakeups, an allocated process has a current burst of at most its
  estimate, the class of its estimate, a score in 0..100 with the health of that score, a priority
  in 1..100, a slice of 1, 2 or 4 ticks, as many dispatches as switches (one more while it runs), no
  waiting time unless it is \<open>RUNNABLE\<close>, and while it runs an unfinished slice.
\<close>

theorem metrics_invariant:
  assumes "metric_reach (st, p)" and "st \<noteq> UNUSED"
  shows "current_burst p \<le> est_burst p \<and> proc_type p = type_of_burst (est_burst p)
    \<and> 0 \<le> sint (anomaly_score p) \<and> sint (anomaly_score p) \<le> 100
    \<and> health_status p = health_of_score (anomaly_score p)
    \<and> 1 \<le> sint (priority p) \<and> sint (priority p) \<le> 100 \<and> time_slice p \<in> {1, 2, 4}
    \<and> sched_count p = switches p + (if st = RUNNING then 1 else 0)
    \<and> (st = RUNNABLE \<or> waitticks p = 0)
    \<and> (if st = RUNNING then ticks_in_slice p < time_slice p else True)"
  using metrics_invD[OF metric_reach_inv[OF assms(1)] assms(2)]
  by (cases "st = RUNNABLE") (simp_all add: metrics_ok_defs)

theorem metrics_invariant_witness:
  "current_burst run_ticked = 1 \<and> current_burst run_ticked \<le> est_burst run_ticked
   \<and> sched_count run_ticked = switches run_ticked + 1"
  using metrics_invariant[OF run_running_ticked] by (simp add: run_defs)

text \<open>
  C10 (functional): below \<open>2\<^sup>2\<^sup>9\<close> ticks no step of the priority formula wraps: the score is the base of
  the class plus two per tick waited minus the estimated burst, clamped to 1..100.
\<close>

theorem dynamic_priority_exact:
  assumes "unat (waitticks p) < 2 ^ 29" and "unat (est_burst p) < 2 ^ 29"
  shows "sint (calc_dynamic_priority p) =
    max 1 (min 100
      ((if proc_type p = PROC_TYPE_INTERACTIVE then 50 else if proc_type p = PROC_TYPE_MIXED then 30
        else 10) + 2 * int (unat (waitticks p)) - int (unat (est_burst p))))"
proof -
  have "unat (waitticks p) < 536870912" "unat (est_burst p) < 536870912"
    using assms by simp_all
  then show ?thesis using calc_dynamic_priority_exact[of p] by (simp add: clamp_def base_score_def)
qed

theorem dynamic_priority_exact_witness:
  "sint (calc_dynamic_priority (run_ticked\<lparr>waitticks := 10\<rparr>)) = 69"
  using dynamic_priority_exact[of "run_ticked\<lparr>waitticks := 10\<rparr>"] by (simp add: run_defs)

text \<open>
  C8 (functional): a dispatched process is told to yield at exactly its last tick: of the ticks of its
  slice, the one that ends it is tick number \<open>calc_time_slice\<close>, although the ticks in between may
  reclassify the process.
\<close>

theorem slice_is_exact:
  assumes "n < unat (calc_time_slice p)"
  shows "fst (tick_account (ticks_run n (dispatch_account t p))) \<longleftrightarrow> Suc n = unat (calc_time_slice p)"
  using slice_ends[of "dispatch_account t p" n] assms by (simp add: dispatch_slice)

theorem slice_is_exact_witness:
  "\<not> fst (tick_account (ticks_run 2 (dispatch_account 0 (bss_metrics\<lparr>proc_type := 1\<rparr>))))
   \<and> fst (tick_account (ticks_run 3 (dispatch_account 0 (bss_metrics\<lparr>proc_type := 1\<rparr>))))"
  using slice_is_exact[of 2 "bss_metrics\<lparr>proc_type := 1\<rparr>" 0]
    slice_is_exact[of 3 "bss_metrics\<lparr>proc_type := 1\<rparr>" 0]
  by (simp add: calc_time_slice_def)

text \<open>
  C25 (safety): the branch of \<^verbatim>\<open>sched()\<close> that re-estimates a preempted process is never taken: the
  timer has already raised the estimate to the burst, so preemption only counts the switch.
\<close>

theorem preempt_only_counts:
  assumes "metric_reach (RUNNING, p)"
  shows "sched_account t RUNNABLE p = p\<lparr>switches := switches p + 1\<rparr>"
  using metrics_invD(1)[OF metric_reach_inv[OF assms]] by (simp add: sched_account_preempt)

theorem preempt_only_counts_witness:
  "sched_account 10 RUNNABLE run_ticked = run_ticked\<lparr>switches := switches run_ticked + 1\<rparr>"
  by (rule preempt_only_counts[OF run_running_ticked])

text \<open>
  C26 (bounds): the trend of a reachable process is never positive and its forecast never exceeds its
  estimate (or 1): the trend term never predicts that bursts grow.
\<close>

theorem forecast_never_grows:
  assumes "metric_reach (st, p)" and "st \<noteq> UNUSED"
  shows "sint (burst_trend p) \<le> 0 \<and> unat (predicted_burst p) \<le> max 1 (unat (est_burst p))"
  using metrics_invD[OF metric_reach_inv[OF assms(1)] assms(2)]
  by (simp add: trend_ok_def forecast_ok_def)

theorem forecast_never_grows_witness:
  "sint (burst_trend run_ticked) \<le> 0 \<and> unat (predicted_burst run_ticked) \<le> 1"
  using forecast_never_grows[OF run_running_ticked] by (simp add: run_defs)



text \<open>
  C24 (equivalence): healing a starving process does not change what the scheduler does with it: the
  score computed by the next scan and the slice given by the next dispatch are those of the same
  process with only its waiting time advanced.
\<close>

theorem healing_does_not_schedule:
  "calc_dynamic_priority (clock_account t p) =
     calc_dynamic_priority (p\<lparr>waitticks := waitticks p + 1\<rparr>)
   \<and> time_slice (dispatch_account u (clock_account t p)) = calc_time_slice p
   \<and> priority ((clock_account t p)\<lparr>priority := calc_dynamic_priority (clock_account t p)\<rparr>) =
     calc_dynamic_priority (p\<lparr>waitticks := waitticks p + 1\<rparr>)"
proof -
  have "calc_dynamic_priority (clock_account t p) =
      calc_dynamic_priority (p\<lparr>waitticks := waitticks p + 1\<rparr>)"
    by (rule calc_dynamic_priority_cong) (simp_all add: clock_account_eq Let_def)
  moreover have "calc_time_slice (clock_account t p) = calc_time_slice p"
    by (rule calc_time_slice_cong) (simp add: clock_account_eq Let_def)
  ultimately show ?thesis by (simp add: dispatch_slice)
qed

text \<open>
  C29 (bounds): a process that never blocks is healed at most once: along any run of dispatches, ticks,
  preemptions, clock ticks and scans its healing counter grows by at most one, because the
  starvation flag that a heal leaves behind is cleared only when the process blocks.
\<close>

theorem busy_healed_at_most_once:
  assumes "metric_reach (RUNNABLE, p)" and "busy_run (RUNNABLE, p) (st, q)"
  shows "healing_actions q = healing_actions p \<or> healing_actions q = healing_actions p + 1"
  using busy_run_healed[OF assms(2) metric_reach_inv[OF assms(1)]]
  by (auto simp: healed_once_def)

theorem busy_healed_at_most_once_witness:
  "healing_actions (clock_account 10 run_created) = healing_actions run_created
   \<or> healing_actions (clock_account 10 run_created) = healing_actions run_created + 1"
  by (rule busy_healed_at_most_once[OF run_ready b_step[OF b_refl m_clock]]) simp_all

end
