(* ===== verification/Pages.thy ===== *)
theory Pages
  imports Params CMem
begin

text \<open>
  Arithmetic of pages and page-table entries: rounding, alignment, the byte range of a page, the
  conversion between physical addresses and entries, and the three index fields of an address.
\<close>

section \<open>Rounding and alignment\<close>

definition aligned :: "u64 \<Rightarrow> bool" where
  "aligned a \<longleftrightarrow> a mod PGSIZE = 0"

lemma aligned_unat: "aligned a \<longleftrightarrow> unat a mod 4096 = 0"
proof -
  have "unat (a mod PGSIZE) = unat a mod 4096" by (simp add: unat_mod)
  then show ?thesis unfolding aligned_def by (metis unat_0_iff)
qed

lemma unat_and_page_mask: "unat (a AND 4095 :: u64) = unat a mod 4096"
proof -
  have "a AND 4095 = take_bit 12 a"
    by (simp add: take_bit_eq_mask mask_eq_exp_minus_1)
  then show ?thesis by (simp add: unat_mod take_bit_eq_mod)
qed

lemma and_not_add_and: "(a AND NOT m) + (a AND m) = (a :: u64)"
proof -
  have "(a AND NOT m) AND (a AND m) = 0"
    by (rule bit_word_eqI) (auto simp: bit_and_iff bit_not_iff)
  then have "(a AND NOT m) + (a AND m) = (a AND NOT m) OR (a AND m)"
    by (rule disjunctive_add_eq_or)
  also have "\<dots> = a"
    by (rule bit_word_eqI) (auto simp: bit_and_iff bit_or_iff bit_not_iff)
  finally show ?thesis .
qed

lemma PGROUNDDOWN_sub: "PGROUNDDOWN a = a - (a AND 4095)"
  using and_not_add_and[of a 4095] by (simp add: PGROUNDDOWN_def algebra_simps)

lemma unat_PGROUNDDOWN: "unat (PGROUNDDOWN a) = unat a - unat a mod 4096"
proof -
  have "a AND 4095 \<le> a" by (simp add: word_and_le2)
  then have "unat (a - (a AND 4095)) = unat a - unat (a AND 4095)" by (rule unat_sub)
  then show ?thesis by (simp add: PGROUNDDOWN_sub unat_and_page_mask)
qed

lemma aligned_PGROUNDDOWN [simp]: "aligned (PGROUNDDOWN a)"
  by (simp add: aligned_unat unat_PGROUNDDOWN minus_mod_eq_mult_div)

lemma PGROUNDDOWN_le: "PGROUNDDOWN a \<le> a"
  by (simp add: word_le_nat_alt unat_PGROUNDDOWN)

lemma PGROUNDDOWN_aligned: "aligned a \<Longrightarrow> PGROUNDDOWN a = a"
  by (simp add: word_unat_eq_iff unat_PGROUNDDOWN aligned_unat)

lemma PGROUNDUP_DOWN: "PGROUNDUP a = PGROUNDDOWN (a + 4095)"
  by (simp add: PGROUNDUP_def PGROUNDDOWN_def add.commute)

lemma aligned_PGROUNDUP [simp]: "aligned (PGROUNDUP a)"
  by (simp add: PGROUNDUP_DOWN)

lemma unat_PGROUNDUP:
  "unat a + 4095 < 2 ^ 64 \<Longrightarrow> unat (PGROUNDUP a) = (unat a + 4095) div 4096 * 4096"
proof -
  assume "unat a + 4095 < 2 ^ 64"
  then have "unat (a + 4095) = unat a + 4095" by (simp add: unat_word_ariths)
  then show ?thesis by (simp add: PGROUNDUP_DOWN unat_PGROUNDDOWN minus_mod_eq_div_mult)
qed

lemma PGROUNDUP_aligned:
  assumes "aligned a" and "unat a + 4095 < 2 ^ 64"
  shows "PGROUNDUP a = a"
proof -
  from assms(1) obtain k where k: "unat a = 4096 * k" by (auto simp: aligned_unat)
  then have "(unat a + 4095) div 4096 * 4096 = unat a" by simp
  then show ?thesis using unat_PGROUNDUP[OF assms(2)] by (simp add: word_unat_eq_iff)
qed

lemma PGROUNDUP_ge: "unat a + 4095 < 2 ^ 64 \<Longrightarrow> a \<le> PGROUNDUP a"
  by (simp add: word_le_nat_alt unat_PGROUNDUP)

lemma aligned_add: "aligned a \<Longrightarrow> aligned b \<Longrightarrow> unat a + unat b < 2 ^ 64 \<Longrightarrow> aligned (a + b)"
  by (auto simp: aligned_unat unat_word_ariths mod_add_eq)

section \<open>The bytes of a page\<close>

text \<open>\<open>in_page p a\<close>: the address \<open>a\<close> lies in the page that starts at \<open>p\<close>.\<close>

definition in_page :: "u64 \<Rightarrow> u64 \<Rightarrow> bool" where
  "in_page p a \<longleftrightarrow> in_range p 4096 a"

lemma in_page_iff: "aligned p \<Longrightarrow> in_page p a \<longleftrightarrow> PGROUNDDOWN a = p"
proof -
  assume "aligned p"
  then obtain k where k: "unat p = 4096 * k" by (auto simp: aligned_unat)
  show ?thesis
  proof
    assume "in_page p a"
    then obtain j where j: "j < 4096" "a = p + of_nat j"
      by (auto simp: in_page_def in_range_iff)
    have "unat p + j < 2 ^ 64" using k j(1) unat_u64_less[of p] by simp
    then have "unat a = 4096 * k + j" using j(2) k by (simp add: unat_add_offset)
    then show "PGROUNDDOWN a = p" using k j(1) by (simp add: word_unat_eq_iff unat_PGROUNDDOWN)
  next
    assume "PGROUNDDOWN a = p"
    then have "a - p = a AND 4095" by (simp add: PGROUNDDOWN_sub algebra_simps)
    then show "in_page p a" by (simp add: in_page_def in_range_def unat_and_page_mask)
  qed
qed

lemma page_start [simp]: "in_page p p"
  by (simp add: in_page_def in_range_def)

lemma pages_disjoint: "aligned p \<Longrightarrow> aligned q \<Longrightarrow> p \<noteq> q \<Longrightarrow> in_page p a \<Longrightarrow> \<not> in_page q a"
  by (simp add: in_page_iff)

text \<open>An eight-byte cell at an eight-aligned offset stays inside its page.\<close>

lemma cell_in_page:
  assumes "aligned p" and "i < 512" and "in_range (p + of_nat (8 * i)) 8 a"
  shows "in_page p a"
proof -
  obtain j where j: "j < 8" "a = p + of_nat (8 * i) + of_nat j"
    using assms(3) by (auto simp: in_range_iff)
  then have "a = p + of_nat (8 * i + j)" "8 * i + j < 4096"
    using assms(2) by (simp_all add: add.assoc)
  then show ?thesis unfolding in_page_def in_range_iff[of 4096, simplified] by blast
qed

lemma cells_disjoint:
  assumes "i < 512" "j < 512" "i \<noteq> j"
  shows "disj_range (p + of_nat (8 * i)) 8 (p + of_nat (8 * j)) 8"
proof -
  have "8 * i + x = 8 * j + y" if "x < 8" "y < 8" "p + of_nat (8 * i) + of_nat x = p + of_nat (8 * j) + of_nat y"
    for x y
  proof -
    from that(3) have "of_nat (8 * i + x) = (of_nat (8 * j + y) :: u64)" by (simp add: add.assoc)
    moreover have "8 * i + x < 2 ^ 64" "8 * j + y < 2 ^ 64" using that(1,2) assms(1,2) by simp_all
    ultimately show ?thesis by (metis unat_of_nat_u64)
  qed
  note same = this
  show ?thesis unfolding disj_range_def
  proof (intro allI notI)
    fix a assume "in_range (p + of_nat (8 * i)) 8 a \<and> in_range (p + of_nat (8 * j)) 8 a"
    then obtain x y where "x < 8" "y < 8" "a = p + of_nat (8 * i) + of_nat x"
      "a = p + of_nat (8 * j) + of_nat y" by (auto simp: in_range_iff)
    then have "8 * i + x = 8 * j + y" using same by metis
    with \<open>x < 8\<close> \<open>y < 8\<close> assms(3) show False by presburger
  qed
qed

end
