(* ===== verification/Spinlock.thy ===== *)
theory Spinlock
  imports Params
begin

text \<open>
  Spin locks and the nesting of interrupt-off sections: \<^verbatim>\<open>kernel/spinlock.c\<close>,
  \<^verbatim>\<open>kernel/spinlock.h\<close> and the per-CPU record of \<^verbatim>\<open>kernel/proc.h\<close>.

  Every operation takes the hart that runs it (\<^verbatim>\<open>r_tp()\<close>, the index into \<^verbatim>\<open>cpus\<close>) and the
  state. Waiting for a lock that another hart holds is the result \<^const>\<open>Spin\<close>: the call has not
  returned, and it is retried when that hart has released the lock.
\<close>

section \<open>State\<close>

text \<open>The spin locks of the kernel, named after the variables that hold them.\<close>

datatype lockid =
  PidLock | WaitLock | TicksLock | KmemLock | BcacheLock | LogLock | ItableLock | FtableLock
  | ConsLock | PrLock | TxLock | VdiskLock | PLock nat | PipeLock u64 | SleepLk nat

record spinlock =
  lk_name :: string
  locked :: u32
  lk_cpu :: "nat option"

text \<open>\<^verbatim>\<open>struct cpu\<close>; the process is its index in the table. The saved context is not modelled.\<close>

record cpu =
  c_proc :: "nat option"
  noff :: int
  intena :: bool

text \<open>\<open>sie h\<close> is the bit \<^verbatim>\<open>SSTATUS_SIE\<close> of hart \<open>h\<close>: device interrupts are enabled.\<close>

record hwst =
  cpus :: "nat \<Rightarrow> cpu"
  sie :: "nat \<Rightarrow> bool"
  locks :: "lockid \<Rightarrow> spinlock"

section \<open>Operations\<close>

definition initlock :: "lockid \<Rightarrow> string \<Rightarrow> 'a hwst_scheme \<Rightarrow> 'a hwst_scheme" where
  "initlock l name s =
     s\<lparr>locks := (locks s)(l := \<lparr>lk_name = name, locked = 0, lk_cpu = None\<rparr>)\<rparr>"

definition intr_on :: "nat \<Rightarrow> 'a hwst_scheme \<Rightarrow> 'a hwst_scheme" where
  "intr_on h s = s\<lparr>sie := (sie s)(h := True)\<rparr>"

definition intr_off :: "nat \<Rightarrow> 'a hwst_scheme \<Rightarrow> 'a hwst_scheme" where
  "intr_off h s = s\<lparr>sie := (sie s)(h := False)\<rparr>"

definition intr_get :: "nat \<Rightarrow> 'a hwst_scheme \<Rightarrow> bool" where
  "intr_get h s = sie s h"

definition holding :: "nat \<Rightarrow> lockid \<Rightarrow> 'a hwst_scheme \<Rightarrow> bool" where
  "holding h l s \<longleftrightarrow> locked (locks s l) \<noteq> 0 \<and> lk_cpu (locks s l) = Some h"

definition push_off :: "nat \<Rightarrow> 'a hwst_scheme \<Rightarrow> 'a hwst_scheme" where
  "push_off h s =
     (let old = sie s h;
          s = s\<lparr>sie := (sie s)(h := False)\<rparr>;
          c = cpus s h;
          c = (if noff c = 0 then c\<lparr>intena := old\<rparr> else c)
      in s\<lparr>cpus := (cpus s)(h := c\<lparr>noff := noff c + 1\<rparr>)\<rparr>)"

definition pop_off :: "nat \<Rightarrow> 'a hwst_scheme \<Rightarrow> 'a hwst_scheme res" where
  "pop_off h s =
     (if intr_get h s then Panic ''pop_off - interruptible''
      else if noff (cpus s h) < 1 then Panic ''pop_off''
      else let c = (cpus s h)\<lparr>noff := noff (cpus s h) - 1\<rparr>;
               s = s\<lparr>cpus := (cpus s)(h := c)\<rparr>
           in Ok (if noff c = 0 \<and> intena c then intr_on h s else s))"

definition acquire :: "nat \<Rightarrow> lockid \<Rightarrow> 'a hwst_scheme \<Rightarrow> 'a hwst_scheme res" where
  "acquire h l s =
     (let s = push_off h s
      in if holding h l s then Panic ''acquire''
         else if locked (locks s l) \<noteq> 0 then Spin
         else Ok (s\<lparr>locks := (locks s)(l := (locks s l)\<lparr>locked := 1, lk_cpu := Some h\<rparr>)\<rparr>))"

definition release :: "nat \<Rightarrow> lockid \<Rightarrow> 'a hwst_scheme \<Rightarrow> 'a hwst_scheme res" where
  "release h l s =
     (if \<not> holding h l s then Panic ''release''
      else let s = s\<lparr>locks := (locks s)(l := (locks s l)\<lparr>lk_cpu := None\<rparr>)\<rparr>;
               s = s\<lparr>locks := (locks s)(l := (locks s l)\<lparr>locked := 0\<rparr>)\<rparr>
           in pop_off h s)"

text \<open>\<^verbatim>\<open>myproc()\<close> reads \<^verbatim>\<open>c->proc\<close> with interrupts off, so that the read is of one CPU.\<close>

definition myproc :: "nat \<Rightarrow> 'a hwst_scheme \<Rightarrow> (nat option \<times> 'a hwst_scheme) res" where
  "myproc h s =
     (let s = push_off h s; p = c_proc (cpus s h) in rbind (pop_off h s) (\<lambda>s. Ok (p, s)))"

text \<open>A loop body that runs between one \<open>acquire\<close> and one \<open>release\<close>.\<close>

definition with_lock ::
  "nat \<Rightarrow> lockid \<Rightarrow> ('a hwst_scheme \<Rightarrow> 'x \<times> 'a hwst_scheme) \<Rightarrow> 'a hwst_scheme \<Rightarrow>
   ('x \<times> 'a hwst_scheme) res" where
  "with_lock h l f s =
     rbind (acquire h l s) (\<lambda>s. case f s of (x, s) \<Rightarrow> rbind (release h l s) (\<lambda>s. Ok (x, s)))"

section \<open>Laws\<close>

text \<open>\<open>hart_ok h s\<close>: the nesting depth is a count, and interrupts are off inside a section.\<close>

definition hart_ok :: "nat \<Rightarrow> 'a hwst_scheme \<Rightarrow> bool" where
  "hart_ok h s \<longleftrightarrow> 0 \<le> noff (cpus s h) \<and> (0 < noff (cpus s h) \<longrightarrow> \<not> sie s h)"

definition lock_free :: "lockid \<Rightarrow> 'a hwst_scheme \<Rightarrow> bool" where
  "lock_free l s \<longleftrightarrow> locked (locks s l) = 0 \<and> lk_cpu (locks s l) = None"

text \<open>All that a matched pair of \<open>push_off\<close> and \<open>pop_off\<close> leaves behind: outside every section it
  has recorded the interrupt state in \<open>intena\<close>.\<close>

definition touch :: "nat \<Rightarrow> 'a hwst_scheme \<Rightarrow> 'a hwst_scheme" where
  "touch h s =
     (if noff (cpus s h) = 0
      then s\<lparr>cpus := (cpus s)(h := (cpus s h)\<lparr>intena := sie s h\<rparr>)\<rparr> else s)"

lemma touch_nested [simp]: "noff (cpus s h) \<noteq> 0 \<Longrightarrow> touch h s = s"
  by (simp add: touch_def)

lemma touch_fields [simp]:
  "sie (touch h s) = sie s" "locks (touch h s) = locks s"
  "noff (cpus (touch h s) g) = noff (cpus s g)" "c_proc (cpus (touch h s) g) = c_proc (cpus s g)"
  by (auto simp: touch_def)

lemma touch_touch [simp]: "touch h (touch h s) = touch h s"
  by (auto simp: touch_def)

lemma hart_ok_touch [simp]: "hart_ok g (touch h s) = hart_ok g s"
  by (simp add: hart_ok_def)

lemma lock_free_touch [simp]: "lock_free l (touch h s) = lock_free l s"
  by (simp add: lock_free_def)

lemma hart_ok_push_off: "hart_ok h s \<Longrightarrow> hart_ok h (push_off h s)"
  by (auto simp: hart_ok_def push_off_def Let_def)

lemma pop_push_off:
  assumes "hart_ok h s"
  shows "pop_off h (push_off h s) = Ok (touch h s)"
proof (cases "noff (cpus s h) = 0")
  case True
  then show ?thesis
    by (cases "cpus s h"; cases "sie s h")
       (auto simp: pop_off_def push_off_def touch_def intr_get_def intr_on_def Let_def
             fun_upd_idem)
next
  case False
  with assms have "\<not> sie s h" "0 < noff (cpus s h)" by (auto simp: hart_ok_def)
  then show ?thesis
    by (auto simp: pop_off_def push_off_def intr_get_def intr_on_def Let_def fun_upd_idem)
qed

lemma myproc_Ok: "hart_ok h s \<Longrightarrow> myproc h s = Ok (c_proc (cpus s h), touch h s)"
  by (simp add: myproc_def pop_push_off Let_def) (simp add: push_off_def Let_def)


text \<open>The state just after a lock that was free has been acquired.\<close>

definition acquired :: "nat \<Rightarrow> lockid \<Rightarrow> 'a hwst_scheme \<Rightarrow> 'a hwst_scheme" where
  "acquired h l s =
     (push_off h s)\<lparr>locks := (locks s)(l := (locks s l)\<lparr>locked := 1, lk_cpu := Some h\<rparr>)\<rparr>"

lemma push_off_fields [simp]:
  "locks (push_off h s) = locks s"
  "noff (cpus (push_off h s) g) = (if g = h then noff (cpus s h) + 1 else noff (cpus s g))"
  "c_proc (cpus (push_off h s) g) = c_proc (cpus s g)"
  "sie (push_off h s) = (sie s)(h := False)"
  by (auto simp: push_off_def Let_def)

lemma acquire_free: "lock_free l s \<Longrightarrow> acquire h l s = Ok (acquired h l s)"
  by (simp add: acquire_def acquired_def lock_free_def holding_def Let_def)

lemma acquire_OkD: "acquire h l s = Ok s' \<Longrightarrow> locked (locks s l) = 0 \<and> s' = acquired h l s"
  by (auto simp: acquire_def acquired_def holding_def Let_def split: if_splits)

lemma acquire_held: "holding h l s \<Longrightarrow> acquire h l s = Panic ''acquire''"
  by (simp add: acquire_def holding_def Let_def)

lemma acquire_contended:
  "locked (locks s l) \<noteq> 0 \<Longrightarrow> lk_cpu (locks s l) \<noteq> Some h \<Longrightarrow> acquire h l s = Spin"
  by (simp add: acquire_def holding_def Let_def)

lemma acquired_fields [simp]:
  "locks (acquired h l s) = (locks s)(l := (locks s l)\<lparr>locked := 1, lk_cpu := Some h\<rparr>)"
  "noff (cpus (acquired h l s) g) = (if g = h then noff (cpus s h) + 1 else noff (cpus s g))"
  "c_proc (cpus (acquired h l s) g) = c_proc (cpus s g)"
  "sie (acquired h l s) = (sie s)(h := False)"
  by (auto simp: acquired_def)

lemma holding_acquired [simp]: "holding h l (acquired h l s)"
  by (simp add: holding_def)

lemma pop_off_locks: "pop_off h (s\<lparr>locks := L\<rparr>) = rbind (pop_off h s) (\<lambda>s. Ok (s\<lparr>locks := L\<rparr>))"
  by (simp add: pop_off_def intr_get_def intr_on_def Let_def)

lemma release_acquired:
  assumes "hart_ok h s" and "lock_free l s"
  shows "release h l (acquired h l s) = Ok (touch h s)"
proof -
  have free: "(locks s l)\<lparr>lk_cpu := None, locked := 0\<rparr> = locks s l"
    using assms(2) by (cases "locks s l") (simp add: lock_free_def)
  have "release h l (acquired h l s) = pop_off h ((push_off h s)\<lparr>locks := locks s\<rparr>)"
    using free by (simp add: release_def Let_def) (simp add: acquired_def)
  also have "\<dots> = Ok ((touch h s)\<lparr>locks := locks s\<rparr>)"
    by (simp only: pop_off_locks pop_push_off[OF assms(1)] rbind.simps)
  also have "\<dots> = Ok (touch h s)" by (simp add: touch_def)
  finally show ?thesis .
qed

text \<open>The operations of this theory change nothing but the CPUs, the interrupt bits and the locks.\<close>

lemma push_off_more [simp]: "hwst.more (push_off h s) = hwst.more s"
  by (simp add: push_off_def Let_def)

lemma pop_off_more: "pop_off h s = Ok s' \<Longrightarrow> hwst.more s' = hwst.more s"
  by (auto simp: pop_off_def intr_on_def Let_def split: if_splits)

lemma acquire_more: "acquire h l s = Ok s' \<Longrightarrow> hwst.more s' = hwst.more s"
  by (auto simp: acquire_def Let_def split: if_splits)

lemma release_more: "release h l s = Ok s' \<Longrightarrow> hwst.more s' = hwst.more s"
  by (auto simp: release_def Let_def dest!: pop_off_more split: if_splits)

lemma myproc_more: "myproc h s = Ok (mp, s') \<Longrightarrow> hwst.more s' = hwst.more s"
  by (auto simp: myproc_def Let_def dest!: pop_off_more)

section \<open>Critical sections that leave the lock state alone\<close>

text \<open>
  The interface of a loop body that runs under a lock: it neither reads nor writes the CPUs, the
  interrupt bits and the locks. The section is then one atomic step, and a loop over a table with
  one lock per entry is a fold of the bodies.
\<close>

locale lock_frame =
  fixes body :: "'i \<Rightarrow> 'x \<Rightarrow> 'a hwst_scheme \<Rightarrow> 'x \<times> 'a hwst_scheme"
  assumes body_cpus: "body i x (s\<lparr>cpus := v\<rparr>) = apsnd (\<lambda>s. s\<lparr>cpus := v\<rparr>) (body i x s)"
    and body_sie: "body i x (s\<lparr>sie := w\<rparr>) = apsnd (\<lambda>s. s\<lparr>sie := w\<rparr>) (body i x s)"
    and body_locks: "body i x (s\<lparr>locks := L\<rparr>) = apsnd (\<lambda>s. s\<lparr>locks := L\<rparr>) (body i x s)"
begin

lemma body_keeps:
  shows body_keeps_cpus: "cpus (snd (body i x s)) = cpus s"
    and body_keeps_sie: "sie (snd (body i x s)) = sie s"
    and body_keeps_locks: "locks (snd (body i x s)) = locks s"
proof -
  have "cpus (snd (body i x s)) = cpus (snd (apsnd (\<lambda>t. t\<lparr>cpus := cpus s\<rparr>) (body i x s)))"
    using body_cpus[where i = i and x = x and s = s and v = "cpus s"] by simp
  then show "cpus (snd (body i x s)) = cpus s" by simp
  have "sie (snd (body i x s)) = sie (snd (apsnd (\<lambda>t. t\<lparr>sie := sie s\<rparr>) (body i x s)))"
    using body_sie[where i = i and x = x and s = s and w = "sie s"] by simp
  then show "sie (snd (body i x s)) = sie s" by simp
  have "locks (snd (body i x s)) = locks (snd (apsnd (\<lambda>t. t\<lparr>locks := locks s\<rparr>) (body i x s)))"
    using body_locks[where i = i and x = x and s = s and L = "locks s"] by simp
  then show "locks (snd (body i x s)) = locks s" by simp
qed

lemma body_push_off: "body i x (push_off h s) = apsnd (push_off h) (body i x s)"
proof -
  obtain y t where t: "body i x s = (y, t)" by fastforce
  with body_keeps[of i x s] have "cpus t = cpus s" "sie t = sie s" by simp_all
  with t show ?thesis by (simp add: push_off_def Let_def body_cpus body_sie)
qed

lemma body_acquired: "body i x (acquired h l s) = apsnd (acquired h l) (body i x s)"
proof -
  obtain y t where t: "body i x s = (y, t)" by fastforce
  with body_keeps_locks[of i x s] have "locks t = locks s" by simp
  with t show ?thesis by (simp add: acquired_def body_locks body_push_off)
qed

lemma body_touch: "body i x (touch h s) = apsnd (touch h) (body i x s)"
proof -
  obtain y t where t: "body i x s = (y, t)" by fastforce
  with body_keeps[of i x s] have "cpus t = cpus s" "sie t = sie s" by simp_all
  with t show ?thesis by (simp add: touch_def body_cpus)
qed

lemma body_hart_ok [simp]: "hart_ok h (snd (body i x s)) = hart_ok h s"
  by (simp add: hart_ok_def body_keeps)

lemma body_lock_free [simp]: "lock_free l (snd (body i x s)) = lock_free l s"
  by (simp add: lock_free_def body_keeps)

text \<open>A critical section whose lock is free runs the body and nothing else.\<close>

lemma section_atomic:
  assumes "hart_ok h s" and "lock_free l s"
  shows "with_lock h l (body i x) s = Ok (body i x (touch h s))"
proof -
  obtain y t where t: "body i x s = (y, t)" by fastforce
  then have ok: "hart_ok h t" "lock_free l t"
    using body_hart_ok[of h i x s] body_lock_free[of l i x s] assms by simp_all
  show ?thesis
    using t by (simp add: with_lock_def acquire_free[OF assms(2)] body_acquired body_touch
        release_acquired[OF ok])
qed

text \<open>The body run on every entry, in order, without the locks.\<close>

definition scan :: "'i list \<Rightarrow> 'x \<times> 'a hwst_scheme \<Rightarrow> 'x \<times> 'a hwst_scheme" where
  "scan is xs = fold (\<lambda>i (x, s). body i x s) is xs"

lemma scan_simps: "scan [] xs = xs" "scan (i # is) (x, s) = scan is (body i x s)"
  by (simp_all add: scan_def)

lemma scan_atomic:
  assumes "hart_ok h s" and "\<And>i. i \<in> set is \<Longrightarrow> lock_free (L i) s" and "is \<noteq> []"
  shows "rfold (\<lambda>i (x, s). with_lock h (L i) (body i x) s) is (x, s) = Ok (scan is (x, touch h s))"
proof -
  let ?f = "\<lambda>i (x, s). with_lock h (L i) (body i x) s"
  let ?g = "\<lambda>i (x, s). body i x (touch h s)"
  let ?I = "\<lambda>(x :: 'x, s). hart_ok h s \<and> (\<forall>i \<in> set is. lock_free (L i) s)"
  have "rfold ?f is (x, s) = Ok (fold ?g is (x, s)) \<and> ?I (fold ?g is (x, s))"
  proof (rule rfold_pure)
    show "?I (x, s)" using assms by simp
    fix i and xs :: "'x \<times> 'a hwst_scheme"
    assume i: "i \<in> set is" and I: "?I xs"
    obtain y t where xs: "xs = (y, t)" by fastforce
    have "?g i xs = apsnd (touch h) (body i y t)" using xs by (simp add: body_touch)
    then have "?I (?g i xs)" using I xs by (simp add: split_beta)
    with i I xs show "?f i xs = Ok (?g i xs) \<and> ?I (?g i xs)" by (simp add: section_atomic)
  qed
  moreover have "fold ?g is (x, s) = scan is (x, touch h s)"
    using \<open>is \<noteq> []\<close>
  proof (induction "is" arbitrary: x s)
    case Nil
    then show ?case by simp
  next
    case (Cons i "is")
    obtain y t where t: "body i x (touch h s) = (y, t)" by fastforce
    then have "touch h t = t"
      using body_touch[of i x h "touch h s"] by simp
    with Cons t show ?case by (cases "is = []") (simp_all add: scan_def)
  qed
  ultimately show ?thesis by simp
qed

end

end
