(* ===== verification/Kalloc.thy ===== *)
theory Kalloc
  imports Pages Spinlock
begin

text \<open>
  The physical page allocator, \<^verbatim>\<open>kernel/kalloc.c\<close>. A free page holds in its first eight bytes the
  address of the next free page, so the free list lives in the memory that it manages.

  \<open>kend\<close> is the linker's symbol \<^verbatim>\<open>end\<close>, the first address after the kernel; no operation
  changes it.
\<close>

section \<open>State and operations\<close>

record memst = hwst +
  mem :: memory
  freelist :: u64
  kend :: u64

definition kfree :: "nat \<Rightarrow> u64 \<Rightarrow> 'a memst_scheme \<Rightarrow> 'a memst_scheme res" where
  "kfree h pa s =
     (if pa mod PGSIZE \<noteq> 0 \<or> pa < kend s \<or> PHYSTOP \<le> pa then Panic ''kfree''
      else let s = s\<lparr>mem := memset pa 1 4096 (mem s)\<rparr>
           in rbind (acquire h KmemLock s) (\<lambda>s.
                let s = s\<lparr>mem := store64 pa (freelist s) (mem s)\<rparr>;
                    s = s\<lparr>freelist := pa\<rparr>
                in release h KmemLock s))"

definition kalloc :: "nat \<Rightarrow> 'a memst_scheme \<Rightarrow> (u64 \<times> 'a memst_scheme) res" where
  "kalloc h s =
     rbind (acquire h KmemLock s) (\<lambda>s.
       let r = freelist s;
           s = (if r \<noteq> 0 then s\<lparr>freelist := load64 (mem s) r\<rparr> else s)
       in rbind (release h KmemLock s) (\<lambda>s.
            Ok (r, if r \<noteq> 0 then s\<lparr>mem := memset r 5 4096 (mem s)\<rparr> else s)))"

text \<open>A freed page lies below \<open>PHYSTOP\<close>, so the address of the loop does not wrap.\<close>

lemma kfree_OkD: "kfree h pa s = Ok s' \<Longrightarrow> aligned pa \<and> kend s \<le> pa \<and> pa < PHYSTOP"
  by (auto simp: kfree_def aligned_def split: if_splits)

lemma next_page_less: "pa < PHYSTOP \<Longrightarrow> unat (pa + PGSIZE) = unat pa + 4096"
  by (simp add: word_less_nat_alt unat_word_ariths)

function freerange_loop :: "nat \<Rightarrow> u64 \<Rightarrow> u64 \<Rightarrow> 'a memst_scheme \<Rightarrow> 'a memst_scheme res" where
  "freerange_loop h p pa_end s =
     (if p + PGSIZE \<le> pa_end
      then rbind (kfree h p s) (\<lambda>s. freerange_loop h (p + PGSIZE) pa_end s)
      else Ok s)"
  by pat_completeness auto
termination
  by (relation "measure (\<lambda>(h, p, pa_end, s). 2 ^ 64 - unat p)")
     (auto dest!: kfree_OkD simp: next_page_less word_less_nat_alt)

declare freerange_loop.simps [simp del]

definition freerange :: "nat \<Rightarrow> u64 \<Rightarrow> u64 \<Rightarrow> 'a memst_scheme \<Rightarrow> 'a memst_scheme res" where
  "freerange h pa_start pa_end s = freerange_loop h (PGROUNDUP pa_start) pa_end s"

definition kinit :: "nat \<Rightarrow> 'a memst_scheme \<Rightarrow> 'a memst_scheme res" where
  "kinit h s = (let s = initlock KmemLock ''kmem'' s in freerange h (kend s) PHYSTOP s)"

section \<open>The free list as a sequence of pages\<close>

text \<open>\<open>flist m r ps\<close>: following the links from \<open>r\<close> visits exactly the pages \<open>ps\<close>, in order.\<close>

primrec flist :: "memory \<Rightarrow> u64 \<Rightarrow> u64 list \<Rightarrow> bool" where
  "flist m r [] \<longleftrightarrow> r = 0"
| "flist m r (p # ps) \<longleftrightarrow> r = p \<and> p \<noteq> 0 \<and> flist m (load64 m p) ps"

definition phys_page :: "'a memst_scheme \<Rightarrow> u64 \<Rightarrow> bool" where
  "phys_page s p \<longleftrightarrow> aligned p \<and> p \<noteq> 0 \<and> kend s \<le> p \<and> p < PHYSTOP"

text \<open>The allocator's state is well formed, with the free pages \<open>ps\<close>.\<close>

definition kmem_ok :: "u64 list \<Rightarrow> 'a memst_scheme \<Rightarrow> bool" where
  "kmem_ok ps s \<longleftrightarrow> flist (mem s) (freelist s) ps \<and> distinct ps \<and> (\<forall>p \<in> set ps. phys_page s p)"

lemma first_cell_in_page: "aligned p \<Longrightarrow> in_range p 8 a \<Longrightarrow> in_page p a"
  using cell_in_page[of p 0 a] by simp

text \<open>The list only depends on the bytes of its pages.\<close>

lemma flist_cong:
  assumes "flist m r ps" and "\<forall>p \<in> set ps. aligned p \<and> (\<forall>a. in_page p a \<longrightarrow> m' a = m a)"
  shows "flist m' r ps"
  using assms
proof (induction ps arbitrary: r)
  case Nil
  then show ?case by simp
next
  case (Cons p ps)
  have "load64 m' p = load64 m p"
    using Cons.prems(2) by (intro load64_cong) (auto dest: first_cell_in_page)
  then show ?case using Cons by simp
qed

lemma flist_unique: "flist m r ps \<Longrightarrow> flist m r qs \<Longrightarrow> ps = qs"
proof (induction ps arbitrary: r qs)
  case Nil
  then show ?case by (cases qs) auto
next
  case (Cons p ps)
  then show ?case by (cases qs) auto
qed

section \<open>The two operations on a free lock\<close>

text \<open>The kernel state outside the lock, as the allocator's critical sections change it.\<close>

definition push_page :: "u64 \<Rightarrow> 'a memst_scheme \<Rightarrow> 'a memst_scheme" where
  "push_page pa s = s\<lparr>mem := store64 pa (freelist s) (memset pa 1 4096 (mem s)), freelist := pa\<rparr>"

definition pop_page :: "'a memst_scheme \<Rightarrow> 'a memst_scheme" where
  "pop_page s =
     (let r = freelist s
      in if r = 0 then s
         else s\<lparr>freelist := load64 (mem s) r, mem := memset r 5 4096 (mem s)\<rparr>)"

lemma acquired_memst [simp]:
  "mem (acquired h l s) = mem s" "freelist (acquired h l s) = freelist s"
  "kend (acquired h l s) = kend s"
  by (simp_all add: acquired_def push_off_def Let_def)

lemma touch_memst [simp]:
  "mem (touch h s) = mem s" "freelist (touch h s) = freelist s" "kend (touch h s) = kend s"
  by (simp_all add: touch_def)

lemma acquired_mem_upd:
  "(acquired h l s)\<lparr>mem := m\<rparr> = acquired h l (s\<lparr>mem := m\<rparr>)"
  "(acquired h l s)\<lparr>freelist := r\<rparr> = acquired h l (s\<lparr>freelist := r\<rparr>)"
  by (simp_all add: acquired_def push_off_def Let_def)

lemma touch_mem_upd:
  "touch h (s\<lparr>mem := m\<rparr>) = (touch h s)\<lparr>mem := m\<rparr>"
  "touch h (s\<lparr>freelist := r\<rparr>) = (touch h s)\<lparr>freelist := r\<rparr>"
  by (simp_all add: touch_def)

lemma lock_state_mem_upd [simp]:
  "lock_free l (s\<lparr>mem := m\<rparr>) = lock_free l s" "lock_free l (s\<lparr>freelist := r\<rparr>) = lock_free l s"
  "hart_ok h (s\<lparr>mem := m\<rparr>) = hart_ok h s" "hart_ok h (s\<lparr>freelist := r\<rparr>) = hart_ok h s"
  by (simp_all add: lock_free_def hart_ok_def)

lemma kfree_push:
  assumes "hart_ok h s" and "lock_free KmemLock s"
    and "aligned pa" and "kend s \<le> pa" and "pa < PHYSTOP"
  shows "kfree h pa s = Ok (touch h (push_page pa s))"
  using assms
  by (simp add: kfree_def aligned_def Let_def acquire_free acquired_mem_upd release_acquired
      push_page_def not_less not_le)

lemma kalloc_pop:
  assumes "hart_ok h s" and "lock_free KmemLock s"
  shows "kalloc h s = Ok (freelist s, touch h (pop_page s))"
  using assms
  by (simp add: kalloc_def Let_def acquire_free acquired_mem_upd release_acquired pop_page_def
      touch_mem_upd)

section \<open>What the allocator keeps\<close>

text \<open>Two states that differ at most in memory, the free list and the saved interrupt flag of hart
  \<open>h\<close>.\<close>

definition mem_only :: "nat \<Rightarrow> 'a memst_scheme \<Rightarrow> 'a memst_scheme \<Rightarrow> bool" where
  "mem_only h s s' \<longleftrightarrow> locks s' = locks s \<and> sie s' = sie s \<and> kend s' = kend s
     \<and> memst.more s' = memst.more s
     \<and> (\<forall>g. noff (cpus s' g) = noff (cpus s g) \<and> c_proc (cpus s' g) = c_proc (cpus s g)
           \<and> (g \<noteq> h \<longrightarrow> cpus s' g = cpus s g))"

lemma mem_only_refl [simp]: "mem_only h s s"
  by (simp add: mem_only_def)

lemma mem_only_trans [trans]: "mem_only h s t \<Longrightarrow> mem_only h t u \<Longrightarrow> mem_only h s u"
  by (auto simp: mem_only_def)

lemma mem_only_mem [simp]: "mem_only h s (s\<lparr>mem := m\<rparr>)" "mem_only h s (s\<lparr>freelist := r\<rparr>)"
  by (simp_all add: mem_only_def)

lemma mem_only_touch [simp]: "mem_only h s (touch h s)"
  by (auto simp: mem_only_def touch_def)

lemma mem_only_mem_iff [simp]: "mem_only h s (t\<lparr>mem := m\<rparr>) \<longleftrightarrow> mem_only h s t"
  by (simp add: mem_only_def)

lemma mem_only_lock_state:
  assumes "mem_only h s s'"
  shows "lock_free l s' = lock_free l s" and "hart_ok g s' = hart_ok g s"
    and "phys_page s' p = phys_page s p"
  using assms by (simp_all add: mem_only_def lock_free_def hart_ok_def phys_page_def)

text \<open>The allocator is ready: its lock is free, the hart is in order, and \<open>ps\<close> are the free pages.\<close>

definition mem_ready :: "nat \<Rightarrow> u64 list \<Rightarrow> 'a memst_scheme \<Rightarrow> bool" where
  "mem_ready h ps s \<longleftrightarrow> hart_ok h s \<and> lock_free KmemLock s \<and> kmem_ok ps s"

lemma pop_page_ok:
  assumes "kmem_ok (p # ps) s"
  shows "kmem_ok ps (pop_page s)" and "freelist s = p" and "phys_page s p"
    and "\<not> in_page p a \<Longrightarrow> mem (pop_page s) a = mem s a"
proof -
  from assms show p: "freelist s = p" "phys_page s p" by (simp_all add: kmem_ok_def)
  from p(2) have nz: "p \<noteq> 0" and al: "aligned p" by (simp_all add: phys_page_def)
  have m: "mem (pop_page s) a = mem s a" if "\<not> in_page p a" for a
    using p(1) nz that by (simp add: pop_page_def memset_apply in_page_def)
  then show "\<not> in_page p a \<Longrightarrow> mem (pop_page s) a = mem s a" .
  have rest: "flist (mem s) (load64 (mem s) p) ps" "p \<notin> set ps"
    using assms by (simp_all add: kmem_ok_def)
  have al': "aligned q" if "q \<in> set ps" for q
    using assms that by (simp add: kmem_ok_def phys_page_def)
  have "flist (mem (pop_page s)) (load64 (mem s) p) ps"
  proof (rule flist_cong[OF rest(1)], intro ballI conjI allI impI)
    fix q a assume q: "q \<in> set ps" and "in_page q a"
    then have "\<not> in_page p a" using rest(2) al al'[OF q] pages_disjoint[of q p a] by auto
    then show "mem (pop_page s) a = mem s a" by (rule m)
  qed (rule al')
  then show "kmem_ok ps (pop_page s)"
    using assms p(1) nz by (simp add: kmem_ok_def pop_page_def Let_def phys_page_def)
qed

lemma push_page_ok:
  assumes "kmem_ok ps s" and "phys_page s p" and "p \<notin> set ps"
  shows "kmem_ok (p # ps) (push_page p s)"
    and "\<not> in_page p a \<Longrightarrow> mem (push_page p s) a = mem s a"
proof -
  from assms(2) have al: "aligned p" by (simp add: phys_page_def)
  have m: "mem (push_page p s) a = mem s a" if "\<not> in_page p a" for a
  proof -
    have "\<not> in_range p 8 a" using that first_cell_in_page[OF al] by blast
    then show ?thesis using that by (simp add: push_page_def store64_outside memset_apply in_page_def)
  qed
  then show "\<not> in_page p a \<Longrightarrow> mem (push_page p s) a = mem s a" .
  have al': "aligned q" if "q \<in> set ps" for q
    using assms(1) that by (simp add: kmem_ok_def phys_page_def)
  have fl: "flist (mem s) (freelist s) ps" using assms(1) by (simp add: kmem_ok_def)
  have "flist (mem (push_page p s)) (freelist s) ps"
  proof (rule flist_cong[OF fl], intro ballI conjI allI impI)
    fix q a assume q: "q \<in> set ps" and "in_page q a"
    then have "\<not> in_page p a" using assms(3) al al'[OF q] pages_disjoint[of q p a] by auto
    then show "mem (push_page p s) a = mem s a" by (rule m)
  qed (rule al')
  moreover have "load64 (mem (push_page p s)) p = freelist s" by (simp add: push_page_def)
  ultimately show "kmem_ok (p # ps) (push_page p s)"
    using assms by (simp add: kmem_ok_def phys_page_def) (simp add: push_page_def)
qed

lemma kmem_ok_touch [simp]: "kmem_ok ps (touch h s) = kmem_ok ps s"
  by (simp add: kmem_ok_def phys_page_def)

section \<open>The contract of a page allocator\<close>

text \<open>
  What the clients of the allocator rely on: \<open>ready ps s\<close> says that \<open>ps\<close> are the free pages of
  \<open>s\<close>, \<open>frame\<close> which part of the state no call changes. An allocation hands out the first free page
  or returns null; a page that is not free can be freed; no call writes outside the page it moves.
\<close>

locale page_allocator =
  fixes alloc :: "'s \<Rightarrow> (u64 \<times> 's) res" and free :: "u64 \<Rightarrow> 's \<Rightarrow> 's res"
    and ready :: "u64 list \<Rightarrow> 's \<Rightarrow> bool" and page :: "'s \<Rightarrow> u64 \<Rightarrow> bool"
    and bytes :: "'s \<Rightarrow> memory" and frame :: "'s \<Rightarrow> 's \<Rightarrow> bool"
  assumes alloc_null: "ready [] s \<Longrightarrow>
      \<exists>s'. alloc s = Ok (0, s') \<and> ready [] s' \<and> bytes s' = bytes s \<and> frame s s'"
    and alloc_page: "ready (p # ps) s \<Longrightarrow>
      \<exists>s'. alloc s = Ok (p, s') \<and> ready ps s' \<and> frame s s' \<and>
        (\<forall>a. \<not> in_page p a \<longrightarrow> bytes s' a = bytes s a)"
    and free_page: "ready ps s \<Longrightarrow> page s p \<Longrightarrow> p \<notin> set ps \<Longrightarrow>
      \<exists>s'. free p s = Ok s' \<and> ready (p # ps) s' \<and> frame s s' \<and>
        (\<forall>a. \<not> in_page p a \<longrightarrow> bytes s' a = bytes s a)"
    and ready_pages: "ready ps s \<Longrightarrow> distinct ps \<and> (\<forall>p \<in> set ps. page s p \<and> p \<noteq> 0)"
    and page_frame: "frame s s' \<Longrightarrow> page s' p = page s p"
    and frame_trans: "frame s t \<Longrightarrow> frame t u \<Longrightarrow> frame s u"
    and frame_refl: "frame s s"
begin

primrec alloc_n :: "nat \<Rightarrow> 's \<Rightarrow> (u64 list \<times> 's) res" where
  "alloc_n 0 s = Ok ([], s)"
| "alloc_n (Suc n) s =
     rbind (alloc s) (\<lambda>(p, s). rbind (alloc_n n s) (\<lambda>(ps, s). Ok (p # ps, s)))"

text \<open>As long as there are free pages, successive allocations return different non-null pages.\<close>

lemma alloc_n_pages:
  assumes "ready (ps @ qs) s"
  shows "\<exists>s'. alloc_n (length ps) s = Ok (ps, s') \<and> ready qs s' \<and> frame s s'"
  using assms
proof (induction ps arbitrary: s)
  case Nil
  then show ?case by (simp add: frame_refl)
next
  case (Cons p ps)
  then obtain t where t: "alloc s = Ok (p, t)" "ready (ps @ qs) t" "frame s t"
    using alloc_page[of p "ps @ qs" s] by auto
  from Cons.IH[OF t(2)] obtain u where "alloc_n (length ps) t = Ok (ps, u)" "ready qs u" "frame t u"
    by auto
  with t show ?case by (auto intro: frame_trans)
qed

text \<open>Freeing the page that was just allocated gives the free pages back.\<close>

lemma alloc_free:
  assumes "ready (p # ps) s"
  shows "\<exists>t s'. alloc s = Ok (p, t) \<and> free p t = Ok s' \<and> ready (p # ps) s' \<and> frame s s'
    \<and> (\<forall>a. \<not> in_page p a \<longrightarrow> bytes s' a = bytes s a)"
proof -
  obtain t where t: "alloc s = Ok (p, t)" "ready ps t" "frame s t"
      "\<forall>a. \<not> in_page p a \<longrightarrow> bytes t a = bytes s a"
    using alloc_page[OF assms] by auto
  have "page t p" "p \<notin> set ps" using ready_pages[OF assms] page_frame[OF t(3)] by auto
  then obtain u where "free p t = Ok u" "ready (p # ps) u" "frame t u"
      "\<forall>a. \<not> in_page p a \<longrightarrow> bytes u a = bytes t a"
    using free_page[OF t(2)] by auto
  with t show ?thesis by (auto intro: frame_trans)
qed

end

lemma kalloc_null:
  assumes "mem_ready h [] s"
  shows "kalloc h s = Ok (0, touch h s)"
  using assms kalloc_pop[of h s] by (auto simp: mem_ready_def kmem_ok_def pop_page_def)

lemma kalloc_page:
  assumes "mem_ready h (p # ps) s"
  shows "\<exists>s'. kalloc h s = Ok (p, s') \<and> mem_ready h ps s' \<and> mem_only h s s' \<and>
    (\<forall>a. \<not> in_page p a \<longrightarrow> mem s' a = mem s a)"
proof -
  have k: "kmem_ok (p # ps) s" and l: "hart_ok h s" "lock_free KmemLock s"
    using assms by (simp_all add: mem_ready_def)
  have only: "mem_only h s (touch h (pop_page s))"
    by (rule mem_only_trans[OF _ mem_only_touch]) (simp add: pop_page_def Let_def mem_only_def)
  show ?thesis
    using kalloc_pop[OF l] pop_page_ok[OF k] mem_only_lock_state[OF only] only l
    by (auto simp: mem_ready_def)
qed

lemma kfree_page:
  assumes "mem_ready h ps s" and "phys_page s p" and "p \<notin> set ps"
  shows "\<exists>s'. kfree h p s = Ok s' \<and> mem_ready h (p # ps) s' \<and> mem_only h s s' \<and>
    (\<forall>a. \<not> in_page p a \<longrightarrow> mem s' a = mem s a)"
proof -
  have k: "kmem_ok ps s" and l: "hart_ok h s" "lock_free KmemLock s"
    using assms(1) by (simp_all add: mem_ready_def)
  have only: "mem_only h s (touch h (push_page p s))"
    by (rule mem_only_trans[OF _ mem_only_touch]) (simp add: push_page_def mem_only_def)
  show ?thesis
    using kfree_push[OF l, of p] push_page_ok[OF k assms(2,3)] mem_only_lock_state[OF only] only l
      assms(2)
    by (auto simp: mem_ready_def phys_page_def)
qed

interpretation kmem: page_allocator "kalloc h" "kfree h" "mem_ready h" phys_page mem "mem_only h"
  for h
proof
  fix s :: "'a memst_scheme"
  assume "mem_ready h [] s"
  then show "\<exists>s'. kalloc h s = Ok (0, s') \<and> mem_ready h [] s' \<and> mem s' = mem s \<and> mem_only h s s'"
    using kalloc_null[of h s] by (simp add: mem_ready_def)
next
  fix s :: "'a memst_scheme" and ps
  assume "mem_ready h ps s"
  then show "distinct ps \<and> (\<forall>p \<in> set ps. phys_page s p \<and> p \<noteq> 0)"
    by (auto simp: mem_ready_def kmem_ok_def phys_page_def)
qed (rule kalloc_page kfree_page mem_only_lock_state mem_only_refl mem_only_trans; assumption)+

section \<open>Initialisation\<close>

text \<open>The pages from \<open>p\<close> on that end at or below \<open>e\<close>.\<close>

definition pages_between :: "u64 \<Rightarrow> u64 \<Rightarrow> u64 set" where
  "pages_between p e = {q. aligned q \<and> p \<le> q \<and> unat q + 4096 \<le> unat e}"

lemma pages_between_step:
  assumes "aligned p" and "p < PHYSTOP" and "p + PGSIZE \<le> e"
  shows "pages_between p e = insert p (pages_between (p + PGSIZE) e)"
proof -
  have n: "unat (p + PGSIZE) = unat p + 4096" by (rule next_page_less[OF assms(2)])
  have "unat p + 4096 \<le> unat q" if "aligned q" "p \<le> q" "q \<noteq> p" for q
  proof -
    obtain i j where "unat p = 4096 * i" "unat q = 4096 * j"
      using assms(1) \<open>aligned q\<close> by (auto simp: aligned_unat mod_eq_0_iff_dvd dvd_def)
    with that show ?thesis by (auto simp: word_le_nat_alt word_unat_eq_iff)
  qed
  then show ?thesis
    using assms n by (auto simp: pages_between_def word_le_nat_alt)
qed

lemma freerange_loop_ok:
  assumes "mem_ready h ps s" and "aligned p" and "kend s \<le> p" and "p \<noteq> 0" and "e \<le> PHYSTOP"
    and "\<forall>q \<in> set ps. q < p" and "p \<le> PHYSTOP"
  shows "\<exists>s' qs. freerange_loop h p e s = Ok s' \<and> mem_ready h (qs @ ps) s'
    \<and> set qs = pages_between p e \<and> mem_only h s s'"
  using assms
proof (induction h p e s arbitrary: ps rule: freerange_loop.induct)
  case (1 h p e s)
  show ?case
  proof (cases "p + PGSIZE \<le> e")
    case True
    have n: "unat (p + PGSIZE) = unat p + 4096"
      using "1.prems"(7) by (simp add: word_le_nat_alt unat_word_ariths)
    have lt: "p < PHYSTOP"
      using True "1.prems"(5) n by (simp add: word_le_nat_alt word_less_nat_alt)
    have "phys_page s p" "p \<notin> set ps" using "1.prems" lt by (auto simp: phys_page_def)
    then obtain t where t: "kfree h p s = Ok t" "mem_ready h (p # ps) t" "mem_only h s t"
      using kfree_page[OF "1.prems"(1)] by blast
    have up: "p + PGSIZE \<le> PHYSTOP" using True "1.prems"(5) by (rule order_trans)
    have al: "aligned (p + PGSIZE)"
      using "1.prems"(2) n by (auto simp: aligned_unat)
    have "\<exists>s' qs. freerange_loop h (p + PGSIZE) e t = Ok s' \<and> mem_ready h (qs @ p # ps) s'
        \<and> set qs = pages_between (p + PGSIZE) e \<and> mem_only h t s'"
    proof (rule "1.IH"[OF True t(1) t(2) al _ _ "1.prems"(5) _ up])
      show "kend t \<le> p + PGSIZE"
        using t(3) "1.prems"(3) n by (simp add: mem_only_def word_le_nat_alt)
      show "p + PGSIZE \<noteq> 0" using n by (metis add_eq_0_iff_both_eq_0 unat_0 zero_neq_numeral)
      show "\<forall>q \<in> set (p # ps). q < p + PGSIZE"
        using "1.prems"(6) n by (auto simp: word_less_nat_alt)
    qed
    then obtain s' qs where s': "freerange_loop h (p + PGSIZE) e t = Ok s'"
      "mem_ready h (qs @ p # ps) s'" "set qs = pages_between (p + PGSIZE) e" "mem_only h t s'"
      by blast
    have "mem_ready h ((qs @ [p]) @ ps) s'" using s'(2) by simp
    moreover have "freerange_loop h p e s = Ok s'"
      using True t(1) s'(1) by (simp add: freerange_loop.simps[of h p])
    moreover have "set (qs @ [p]) = pages_between p e"
      using pages_between_step[OF "1.prems"(2) lt True] s'(3) by simp
    ultimately show ?thesis using mem_only_trans[OF t(3) s'(4)] by blast
  next
    case False
    have "unat (p + PGSIZE) = unat p + 4096"
      using "1.prems"(7) by (simp add: word_le_nat_alt unat_word_ariths)
    with False have "pages_between p e = {}"
      by (auto simp: pages_between_def word_le_nat_alt)
    then have "mem_ready h ([] @ ps) s \<and> set [] = pages_between p e" using "1.prems"(1) by simp
    then show ?thesis using False mem_only_refl[of h s]
      by (metis freerange_loop.simps)
  qed
qed

lemma kinit_ok:
  assumes "hart_ok h s" and "freelist s = 0" and "0 < kend s" and "kend s \<le> PHYSTOP"
  shows "\<exists>s' ps. kinit h s = Ok s' \<and> mem_ready h ps s'
    \<and> set ps = {p. aligned p \<and> kend s \<le> p \<and> p < PHYSTOP}"
proof -
  let ?t = "initlock KmemLock ''kmem'' s"
  let ?p = "PGROUNDUP (kend s)"
  have small: "unat (kend s) + 4095 < 2 ^ 64"
    using assms(4) by (simp add: word_le_nat_alt)
  have up: "unat ?p = (unat (kend s) + 4095) div 4096 * 4096" by (rule unat_PGROUNDUP[OF small])
  have lo: "unat ?p \<le> 4096 * k \<longleftrightarrow> unat (kend s) \<le> 4096 * k" for k
  proof
    show "unat (kend s) \<le> 4096 * k" if "unat ?p \<le> 4096 * k"
      using that PGROUNDUP_ge[OF small] by (simp add: word_le_nat_alt)
    assume "unat (kend s) \<le> 4096 * k"
    then have "(unat (kend s) + 4095) div 4096 \<le> (4096 * k + 4095) div 4096" by (intro div_le_mono) simp
    then show "unat ?p \<le> 4096 * k" by (simp add: up)
  qed
  have hi: "4096 * k + 4096 \<le> 2281701376 \<longleftrightarrow> 4096 * k < (2281701376 :: nat)"
    for k
  proof -
    have "4096 * k + 4096 = 4096 * Suc k" "2281701376 = (4096 * 557056 :: nat)" by simp_all
    then show ?thesis by (simp only: mult_le_cancel1 mult_less_cancel1) linarith
  qed
  have le: "unat ?p \<le> 2281701376" using lo[of 557056] assms(4) by (simp add: word_le_nat_alt)
  have ready: "mem_ready h [] ?t"
    using assms(1,2) by (simp add: mem_ready_def kmem_ok_def initlock_def lock_free_def hart_ok_def)
  have ge: "kend s \<le> ?p" by (rule PGROUNDUP_ge[OF small])
  with assms(3) have nz: "?p \<noteq> 0" by auto
  have "\<exists>s' qs. freerange_loop h ?p PHYSTOP ?t = Ok s' \<and> mem_ready h (qs @ []) s'
    \<and> set qs = pages_between ?p PHYSTOP \<and> mem_only h ?t s'"
  proof (rule freerange_loop_ok[OF ready])
    show "kend ?t \<le> ?p" using ge by (simp add: initlock_def)
    show "?p \<le> PHYSTOP" using le by (simp add: word_le_nat_alt)
  qed (use nz in simp_all)
  moreover have "pages_between ?p PHYSTOP = {p. aligned p \<and> kend s \<le> p \<and> p < PHYSTOP}"
  proof -
    show ?thesis
    proof (intro set_eqI)
      fix q
      show "q \<in> pages_between ?p PHYSTOP \<longleftrightarrow> q \<in> {p. aligned p \<and> kend s \<le> p \<and> p < PHYSTOP}"
      proof (cases "aligned q")
        case True
        then obtain k where k: "unat q = 4096 * k"
          by (auto simp: aligned_unat mod_eq_0_iff_dvd dvd_def)
        have "q \<in> pages_between ?p PHYSTOP \<longleftrightarrow> unat ?p \<le> 4096 * k \<and> 4096 * k + 4096 \<le> 2281701376"
          using True k by (simp add: pages_between_def word_le_nat_alt)
        also have "\<dots> \<longleftrightarrow> unat (kend s) \<le> 4096 * k \<and> 4096 * k < 2281701376" by (simp only: lo hi)
        finally show ?thesis using True k by (simp add: word_le_nat_alt word_less_nat_alt)
      qed (simp add: pages_between_def)
    qed
  qed
  ultimately obtain s' qs where "freerange_loop h ?p PHYSTOP ?t = Ok s'" "mem_ready h qs s'"
      "set qs = {p. aligned p \<and> kend s \<le> p \<and> p < PHYSTOP}" by auto
  moreover have "kinit h s = freerange_loop h ?p PHYSTOP ?t"
    by (simp add: kinit_def freerange_def Let_def) (simp add: initlock_def)
  ultimately show ?thesis by (intro exI[of _ s'] exI[of _ qs]) simp
qed

end
