(* ===== verification/Vm.thy ===== *)
theory Vm
  imports Kalloc
begin

text \<open>
  Page tables, \<^verbatim>\<open>kernel/vm.c\<close>: the three-level Sv39 walk, mapping and unmapping, user address
  spaces. Tables live in the byte memory of \<^const>\<open>mem\<close>; a table entry is eight bytes.

  The routines that consult the current process (\<^verbatim>\<open>vmfault\<close>, \<^verbatim>\<open>copyout\<close>, \<^verbatim>\<open>copyin\<close>,
  \<^verbatim>\<open>copyinstr\<close>) are in theory \<^verbatim>\<open>Usercopy\<close>. A read through a null pointer is a page fault in the
  kernel, which \<^verbatim>\<open>kerneltrap\<close> turns into a panic.
\<close>

section \<open>Walking\<close>

definition pte_addr :: "u64 \<Rightarrow> nat \<Rightarrow> u64 \<Rightarrow> u64" where
  "pte_addr pagetable level va = pagetable + 8 * PX level va"

primrec walk_loop ::
  "nat \<Rightarrow> nat \<Rightarrow> u64 \<Rightarrow> u64 \<Rightarrow> bool \<Rightarrow> 'a memst_scheme \<Rightarrow> (u64 \<times> 'a memst_scheme) res" where
  "walk_loop h 0 pagetable va alloc s = Ok (pte_addr pagetable 0 va, s)"
| "walk_loop h (Suc l) pagetable va alloc s =
     (let pte = pte_addr pagetable (Suc l) va
      in if load64 (mem s) pte AND PTE_V \<noteq> 0
         then walk_loop h l (PTE2PA (load64 (mem s) pte)) va alloc s
         else if \<not> alloc then Ok (0, s)
         else rbind (kalloc h s) (\<lambda>(pg, s).
           if pg = 0 then Ok (0, s)
           else let s = s\<lparr>mem := memset pg 0 4096 (mem s)\<rparr>;
                    s = s\<lparr>mem := store64 pte (PA2PTE pg OR PTE_V) (mem s)\<rparr>
                in walk_loop h l pg va alloc s))"

definition walk ::
  "nat \<Rightarrow> u64 \<Rightarrow> u64 \<Rightarrow> bool \<Rightarrow> 'a memst_scheme \<Rightarrow> (u64 \<times> 'a memst_scheme) res" where
  "walk h pagetable va alloc s =
     (if MAXVA \<le> va then Panic ''walk'' else walk_loop h 2 pagetable va alloc s)"

definition walkaddr :: "nat \<Rightarrow> u64 \<Rightarrow> u64 \<Rightarrow> 'a memst_scheme \<Rightarrow> (u64 \<times> 'a memst_scheme) res" where
  "walkaddr h pagetable va s =
     (if MAXVA \<le> va then Ok (0, s)
      else rbind (walk h pagetable va False s) (\<lambda>(pte, s).
        if pte = 0 then Ok (0, s)
        else if load64 (mem s) pte AND PTE_V = 0 then Ok (0, s)
        else if load64 (mem s) pte AND PTE_U = 0 then Ok (0, s)
        else Ok (PTE2PA (load64 (mem s) pte), s)))"

definition ismapped :: "nat \<Rightarrow> u64 \<Rightarrow> u64 \<Rightarrow> 'a memst_scheme \<Rightarrow> (bool \<times> 'a memst_scheme) res" where
  "ismapped h pagetable va s =
     rbind (walk h pagetable va False s) (\<lambda>(pte, s).
       if pte = 0 then Ok (False, s) else Ok (load64 (mem s) pte AND PTE_V \<noteq> 0, s))"

section \<open>Mapping\<close>

lemma walk_OkD: "walk h pt va alloc s = Ok r \<Longrightarrow> va < MAXVA"
  by (simp add: walk_def split: if_splits)

lemma next_va: "va < MAXVA \<Longrightarrow> unat (va + PGSIZE) = unat va + 4096"
  by (simp add: word_less_nat_alt unat_word_ariths)

text \<open>The result is 0, or -1 when a page-table page could not be allocated. The loop ends because
  \<^const>\<open>walk\<close> panics on addresses from \<open>MAXVA\<close> on.\<close>

function mappages_loop ::
  "nat \<Rightarrow> u64 \<Rightarrow> u64 \<Rightarrow> u64 \<Rightarrow> u64 \<Rightarrow> i32 \<Rightarrow> 'a memst_scheme \<Rightarrow> (i32 \<times> 'a memst_scheme) res" where
  "mappages_loop h pagetable a lst pa perm s =
     rbind (walk h pagetable a True s) (\<lambda>(pte, s).
       if pte = 0 then Ok (- 1, s)
       else if load64 (mem s) pte AND PTE_V \<noteq> 0 then Panic ''mappages: remap''
       else let s = s\<lparr>mem := store64 pte (PA2PTE pa OR scast perm OR PTE_V) (mem s)\<rparr>
            in if a = lst then Ok (0, s)
               else mappages_loop h pagetable (a + PGSIZE) lst (pa + PGSIZE) perm s)"
  by pat_completeness auto
termination
  by (relation "measure (\<lambda>(h, pagetable, a, lst, pa, perm, s). 2 ^ 64 - unat a)")
     (auto dest!: walk_OkD simp: next_va word_less_nat_alt)

declare mappages_loop.simps [simp del]

definition mappages ::
  "nat \<Rightarrow> u64 \<Rightarrow> u64 \<Rightarrow> u64 \<Rightarrow> u64 \<Rightarrow> i32 \<Rightarrow> 'a memst_scheme \<Rightarrow> (i32 \<times> 'a memst_scheme) res" where
  "mappages h pagetable va sz pa perm s =
     (if va mod PGSIZE \<noteq> 0 then Panic ''mappages: va not aligned''
      else if sz mod PGSIZE \<noteq> 0 then Panic ''mappages: size not aligned''
      else if sz = 0 then Panic ''mappages: size''
      else mappages_loop h pagetable va (va + sz - PGSIZE) pa perm s)"

definition kvmmap ::
  "nat \<Rightarrow> u64 \<Rightarrow> u64 \<Rightarrow> u64 \<Rightarrow> u64 \<Rightarrow> i32 \<Rightarrow> 'a memst_scheme \<Rightarrow> 'a memst_scheme res" where
  "kvmmap h kpgtbl va pa sz perm s =
     rbind (mappages h kpgtbl va sz pa perm s) (\<lambda>(r, s). if r \<noteq> 0 then Panic ''kvmmap'' else Ok s)"

definition uvmcreate :: "nat \<Rightarrow> 'a memst_scheme \<Rightarrow> (u64 \<times> 'a memst_scheme) res" where
  "uvmcreate h s =
     rbind (kalloc h s) (\<lambda>(pagetable, s).
       if pagetable = 0 then Ok (0, s)
       else Ok (pagetable, s\<lparr>mem := memset pagetable 0 4096 (mem s)\<rparr>))"

section \<open>Unmapping\<close>

function uvmunmap_loop ::
  "nat \<Rightarrow> u64 \<Rightarrow> u64 \<Rightarrow> u64 \<Rightarrow> bool \<Rightarrow> 'a memst_scheme \<Rightarrow> 'a memst_scheme res" where
  "uvmunmap_loop h pagetable a lim do_free s =
     (if a < lim
      then rbind (walk h pagetable a False s) (\<lambda>(pte, s).
        if pte = 0 then uvmunmap_loop h pagetable (a + PGSIZE) lim do_free s
        else if load64 (mem s) pte AND PTE_V = 0
        then uvmunmap_loop h pagetable (a + PGSIZE) lim do_free s
        else rbind (if do_free then kfree h (PTE2PA (load64 (mem s) pte)) s else Ok s) (\<lambda>s.
          let s = s\<lparr>mem := store64 pte 0 (mem s)\<rparr>
          in uvmunmap_loop h pagetable (a + PGSIZE) lim do_free s))
      else Ok s)"
  by pat_completeness auto
termination
  by (relation "measure (\<lambda>(h, pagetable, a, lim, do_free, s). 2 ^ 64 - unat a)")
     (auto dest!: walk_OkD simp: next_va word_less_nat_alt)

declare uvmunmap_loop.simps [simp del]

definition uvmunmap ::
  "nat \<Rightarrow> u64 \<Rightarrow> u64 \<Rightarrow> u64 \<Rightarrow> bool \<Rightarrow> 'a memst_scheme \<Rightarrow> 'a memst_scheme res" where
  "uvmunmap h pagetable va npages do_free s =
     (if va mod PGSIZE \<noteq> 0 then Panic ''uvmunmap: not aligned''
      else uvmunmap_loop h pagetable va (va + npages * PGSIZE) do_free s)"

text \<open>\<^verbatim>\<open>npages\<close> is an \<^verbatim>\<open>int\<close>.\<close>

definition uvmdealloc ::
  "nat \<Rightarrow> u64 \<Rightarrow> u64 \<Rightarrow> u64 \<Rightarrow> 'a memst_scheme \<Rightarrow> (u64 \<times> 'a memst_scheme) res" where
  "uvmdealloc h pagetable oldsz newsz s =
     (if oldsz \<le> newsz then Ok (oldsz, s)
      else if PGROUNDUP newsz < PGROUNDUP oldsz
      then let npages = ucast ((PGROUNDUP oldsz - PGROUNDUP newsz) div PGSIZE) :: i32
           in rbind (uvmunmap h pagetable (PGROUNDUP newsz) (scast npages) True s)
                (\<lambda>s. Ok (newsz, s))
      else Ok (newsz, s))"

section \<open>Growing and copying an address space\<close>

lemma mappages_OkD: "mappages h pt va sz pa perm s = Ok r \<Longrightarrow> va < MAXVA"
  by (auto simp: mappages_def mappages_loop.simps dest!: walk_OkD split: if_splits)

function uvmalloc_loop ::
  "nat \<Rightarrow> u64 \<Rightarrow> u64 \<Rightarrow> u64 \<Rightarrow> u64 \<Rightarrow> i32 \<Rightarrow> 'a memst_scheme \<Rightarrow> (u64 \<times> 'a memst_scheme) res" where
  "uvmalloc_loop h pagetable a oldsz newsz xperm s =
     (if a < newsz
      then rbind (kalloc h s) (\<lambda>(pg, s).
        if pg = 0 then rbind (uvmdealloc h pagetable a oldsz s) (\<lambda>(_, s). Ok (0, s))
        else let s = s\<lparr>mem := memset pg 0 4096 (mem s)\<rparr>
             in rbind (mappages h pagetable a PGSIZE pg (2 OR 16 OR xperm) s) (\<lambda>(r, s).
               if r \<noteq> 0
               then rbind (kfree h pg s) (\<lambda>s.
                 rbind (uvmdealloc h pagetable a oldsz s) (\<lambda>(_, s). Ok (0, s)))
               else uvmalloc_loop h pagetable (a + PGSIZE) oldsz newsz xperm s))
      else Ok (newsz, s))"
  by pat_completeness auto
termination
  by (relation "measure (\<lambda>(h, pagetable, a, oldsz, newsz, xperm, s). 2 ^ 64 - unat a)")
     (auto dest!: mappages_OkD simp: next_va word_less_nat_alt)

declare uvmalloc_loop.simps [simp del]

definition uvmalloc ::
  "nat \<Rightarrow> u64 \<Rightarrow> u64 \<Rightarrow> u64 \<Rightarrow> i32 \<Rightarrow> 'a memst_scheme \<Rightarrow> (u64 \<times> 'a memst_scheme) res" where
  "uvmalloc h pagetable oldsz newsz xperm s =
     (if newsz < oldsz then Ok (oldsz, s)
      else let oldsz = PGROUNDUP oldsz in uvmalloc_loop h pagetable oldsz oldsz newsz xperm s)"

function uvmcopy_loop ::
  "nat \<Rightarrow> u64 \<Rightarrow> u64 \<Rightarrow> u64 \<Rightarrow> u64 \<Rightarrow> 'a memst_scheme \<Rightarrow> (i32 \<times> 'a memst_scheme) res" where
  "uvmcopy_loop h old new i sz s =
     (if i < sz
      then rbind (walk h old i False s) (\<lambda>(pte, s).
        if pte = 0 then uvmcopy_loop h old new (i + PGSIZE) sz s
        else if load64 (mem s) pte AND PTE_V = 0 then uvmcopy_loop h old new (i + PGSIZE) sz s
        else let pa = PTE2PA (load64 (mem s) pte);
                 flags = ucast (PTE_FLAGS (load64 (mem s) pte)) :: u32
             in rbind (kalloc h s) (\<lambda>(pg, s).
               if pg = 0 then rbind (uvmunmap h new 0 (i div PGSIZE) True s) (\<lambda>s. Ok (- 1, s))
               else let s = s\<lparr>mem := memmove pg pa 4096 (mem s)\<rparr>
                    in rbind (mappages h new i PGSIZE pg flags s) (\<lambda>(r, s).
                      if r \<noteq> 0
                      then rbind (kfree h pg s) (\<lambda>s.
                        rbind (uvmunmap h new 0 (i div PGSIZE) True s) (\<lambda>s. Ok (- 1, s)))
                      else uvmcopy_loop h old new (i + PGSIZE) sz s)))
      else Ok (0, s))"
  by pat_completeness auto
termination
  by (relation "measure (\<lambda>(h, old, new, i, sz, s). 2 ^ 64 - unat i)")
     (auto dest!: walk_OkD simp: next_va word_less_nat_alt)

declare uvmcopy_loop.simps [simp del]

definition uvmcopy ::
  "nat \<Rightarrow> u64 \<Rightarrow> u64 \<Rightarrow> u64 \<Rightarrow> 'a memst_scheme \<Rightarrow> (i32 \<times> 'a memst_scheme) res" where
  "uvmcopy h old new sz s = uvmcopy_loop h old new 0 sz s"

definition uvmclear :: "nat \<Rightarrow> u64 \<Rightarrow> u64 \<Rightarrow> 'a memst_scheme \<Rightarrow> 'a memst_scheme res" where
  "uvmclear h pagetable va s =
     rbind (walk h pagetable va False s) (\<lambda>(pte, s).
       if pte = 0 then Panic ''uvmclear''
       else Ok (s\<lparr>mem := store64 pte (load64 (mem s) pte AND NOT PTE_U) (mem s)\<rparr>))"

section \<open>Freeing page tables\<close>

text \<open>
  The recursion follows every valid entry without permission bits; on a table with a cycle it does
  not end. \<open>freewalk_from\<close> is the loop from entry \<open>i\<close> on, with \<open>None\<close> for a run that does not end;
  \<open>freewalk\<close> is then \<^const>\<open>Spin\<close>.
\<close>

partial_function (option) freewalk_from ::
  "nat \<Rightarrow> u64 \<Rightarrow> nat \<Rightarrow> 'a memst_scheme \<Rightarrow> 'a memst_scheme res option" where
  "freewalk_from h pagetable i s =
     (if i < 512
      then let pte = load64 (mem s) (pagetable + 8 * of_nat i)
           in if pte AND PTE_V \<noteq> 0 \<and> pte AND (PTE_R OR PTE_W OR PTE_X) = 0
              then Option.bind (freewalk_from h (PTE2PA pte) 0 s) (\<lambda>r.
                case r of
                  Ok s \<Rightarrow> freewalk_from h pagetable (Suc i)
                            (s\<lparr>mem := store64 (pagetable + 8 * of_nat i) 0 (mem s)\<rparr>)
                | Panic msg \<Rightarrow> Some (Panic msg)
                | Spin \<Rightarrow> Some Spin)
              else if pte AND PTE_V \<noteq> 0 then Some (Panic ''freewalk: leaf'')
              else freewalk_from h pagetable (Suc i) s
      else Some (kfree h pagetable s))"

definition freewalk :: "nat \<Rightarrow> u64 \<Rightarrow> 'a memst_scheme \<Rightarrow> 'a memst_scheme res" where
  "freewalk h pagetable s = (case freewalk_from h pagetable 0 s of Some r \<Rightarrow> r | None \<Rightarrow> Spin)"

definition uvmfree :: "nat \<Rightarrow> u64 \<Rightarrow> u64 \<Rightarrow> 'a memst_scheme \<Rightarrow> 'a memst_scheme res" where
  "uvmfree h pagetable sz s =
     rbind (if 0 < sz then uvmunmap h pagetable 0 (PGROUNDUP sz div PGSIZE) True s else Ok s)
       (\<lambda>s. freewalk h pagetable s)"

section \<open>The kernel's own page table\<close>

abbreviation (input) UART0 :: u64 where "UART0 \<equiv> 0x10000000"
abbreviation (input) VIRTIO0 :: u64 where "VIRTIO0 \<equiv> 0x10001000"
abbreviation (input) PLIC :: u64 where "PLIC \<equiv> 0x0c000000"

definition proc_mapstacks :: "nat \<Rightarrow> u64 \<Rightarrow> 'a memst_scheme \<Rightarrow> 'a memst_scheme res" where
  "proc_mapstacks h kpgtbl s =
     rfold (\<lambda>i s. rbind (kalloc h s) (\<lambda>(pa, s).
        if pa = 0 then Panic ''kalloc''
        else kvmmap h kpgtbl (KSTACK i) pa PGSIZE (2 OR 4) s)) [0..<NPROC] s"

text \<open>\<open>etext\<close> and \<open>trampoline\<close> are addresses that the linker chooses. A failed first allocation is
  not checked: \<^verbatim>\<open>memset\<close> then writes through the null pointer.\<close>

definition kvmmake :: "nat \<Rightarrow> u64 \<Rightarrow> u64 \<Rightarrow> 'a memst_scheme \<Rightarrow> (u64 \<times> 'a memst_scheme) res" where
  "kvmmake h etext trampoline s =
     rbind (kalloc h s) (\<lambda>(kpgtbl, s).
       let s = s\<lparr>mem := memset kpgtbl 0 4096 (mem s)\<rparr> in
       rbind (kvmmap h kpgtbl UART0 UART0 PGSIZE (2 OR 4) s) (\<lambda>s.
       rbind (kvmmap h kpgtbl VIRTIO0 VIRTIO0 PGSIZE (2 OR 4) s) (\<lambda>s.
       rbind (kvmmap h kpgtbl PLIC PLIC 0x4000000 (2 OR 4) s) (\<lambda>s.
       rbind (kvmmap h kpgtbl KERNBASE KERNBASE (etext - KERNBASE) (2 OR 8) s) (\<lambda>s.
       rbind (kvmmap h kpgtbl etext etext (PHYSTOP - etext) (2 OR 4) s) (\<lambda>s.
       rbind (kvmmap h kpgtbl TRAMPOLINE trampoline PGSIZE (2 OR 8) s) (\<lambda>s.
       rbind (proc_mapstacks h kpgtbl s) (\<lambda>s. Ok (kpgtbl, s)))))))))"

end
