(* ===== verification/Pagetable.thy ===== *)
theory Pagetable
  imports Vm
begin

text \<open>
  Page tables as trees. \<open>tpages l m p\<close> are the table pages below the table \<open>p\<close> of level \<open>l\<close>,
  \<open>twf\<close> says that they form a tree, \<open>slot\<close> is the address of the leaf entry of a virtual address and
  \<open>view\<close> its contents (0 if a table is missing). The lemmas show how the stores of the walk and of its
  callers change the view.
\<close>

section \<open>Entries\<close>

abbreviation (input) valid :: "u64 \<Rightarrow> bool" where "valid e \<equiv> e AND PTE_V \<noteq> 0"

lemma aligned_take_bit: "aligned p \<longleftrightarrow> take_bit 12 p = 0"
proof -
  have "unat (take_bit 12 p) = unat p mod 4096"
    by (simp add: take_bit_eq_mod unat_mod)
  then show ?thesis unfolding aligned_unat by (metis unat_0_iff)
qed

lemma bit_take_bit_eq: "take_bit k (f :: u64) = f \<Longrightarrow> bit f n \<Longrightarrow> n < k"
  by (metis bit_take_bit_iff)

lemma aligned_bit: "aligned p \<Longrightarrow> bit p n \<Longrightarrow> 12 \<le> n"
  unfolding aligned_take_bit by (metis bit_take_bit_iff bit_0_eq bot_apply bot_bool_def not_le)

lemma PTE2PA_PA2PTE:
  assumes "aligned pa" and "take_bit 10 f = f"
  shows "PTE2PA (PA2PTE pa OR f) = pa"
proof (rule bit_word_eqI)
  fix n assume "n < LENGTH(64)"
  then have n: "n < 64" by simp
  show "bit (PTE2PA (PA2PTE pa OR f)) n = bit pa n"
  proof (cases "12 \<le> n")
    case True
    then have "\<not> bit f (n - 2)" using bit_take_bit_eq[OF assms(2), of "n - 2"] by auto
    moreover have "n - 12 + 10 = n - 2" "n - 2 - 10 + 12 = n" using True by simp_all
    ultimately show ?thesis
      using True n by (auto simp: PTE2PA_def PA2PTE_def bit_simps ac_simps)
  next
    case False
    then show ?thesis
      using aligned_bit[OF assms(1), of n] by (auto simp: PTE2PA_def bit_simps)
  qed
qed

lemma PTE_FLAGS_PA2PTE:
  assumes "take_bit 10 f = f"
  shows "PTE_FLAGS (PA2PTE pa OR f) = f"
proof -
  have "PTE_FLAGS (PA2PTE pa OR f) = take_bit 10 (PA2PTE pa OR f)"
    by (simp add: PTE_FLAGS_def take_bit_eq_mask mask_eq_exp_minus_1)
  also have "\<dots> = take_bit 10 f"
    by (rule bit_word_eqI) (auto simp: PA2PTE_def bit_simps)
  finally show ?thesis using assms by simp
qed

lemma valid_table_pte [simp]: "valid (PA2PTE pg OR 1)"
proof -
  have "bit ((PA2PTE pg OR 1) AND 1) 0" by (simp add: bit_simps)
  then show ?thesis by (metis bit_0_eq bot_apply bot_bool_def)
qed

lemma PX_less: "unat (PX l va) < 512"
proof -
  have "PX l va = take_bit 9 (drop_bit (PXSHIFT l) va)"
    by (simp add: PX_def take_bit_eq_mask mask_eq_exp_minus_1)
  then have "PX l va = drop_bit (PXSHIFT l) va mod 512" by (simp add: take_bit_eq_mod)
  then show ?thesis by (simp add: unat_mod)
qed

definition px :: "nat \<Rightarrow> u64 \<Rightarrow> nat" where "px l va = unat (PX l va)"

lemma px_less [simp]: "px l va < 512"
  by (simp add: px_def PX_less)

definition pte_at :: "memory \<Rightarrow> u64 \<Rightarrow> nat \<Rightarrow> u64" where
  "pte_at m p i = load64 m (p + of_nat (8 * i))"

lemma pte_addr_px: "pte_addr p l va = p + of_nat (8 * px l va)"
  by (simp add: pte_addr_def px_def)

lemma load_pte_addr: "load64 m (pte_addr p l va) = pte_at m p (px l va)"
  by (simp add: pte_at_def pte_addr_px)

lemma pte_at_cong:
  "aligned p \<Longrightarrow> i < 512 \<Longrightarrow> (\<And>a. in_page p a \<Longrightarrow> m' a = m a) \<Longrightarrow> pte_at m' p i = pte_at m p i"
  unfolding pte_at_def by (rule load64_cong) (blast intro: cell_in_page)

section \<open>Trees of table pages\<close>

primrec tpages :: "nat \<Rightarrow> memory \<Rightarrow> u64 \<Rightarrow> u64 set" where
  "tpages 0 m p = {p}"
| "tpages (Suc l) m p =
     insert p (\<Union>i \<in> {i. i < 512 \<and> valid (pte_at m p i)}. tpages l m (PTE2PA (pte_at m p i)))"

primrec twf :: "nat \<Rightarrow> memory \<Rightarrow> u64 \<Rightarrow> bool" where
  "twf 0 m p \<longleftrightarrow> aligned p"
| "twf (Suc l) m p \<longleftrightarrow> aligned p
     \<and> (\<forall>i < 512. valid (pte_at m p i) \<longrightarrow> pte_at m p i AND 14 = 0
          \<and> twf l m (PTE2PA (pte_at m p i)) \<and> p \<notin> tpages l m (PTE2PA (pte_at m p i)))
     \<and> (\<forall>i < 512. \<forall>j < 512. i \<noteq> j \<longrightarrow> valid (pte_at m p i) \<longrightarrow> valid (pte_at m p j) \<longrightarrow>
          tpages l m (PTE2PA (pte_at m p i)) \<inter> tpages l m (PTE2PA (pte_at m p j)) = {})"

primrec slot :: "nat \<Rightarrow> memory \<Rightarrow> u64 \<Rightarrow> u64 \<Rightarrow> u64 option" where
  "slot 0 m p va = Some (pte_addr p 0 va)"
| "slot (Suc l) m p va =
     (let e = pte_at m p (px (Suc l) va) in if valid e then slot l m (PTE2PA e) va else None)"

definition view :: "nat \<Rightarrow> memory \<Rightarrow> u64 \<Rightarrow> u64 \<Rightarrow> u64" where
  "view l m p va = (case slot l m p va of None \<Rightarrow> 0 | Some a \<Rightarrow> load64 m a)"

lemma tpages_self [simp]: "p \<in> tpages l m p"
  by (cases l) simp_all

lemma tpages_child:
  "i < 512 \<Longrightarrow> valid (pte_at m p i) \<Longrightarrow> tpages l m (PTE2PA (pte_at m p i)) \<subseteq> tpages (Suc l) m p"
  by auto

lemma twf_aligned: "twf l m p \<Longrightarrow> q \<in> tpages l m p \<Longrightarrow> aligned q"
  by (induction l arbitrary: p) auto

lemma twf_root: "twf l m p \<Longrightarrow> aligned p"
  by (cases l) auto

text \<open>Two memories that agree on the pages of a tree hold the same tree.\<close>

definition same_on :: "u64 set \<Rightarrow> memory \<Rightarrow> memory \<Rightarrow> bool" where
  "same_on S m m' \<longleftrightarrow> (\<forall>q \<in> S. \<forall>a. in_page q a \<longrightarrow> m' a = m a)"

lemma same_onD: "same_on S m m' \<Longrightarrow> q \<in> S \<Longrightarrow> in_page q a \<Longrightarrow> m' a = m a"
  by (simp add: same_on_def)

lemma same_on_subset: "same_on S m m' \<Longrightarrow> T \<subseteq> S \<Longrightarrow> same_on T m m'"
  by (auto simp: same_on_def)

lemma same_on_pte: "same_on S m m' \<Longrightarrow> p \<in> S \<Longrightarrow> aligned p \<Longrightarrow> i < 512 \<Longrightarrow> pte_at m' p i = pte_at m p i"
  by (intro pte_at_cong) (auto simp: same_on_def)

lemma tree_cong:
  assumes "twf l m p" and "same_on (tpages l m p) m m'"
  shows "tpages l m' p = tpages l m p \<and> twf l m' p \<and> (\<forall>va. slot l m' p va = slot l m p va)"
  using assms
proof (induction l arbitrary: p)
  case 0
  then show ?case by simp
next
  case (Suc l)
  have e: "pte_at m' p i = pte_at m p i" if "i < 512" for i
    using Suc.prems that by (intro same_on_pte[OF Suc.prems(2)]) auto
  have IH: "tpages l m' (PTE2PA (pte_at m p i)) = tpages l m (PTE2PA (pte_at m p i))
      \<and> twf l m' (PTE2PA (pte_at m p i))
      \<and> (\<forall>va. slot l m' (PTE2PA (pte_at m p i)) va = slot l m (PTE2PA (pte_at m p i)) va)"
    if "i < 512" "valid (pte_at m p i)" for i
  proof (rule Suc.IH)
    show "twf l m (PTE2PA (pte_at m p i))" using Suc.prems(1) that by simp
    show "same_on (tpages l m (PTE2PA (pte_at m p i))) m m'"
      by (rule same_on_subset[OF Suc.prems(2) tpages_child[OF that]])
  qed
  have "tpages (Suc l) m' p = tpages (Suc l) m p" using e IH by auto
  moreover have "twf (Suc l) m' p"
    using Suc.prems(1) e IH unfolding twf.simps by (metis (no_types, lifting))
  moreover have "\<forall>va. slot (Suc l) m' p va = slot (Suc l) m p va"
    using e IH by (simp add: Let_def)
  ultimately show ?case by blast
qed

lemma slot_page:
  "slot l m p va = Some a \<Longrightarrow> \<exists>q \<in> tpages l m p. a = pte_addr q 0 va"
proof (induction l arbitrary: p)
  case 0
  then show ?case by simp
next
  case (Suc l)
  then have v: "valid (pte_at m p (px (Suc l) va))"
    and s: "slot l m (PTE2PA (pte_at m p (px (Suc l) va))) va = Some a"
    by (auto simp: Let_def split: if_splits)
  from Suc.IH[OF s] tpages_child[OF px_less v] show ?case by blast
qed

lemma slot_in_page:
  assumes "twf l m p" and "slot l m p va = Some a"
  shows "\<exists>q \<in> tpages l m p. \<forall>b. in_range a 8 b \<longrightarrow> in_page q b"
proof -
  obtain q where q: "q \<in> tpages l m p" "a = pte_addr q 0 va" using slot_page[OF assms(2)] by blast
  have "aligned q" by (rule twf_aligned[OF assms(1) q(1)])
  then show ?thesis using q cell_in_page[of q "px 0 va"] by (auto simp: pte_addr_px)
qed

lemma view_cong:
  assumes "twf l m p" and "same_on (tpages l m p) m m'"
  shows "view l m' p va = view l m p va"
proof -
  have s: "slot l m' p va = slot l m p va" using tree_cong[OF assms] by blast
  show ?thesis
  proof (cases "slot l m p va")
    case None
    with s show ?thesis by (simp add: view_def)
  next
    case (Some a)
    have "load64 m' a = load64 m a"
      using slot_in_page[OF assms(1) Some] same_onD[OF assms(2)] by (intro load64_cong) blast
    with Some s show ?thesis by (simp add: view_def)
  qed
qed

section \<open>Changes inside one subtree\<close>

text \<open>Two memories that differ at most on the pages of \<open>S\<close>.\<close>

definition same_off :: "u64 set \<Rightarrow> memory \<Rightarrow> memory \<Rightarrow> bool" where
  "same_off S m m' \<longleftrightarrow> (\<forall>a. (\<forall>q \<in> S. \<not> in_page q a) \<longrightarrow> m' a = m a)"

lemma same_off_refl [simp]: "same_off S m m"
  by (simp add: same_off_def)

lemma same_off_mono: "same_off S m m' \<Longrightarrow> S \<subseteq> T \<Longrightarrow> same_off T m m'"
  by (auto simp: same_off_def)

lemma same_off_trans: "same_off S m m' \<Longrightarrow> same_off S m' m'' \<Longrightarrow> same_off S m m''"
  by (simp add: same_off_def)

lemma same_off_on:
  assumes "same_off S m m'" and "\<forall>q \<in> S. aligned q" and "\<forall>q \<in> T. aligned q" and "S \<inter> T = {}"
  shows "same_on T m m'"
  unfolding same_on_def
proof (intro ballI allI impI)
  fix q a assume q: "q \<in> T" "in_page q a"
  have "\<not> in_page r a" if "r \<in> S" for r
    using assms q that pages_disjoint[of q r a] by auto
  then show "m' a = m a" using assms(1) by (simp add: same_off_def)
qed

lemma store64_same_off: "(\<And>b. in_range a 8 b \<Longrightarrow> in_page q b) \<Longrightarrow> same_off {q} m (store64 a v m)"
  by (auto simp: same_off_def store64_def)

lemma grow_child:
  assumes wf: "twf (Suc l) m p" and i: "i < 512" "valid (pte_at m p i)"
    and c: "c = PTE2PA (pte_at m p i)"
    and N: "N \<inter> tpages (Suc l) m p = {}" "\<forall>q \<in> N. aligned q"
    and off: "same_off (tpages l m c \<union> N) m m'"
    and wf': "twf l m' c" and pages': "tpages l m' c = tpages l m c \<union> N"
  shows grow_child_wf: "twf (Suc l) m' p"
    and grow_child_pages: "tpages (Suc l) m' p = tpages (Suc l) m p \<union> N"
    and grow_child_slot: "slot (Suc l) m' p va =
      (if px (Suc l) va = i then slot l m' c va else slot (Suc l) m p va)"
    and grow_child_view: "view (Suc l) m' p va =
      (if px (Suc l) va = i then view l m' c va else view (Suc l) m p va)"
proof -
  let ?ch = "\<lambda>j. PTE2PA (pte_at m p j)"
  have al: "\<forall>q \<in> tpages l m c \<union> N. aligned q"
    using twf_aligned[OF wf] N(2) c i by auto
  have "p \<notin> tpages l m c" using wf i c by simp
  moreover have "p \<notin> N" using N(1) by auto
  ultimately have "same_on {p} m m'"
    using twf_root[OF wf] by (intro same_off_on[OF off al]) auto
  then have e: "pte_at m' p j = pte_at m p j" if "j < 512" for j
    using that twf_root[OF wf] by (intro same_on_pte[of "{p}"]) auto
  have sub: "same_on (tpages l m (?ch j)) m m'" if "j < 512" "valid (pte_at m p j)" "j \<noteq> i" for j
  proof (rule same_off_on[OF off al])
    show "\<forall>q \<in> tpages l m (?ch j). aligned q" using wf that(1,2) twf_aligned by (auto 4 3)
    have "tpages l m c \<inter> tpages l m (?ch j) = {}" using wf that i c by auto
    moreover have "N \<inter> tpages l m (?ch j) = {}" using N(1) tpages_child[OF that(1,2), of l] by blast
    ultimately show "(tpages l m c \<union> N) \<inter> tpages l m (?ch j) = {}" by blast
  qed
  have other: "tpages l m' (?ch j) = tpages l m (?ch j) \<and> twf l m' (?ch j)
      \<and> (\<forall>va. slot l m' (?ch j) va = slot l m (?ch j) va)
      \<and> (\<forall>va. view l m' (?ch j) va = view l m (?ch j) va)"
    if "j < 512" "valid (pte_at m p j)" "j \<noteq> i" for j
    using tree_cong[OF _ sub[OF that]] view_cong[OF _ sub[OF that]] wf that(1,2) by simp
  have pj: "tpages l m' (?ch j) = tpages l m (?ch j) \<union> (if j = i then N else {})"
    if "j < 512" "valid (pte_at m p j)" for j
    using other[OF that] pages' c by auto
  show "tpages (Suc l) m' p = tpages (Suc l) m p \<union> N"
    using e pj i by (auto split: if_splits)
  show "slot (Suc l) m' p va = (if px (Suc l) va = i then slot l m' c va else slot (Suc l) m p va)"
    using e other i c by (auto simp: Let_def)
  show "view (Suc l) m' p va = (if px (Suc l) va = i then view l m' c va else view (Suc l) m p va)"
    using e other[of "px (Suc l) va"] i c by (auto simp: view_def Let_def)
  have disj: "tpages l m' (?ch j) \<inter> tpages l m' (?ch k) = {}"
    if "j < 512" "k < 512" "j \<noteq> k" "valid (pte_at m p j)" "valid (pte_at m p k)" for j k
  proof -
    have "tpages l m (?ch j) \<inter> tpages l m (?ch k) = {}" using wf that by simp
    moreover have "N \<inter> tpages l m (?ch j) = {}" "N \<inter> tpages l m (?ch k) = {}"
      using N(1) tpages_child that by blast+
    ultimately show ?thesis using pj that by auto
  qed
  have each: "pte_at m p j AND 14 = 0 \<and> twf l m' (?ch j) \<and> p \<notin> tpages l m' (?ch j)"
    if "j < 512" "valid (pte_at m p j)" for j
    using wf that pj[OF that] other[OF that] wf' c \<open>p \<notin> N\<close> by (cases "j = i") auto
  show "twf (Suc l) m' p"
    using twf_root[OF wf] e each disj by auto
qed

section \<open>Writing a leaf entry\<close>

lemma store_leaf:
  assumes "twf l m p" and "slot l m p va = Some a"
  shows "twf l (store64 a v m) p \<and> tpages l (store64 a v m) p = tpages l m p
    \<and> same_off (tpages l m p) m (store64 a v m)
    \<and> (\<forall>vb. slot l (store64 a v m) p vb = slot l m p vb)
    \<and> (\<forall>vb. view l (store64 a v m) p vb =
         (if \<forall>k \<le> l. px k vb = px k va then v else view l m p vb))"
  using assms
proof (induction l arbitrary: p)
  case 0
  let ?m = "store64 a v m"
  have a: "a = p + of_nat (8 * px 0 va)" using "0.prems"(2) by (simp add: pte_addr_px)
  have "same_off {p} m ?m"
    using "0.prems"(1) cell_in_page[of p "px 0 va"] by (intro store64_same_off) (auto simp: a)
  moreover have "view 0 ?m p vb = (if px 0 vb = px 0 va then v else view 0 m p vb)" for vb
    using load_store64_other[OF cells_disjoint[OF px_less px_less, of 0 va 0 vb]]
    by (auto simp: view_def a pte_addr_px)
  ultimately show ?case using "0.prems"(1) by simp
next
  case (Suc l)
  let ?m = "store64 a v m" and ?i = "px (Suc l) va"
  define c where "c = PTE2PA (pte_at m p ?i)"
  have val: "valid (pte_at m p ?i)" and s: "slot l m c va = Some a"
    using Suc.prems(2) by (auto simp: Let_def c_def split: if_splits)
  have "twf l m c" using Suc.prems(1) val by (simp add: c_def)
  note IH = Suc.IH[OF this s]
  have hyps: "{} \<inter> tpages (Suc l) m p = {}" "\<forall>q \<in> {}. aligned q"
    "same_off (tpages l m c \<union> {}) m ?m" "twf l ?m c" "tpages l ?m c = tpages l m c \<union> {}"
    using IH by simp_all
  note G = grow_child[OF Suc.prems(1) px_less val c_def hyps]
  have sl: "slot (Suc l) m p vb = slot l m c vb" "view (Suc l) m p vb = view l m c vb"
    if "px (Suc l) vb = ?i" for vb
    using that val by (simp_all add: view_def Let_def c_def)
  have "same_off (tpages (Suc l) m p) m ?m"
    using IH tpages_child[OF px_less val, of l] by (auto simp: c_def intro: same_off_mono)
  moreover have "slot (Suc l) ?m p vb = slot (Suc l) m p vb" for vb
    using G(3)[of vb] IH sl[of vb] by (auto simp del: slot.simps)
  moreover have "view (Suc l) ?m p vb =
      (if \<forall>k \<le> Suc l. px k vb = px k va then v else view (Suc l) m p vb)" for vb
  proof (cases "px (Suc l) vb = ?i")
    case True
    then have "(\<forall>k \<le> Suc l. px k vb = px k va) \<longleftrightarrow> (\<forall>k \<le> l. px k vb = px k va)"
      by (auto simp: le_Suc_eq)
    then show ?thesis using True G(4)[of vb] IH sl[of vb] by auto
  next
    case False
    then show ?thesis using G(4)[of vb] by auto
  qed
  ultimately show ?case using G(1,2) by simp
qed

section \<open>Adding a table page\<close>

lemma load64_zero: "(\<And>b. in_range a 8 b \<Longrightarrow> m b = 0) \<Longrightarrow> load64 m a = 0"
  using load64_cong[of a m "\<lambda>_. 0"] by (simp add: load64_def)

lemma zero_tree:
  assumes "aligned pg" and "\<And>a. in_page pg a \<Longrightarrow> m a = 0"
  shows "twf l m pg" and "tpages l m pg = {pg}" and "view l m pg va = 0"
proof -
  have z: "pte_at m pg i = 0" if "i < 512" for i
    unfolding pte_at_def using assms that by (intro load64_zero) (blast intro: cell_in_page)
  show "twf l m pg" "tpages l m pg = {pg}" using assms(1) z by (cases l; auto)+
  show "view l m pg va = 0"
    using z by (cases l) (simp_all add: view_def Let_def load_pte_addr)
qed

lemma table_pte_flags: "(PA2PTE pg OR 1) AND 14 = 0"
proof (rule bit_word_eqI)
  fix n assume "n < LENGTH(64)"
  have "bit (14 :: u64) n \<longleftrightarrow> n = 1 \<or> n = 2 \<or> n = 3"
    using \<open>n < LENGTH(64)\<close> by (auto simp: bit_numeral_rec bit_simps split: nat.splits)
  then show "bit ((PA2PTE pg OR 1) AND 14) n = bit 0 n"
    by (auto simp: PA2PTE_def bit_simps)
qed

lemma add_table:
  assumes wf: "twf (Suc l) m p" and i: "i < 512" "\<not> valid (pte_at m p i)"
    and pg: "aligned pg" "pg \<notin> tpages (Suc l) m p"
    and mz: "same_off {pg} m mz" "\<forall>a. in_page pg a \<longrightarrow> mz a = 0"
    and m': "m' = store64 (p + of_nat (8 * i)) (PA2PTE pg OR 1) mz"
  shows "twf (Suc l) m' p" and "tpages (Suc l) m' p = insert pg (tpages (Suc l) m p)"
    and "pte_at m' p i = PA2PTE pg OR 1" and "same_off {p, pg} m m'"
    and "view (Suc l) m' p va = view (Suc l) m p va"
    and "twf l m' pg" and "tpages l m' pg = {pg}" and "view l m' pg va = 0"
proof -
  let ?ch = "\<lambda>j. PTE2PA (pte_at m p j)"
  have al: "aligned p" by (rule twf_root[OF wf])
  have ne: "pg \<noteq> p" using pg(2) by auto
  have "same_off {p} mz m'" unfolding m' using cell_in_page[OF al i(1)] by (intro store64_same_off)
  then have off_p: "same_off {p, pg} mz m'" by (rule same_off_mono) simp
  show off: "same_off {p, pg} m m'"
    by (rule same_off_trans[OF same_off_mono[OF mz(1)] off_p]) simp
  have "same_on {pg} mz m'"
    using al pg(1) ne by (intro same_off_on[OF \<open>same_off {p} mz m'\<close>]) auto
  then have z: "m' a = 0" if "in_page pg a" for a
    using that mz(2) by (simp add: same_on_def)
  show Z: "twf l m' pg" "tpages l m' pg = {pg}" "view l m' pg va = 0"
    using zero_tree[OF pg(1) z] by simp_all
  have "same_on {p} m mz" using al pg(1) ne by (intro same_off_on[OF mz(1)]) auto
  then have ez: "pte_at mz p j = pte_at m p j" if "j < 512" for j
    using that al by (intro same_on_pte[of "{p}"]) auto
  show ei: "pte_at m' p i = PA2PTE pg OR 1" by (simp add: pte_at_def m')
  have ej: "pte_at m' p j = pte_at m p j" if "j < 512" "j \<noteq> i" for j
    using load_store64_other[OF cells_disjoint[OF i(1) that(1), of p]] that ez[OF that(1)]
    by (simp add: pte_at_def m')
  have ch: "PTE2PA (pte_at m' p i) = pg" unfolding ei by (rule PTE2PA_PA2PTE[OF pg(1)]) simp
  have sub: "same_on (tpages l m (?ch j)) m m'" if "j < 512" "valid (pte_at m p j)" for j
    using wf that twf_aligned al pg tpages_child[OF that, of l]
    by (intro same_off_on[OF off]) auto
  have other: "tpages l m' (?ch j) = tpages l m (?ch j)" "twf l m' (?ch j)"
      "view l m' (?ch j) vb = view l m (?ch j) vb"
    if "j < 512" "valid (pte_at m p j)" for j vb
    using tree_cong[OF _ sub[OF that]] view_cong[OF _ sub[OF that]] wf that by simp_all
  have vj: "valid (pte_at m' p j) \<longleftrightarrow> j = i \<or> valid (pte_at m p j)" if "j < 512" for j
    using ej[OF that] ei by (cases "j = i") simp_all
  have pj: "tpages l m' (PTE2PA (pte_at m' p j)) =
      (if j = i then {pg} else tpages l m (?ch j))" if "j < 512" "valid (pte_at m' p j)" for j
    using that vj[OF that(1)] ch Z(2) ej other(1)[of j] by auto
  have "{j. j < 512 \<and> valid (pte_at m' p j)} = insert i {j. j < 512 \<and> valid (pte_at m p j)}"
    using i(1) vj by auto
  moreover have "(\<Union>j \<in> {j. j < 512 \<and> valid (pte_at m p j)}. tpages l m' (PTE2PA (pte_at m' p j))) =
      (\<Union>j \<in> {j. j < 512 \<and> valid (pte_at m p j)}. tpages l m (?ch j))"
    using i(2) pj vj by (intro SUP_cong) auto
  ultimately show "tpages (Suc l) m' p = insert pg (tpages (Suc l) m p)"
    using ch Z(2) by auto
  have each: "pte_at m' p j AND 14 = 0 \<and> twf l m' (PTE2PA (pte_at m' p j))
      \<and> p \<notin> tpages l m' (PTE2PA (pte_at m' p j))" if "j < 512" "valid (pte_at m' p j)" for j
  proof (cases "j = i")
    case True
    then show ?thesis using ei ch Z(1,2) ne table_pte_flags[of pg] by simp
  next
    case False
    then show ?thesis using wf that vj[OF that(1)] ej[OF that(1)] other[OF that(1)] by simp
  qed
  have disj: "tpages l m' (PTE2PA (pte_at m' p j)) \<inter> tpages l m' (PTE2PA (pte_at m' p k)) = {}"
    if "j < 512" "k < 512" "j \<noteq> k" "valid (pte_at m' p j)" "valid (pte_at m' p k)" for j k
  proof -
    have "pg \<notin> tpages l m (?ch n)" if "n < 512" "valid (pte_at m p n)" for n
      using pg(2) tpages_child[OF that, of l] by blast
    moreover have "tpages l m (?ch j) \<inter> tpages l m (?ch k) = {}" if "j \<noteq> i" "k \<noteq> i"
      using wf that \<open>j < 512\<close> \<open>k < 512\<close> \<open>j \<noteq> k\<close> vj \<open>valid (pte_at m' p j)\<close> \<open>valid (pte_at m' p k)\<close>
      by simp
    ultimately show ?thesis using pj that vj by auto
  qed
  show "twf (Suc l) m' p" using al each disj by simp
  show "view (Suc l) m' p va = view (Suc l) m p va"
  proof (cases "px (Suc l) va = i")
    case True
    then show ?thesis using i(2) ei ch Z(3) by (simp add: view_def Let_def)
  next
    case False
    then show ?thesis
      using ej[OF px_less False] other(3)[OF px_less] by (auto simp: view_def Let_def)
  qed
qed

section \<open>The walk\<close>

lemma walk_loop_lookup:
  "walk_loop h l p va False s = Ok (case slot l (mem s) p va of None \<Rightarrow> 0 | Some a \<Rightarrow> a, s)"
  by (induction l arbitrary: p) (simp_all add: Let_def load_pte_addr)

text \<open>The state in which the tables below \<open>p\<close> form a tree of allocated pages.\<close>

definition tree_ok :: "u64 list \<Rightarrow> nat \<Rightarrow> u64 \<Rightarrow> 'a memst_scheme \<Rightarrow> bool" where
  "tree_ok ps l p s \<longleftrightarrow> twf l (mem s) p \<and> set ps \<inter> tpages l (mem s) p = {}
     \<and> (\<forall>q \<in> tpages l (mem s) p. phys_page s q)"

lemma phys_page_aligned: "phys_page s p \<Longrightarrow> aligned p"
  by (simp add: phys_page_def)

lemma pte_addr_nonzero: "phys_page s p \<Longrightarrow> pte_addr p l va \<noteq> 0"
proof -
  assume "phys_page s p"
  then have "unat p < 2281701376" "0 < unat p"
    by (simp_all add: phys_page_def word_less_nat_alt unat_gt_0)
  moreover have "px l va < 512" by simp
  ultimately have "unat p + 8 * px l va < 2281701376 + 8 * 512" by linarith
  then have "unat p + 8 * px l va < 2 ^ 64" by simp
  then have "unat (pte_addr p l va) = unat p + 8 * px l va"
    unfolding pte_addr_px by (rule unat_add_offset)
  with \<open>0 < unat p\<close> show ?thesis by (metis add_gr_0 less_irrefl unat_0)
qed

lemma slot_nonzero:
  assumes "tree_ok ps l p s" and "slot l (mem s) p va = Some a"
  shows "a \<noteq> 0"
proof -
  obtain q where "q \<in> tpages l (mem s) p" "a = pte_addr q 0 va" using slot_page[OF assms(2)] by blast
  with assms(1) show ?thesis using pte_addr_nonzero[of s q 0 va] by (simp add: tree_ok_def)
qed

text \<open>What a walk that may allocate does: it takes the pages \<open>new\<close> from the free list, hangs them into
  the tree, leaves every mapping as it was, and returns the leaf entry unless memory ran out. It needs
  at most one page per level.\<close>

definition walked ::
  "nat \<Rightarrow> u64 list \<Rightarrow> nat \<Rightarrow> u64 \<Rightarrow> u64 \<Rightarrow> 'a memst_scheme \<Rightarrow> u64 \<Rightarrow> 'a memst_scheme \<Rightarrow> u64 list \<Rightarrow>
   u64 list \<Rightarrow> bool" where
  "walked h ps l p va s a s' new ps' \<longleftrightarrow>
     ps = new @ ps' \<and> mem_ready h ps' s' \<and> mem_only h s s' \<and> tree_ok ps' l p s'
     \<and> tpages l (mem s') p = tpages l (mem s) p \<union> set new
     \<and> (\<forall>vb. view l (mem s') p vb = view l (mem s) p vb)
     \<and> same_off (tpages l (mem s) p \<union> set new) (mem s) (mem s')
     \<and> (if a = 0 then ps' = [] \<and> length new < l
        else slot l (mem s') p va = Some a \<and> length new \<le> l)"

lemma ready_phys: "mem_ready h ps s \<Longrightarrow> q \<in> set ps \<Longrightarrow> phys_page s q"
  by (simp add: mem_ready_def kmem_ok_def)

lemma ready_distinct: "mem_ready h ps s \<Longrightarrow> distinct ps"
  by (simp add: mem_ready_def kmem_ok_def)

text \<open>Lifting a walk of the child at entry \<open>i\<close> to the table above it.\<close>

lemma walked_child:
  assumes tree: "tree_ok ps (Suc l) p s" and ready: "mem_ready h ps s"
    and val: "valid (pte_at (mem s) p (px (Suc l) va))"
    and W: "walked h ps l (PTE2PA (pte_at (mem s) p (px (Suc l) va))) va s a s' new ps'"
  shows "walked h ps (Suc l) p va s a s' new ps'"
proof -
  let ?i = "px (Suc l) va"
  define c where "c = PTE2PA (pte_at (mem s) p ?i)"
  have wf: "twf (Suc l) (mem s) p" and disj: "set ps \<inter> tpages (Suc l) (mem s) p = {}"
    using tree by (simp_all add: tree_ok_def)
  note W' = W[unfolded walked_def, folded c_def]
  have new: "set new \<subseteq> set ps" using W' by auto
  have N: "set new \<inter> tpages (Suc l) (mem s) p = {}" "\<forall>q \<in> set new. aligned q"
    using disj new ready_phys[OF ready] by (auto simp: phys_page_def)
  have H: "same_off (tpages l (mem s) c \<union> set new) (mem s) (mem s')" "twf l (mem s') c"
    "tpages l (mem s') c = tpages l (mem s) c \<union> set new"
    using W' by (simp_all add: tree_ok_def)
  note G = grow_child[OF wf px_less val c_def N H]
  have v: "view (Suc l) (mem s) p vb = view l (mem s) c vb" if "px (Suc l) vb = ?i" for vb
    using that val by (simp add: view_def Let_def c_def)
  have views: "view (Suc l) (mem s') p vb = view (Suc l) (mem s) p vb" for vb
    using G(4)[of vb] W' v[of vb] by auto
  have off: "same_off (tpages (Suc l) (mem s) p \<union> set new) (mem s) (mem s')"
    using H(1) tpages_child[OF px_less val, of l] by (auto simp: c_def intro: same_off_mono)
  have "set ps' \<inter> set new = {}" using ready_distinct[OF ready] W' by auto
  moreover have "set ps' \<inter> tpages (Suc l) (mem s) p = {}" using disj W' by auto
  moreover have "phys_page s' q" if "q \<in> tpages (Suc l) (mem s) p \<union> set new" for q
  proof -
    have "phys_page s q"
      using that tree new ready_phys[OF ready] unfolding tree_ok_def by blast
    then show ?thesis using W' mem_only_lock_state(3) by blast
  qed
  ultimately have "tree_ok ps' (Suc l) p s'"
    using G(1) unfolding tree_ok_def G(2) by blast
  moreover have "if a = 0 then ps' = [] \<and> length new < Suc l
      else slot (Suc l) (mem s') p va = Some a \<and> length new \<le> Suc l"
    using G(3)[of va] W' by (simp split: if_splits)
  ultimately show ?thesis
    using W' G(2) views off unfolding walked_def by blast
qed

text \<open>Extending a walk that first hung the page \<open>pg\<close> into the entry it needed.\<close>

lemma hang_table:
  assumes tree: "tree_ok (pg # ps) (Suc l) p s" and ready: "mem_ready h (pg # ps) s"
    and inv: "\<not> valid (pte_at (mem s) p (px (Suc l) va))"
    and t: "mem_ready h ps t" "mem_only h s t" "same_off {pg} (mem s) (mem t)"
    and u: "u = t\<lparr>mem := store64 (pte_addr p (Suc l) va) (PA2PTE pg OR 1) (memset pg 0 4096 (mem t))\<rparr>"
  shows hung_tree: "tree_ok ps l pg u" and hung_ready: "mem_ready h ps u"
    and hung_walked: "walked h ps l pg va u a s' new ps' \<Longrightarrow>
      walked h (pg # ps) (Suc l) p va s a s' (pg # new) ps'"
proof -
  let ?i = "px (Suc l) va" and ?mz = "memset pg 0 4096 (mem t)"
  have wf: "twf (Suc l) (mem s) p" and out: "pg \<notin> tpages (Suc l) (mem s) p"
    and disj: "set ps \<inter> tpages (Suc l) (mem s) p = {}"
    using tree unfolding tree_ok_def by auto
  have phys: "phys_page s pg" and fresh: "pg \<notin> set ps"
    using ready_phys[OF ready] ready_distinct[OF ready] by simp_all
  have al: "aligned pg" using phys by (rule phys_page_aligned)
  have s1: "same_off {pg} (mem t) ?mz" by (simp add: same_off_def memset_apply in_page_def)
  have mz: "same_off {pg} (mem s) ?mz" by (rule same_off_trans[OF t(3) s1])
  have z: "\<forall>b. in_page pg b \<longrightarrow> ?mz b = 0" by (simp add: memset_apply in_page_def)
  have mu: "mem u = store64 (p + of_nat (8 * ?i)) (PA2PTE pg OR 1) ?mz"
    by (simp add: u pte_addr_px)
  note A = add_table[OF wf px_less inv al out mz z mu]
  have only: "mem_only h s u" using t(2) by (simp add: u)
  have phys_u: "phys_page u q" if "q \<in> insert pg (tpages (Suc l) (mem s) p)" for q
    using that tree phys mem_only_lock_state(3)[OF only] unfolding tree_ok_def by blast
  have tree_u: "tree_ok ps (Suc l) p u"
    unfolding tree_ok_def A(2) using A(1) disj fresh phys_u by blast
  have s2: "same_off {p} ?mz (mem u)"
    unfolding mu by (rule store64_same_off) (rule cell_in_page[OF twf_root[OF wf] px_less])
  have off_t: "same_off {p, pg} (mem t) (mem u)"
    by (rule same_off_trans[OF same_off_mono[OF s1] same_off_mono[OF s2]]) simp_all
  have als: "\<forall>q \<in> set ps. aligned q" using ready_phys[OF ready] by (auto simp: phys_page_def)
  moreover have "{p, pg} \<inter> set ps = {}" using fresh disj tpages_self[of p "Suc l" "mem s"] by blast
  ultimately have "same_on (set ps) (mem t) (mem u)"
    using al twf_root[OF wf] by (intro same_off_on[OF off_t]) simp_all
  then have "flist (mem u) (freelist t) ps"
    using t(1) flist_cong[of "mem t" "freelist t" ps "mem u"] als
    by (auto simp: mem_ready_def kmem_ok_def same_on_def)
  then show ready_u: "mem_ready h ps u"
    using t(1) by (simp add: mem_ready_def kmem_ok_def u phys_page_def)
  show tree_pg: "tree_ok ps l pg u"
    unfolding tree_ok_def A(7) using A(6) fresh phys_u[of pg] by simp
  have val: "valid (pte_at (mem u) p ?i)" and ch: "PTE2PA (pte_at (mem u) p ?i) = pg"
    unfolding A(3) using PTE2PA_PA2PTE[OF al, of 1] by simp_all
  assume W0: "walked h ps l pg va u a s' new ps'"
  then have len: "(a = 0 \<longrightarrow> length new < l) \<and> (a \<noteq> 0 \<longrightarrow> length new \<le> l)"
    by (simp add: walked_def split: if_splits)
  from W0 have "walked h ps (Suc l) p va u a s' new ps'"
    using walked_child[OF tree_u ready_u val] ch by simp
  note W' = this[unfolded walked_def A(2)]
  have "same_off (tpages (Suc l) (mem s) p \<union> set (pg # new)) (mem s) (mem u)"
    by (rule same_off_mono[OF A(4)]) simp
  moreover have "same_off (tpages (Suc l) (mem s) p \<union> set (pg # new)) (mem u) (mem s')"
    using W' by (simp del: tpages.simps)
  ultimately have "same_off (tpages (Suc l) (mem s) p \<union> set (pg # new)) (mem s) (mem s')"
    by (rule same_off_trans)
  then show "walked h (pg # ps) (Suc l) p va s a s' (pg # new) ps'"
    using W' mem_only_trans[OF only] A(5) len unfolding walked_def
    by (simp del: tpages.simps slot.simps split: if_splits)
qed

lemma walk_loop_alloc:
  assumes "tree_ok ps l p s" and "mem_ready h ps s"
  shows "\<exists>a s' new ps'. walk_loop h l p va True s = Ok (a, s') \<and> walked h ps l p va s a s' new ps'"
  using assms
proof (induction l arbitrary: p s ps)
  case 0
  have "phys_page s p" using "0.prems"(1) by (simp add: tree_ok_def)
  then have "walked h ps 0 p va s (pte_addr p 0 va) s [] ps"
    using "0.prems" pte_addr_nonzero[of s p 0 va] by (simp add: walked_def)
  then show ?case by auto
next
  case (Suc l)
  let ?i = "px (Suc l) va"
  show ?case
  proof (cases "valid (pte_at (mem s) p ?i)")
    case True
    let ?c = "PTE2PA (pte_at (mem s) p ?i)"
    have "tree_ok ps l ?c s"
      using Suc.prems(1) True tpages_child[OF px_less True, of l] by (auto simp: tree_ok_def)
    from Suc.IH[OF this Suc.prems(2)] obtain a s' new ps'
      where W: "walk_loop h l ?c va True s = Ok (a, s')" "walked h ps l ?c va s a s' new ps'" by blast
    have "walk_loop h (Suc l) p va True s = Ok (a, s')"
      using W(1) True by (simp add: Let_def load_pte_addr)
    then show ?thesis using walked_child[OF Suc.prems True W(2)] by blast
  next
    case False
    show ?thesis
    proof (cases ps)
      case Nil
      then have k: "kalloc h s = Ok (0, touch h s)" using kalloc_null Suc.prems(2) by blast
      have "mem_only h s (touch h s)" by simp
      then have "walked h ps (Suc l) p va s 0 (touch h s) [] []"
        using Nil Suc.prems mem_only_lock_state(3)[of h s "touch h s"]
        by (simp add: walked_def tree_ok_def mem_ready_def del: tpages.simps twf.simps)
      then show ?thesis using k False by (auto simp: Let_def load_pte_addr)
    next
      case (Cons pg qs)
      obtain t where t: "kalloc h s = Ok (pg, t)" "mem_ready h qs t" "mem_only h s t"
          "\<forall>b. \<not> in_page pg b \<longrightarrow> mem t b = mem s b"
        using kalloc_page[of h pg qs s] Suc.prems(2) Cons by blast
      have off: "same_off {pg} (mem s) (mem t)" using t(4) by (simp add: same_off_def)
      define u where "u = t\<lparr>mem :=
        store64 (pte_addr p (Suc l) va) (PA2PTE pg OR 1) (memset pg 0 4096 (mem t))\<rparr>"
      have nz: "pg \<noteq> 0" using ready_phys[of h ps s pg] Suc.prems(2) Cons by (simp add: phys_page_def)
      have step: "walk_loop h (Suc l) p va True s = walk_loop h l pg va True u"
        using False t(1) nz by (simp add: Let_def load_pte_addr u_def)
      note T = hang_table[OF Suc.prems[unfolded Cons] False t(2,3) off u_def]
      from Suc.IH[OF T(1,2)] obtain a s' new ps' where "walk_loop h l pg va True u = Ok (a, s')"
          "walked h qs l pg va u a s' new ps'" by blast
      then show ?thesis using T(3)[of a s' new ps'] step Cons by auto
    qed
  qed
qed

end
