(* ===== verification/Mapping.thy ===== *)
theory Mapping
  imports Pagetable
begin

text \<open>
  What \<^verbatim>\<open>mappages\<close>, \<^verbatim>\<open>walkaddr\<close> and \<^verbatim>\<open>uvmcreate\<close> do to an address space, over the tree view of theory
  \<^verbatim>\<open>Pagetable\<close>.
\<close>

section \<open>One page per triple of indices\<close>

lemma bit_PGROUNDDOWN: "bit (PGROUNDDOWN a) n \<longleftrightarrow> 12 \<le> n \<and> bit a n"
proof -
  have "PGROUNDDOWN a = a AND NOT (mask 12)"
    by (simp add: PGROUNDDOWN_def mask_eq_exp_minus_1)
  then show ?thesis
    using bit_imp_le_length[of a n] by (auto simp: bit_and_iff bit_not_iff bit_mask_iff)
qed

lemma PX_take_bit: "PX l va = take_bit 9 (drop_bit (12 + 9 * l) va)"
  by (simp add: PX_def PXSHIFT_def take_bit_eq_mask mask_eq_exp_minus_1)

lemma px_eq_iff: "px l va = px l vb \<longleftrightarrow> PX l va = PX l vb"
  by (simp add: px_def word_unat_eq_iff)

lemma bit_below_MAXVA: "va < MAXVA \<Longrightarrow> bit va n \<Longrightarrow> n < 38"
proof (rule ccontr)
  assume "va < MAXVA" "bit va n" "\<not> n < 38"
  have "va < 2 ^ 38" using \<open>va < MAXVA\<close> by simp
  then have "take_bit 38 va = va"
    by (simp add: word_less_nat_alt take_bit_eq_mod word_unat_eq_iff unat_mod)
  then show False using \<open>bit va n\<close> \<open>\<not> n < 38\<close> by (metis bit_take_bit_iff)
qed

lemma same_page_iff:
  assumes "va < MAXVA" and "vb < MAXVA"
  shows "(\<forall>k \<le> 2. px k va = px k vb) \<longleftrightarrow> PGROUNDDOWN va = PGROUNDDOWN vb"
proof
  assume same: "\<forall>k \<le> 2. px k va = px k vb"
  show "PGROUNDDOWN va = PGROUNDDOWN vb"
  proof (rule bit_word_eqI)
    fix n assume "n < LENGTH(64)"
    have "bit va n = bit vb n" if "12 \<le> n" "n < 39"
    proof -
      define k where "k = (n - 12) div 9"
      have k: "k \<le> 2" "12 + 9 * k \<le> n" "n - (12 + 9 * k) < 9"
        using that by (auto simp: k_def)
      have "bit v n \<longleftrightarrow> bit (PX k v) (n - (12 + 9 * k))" for v
        using k by (simp add: PX_take_bit bit_take_bit_iff bit_drop_bit_eq)
      then show ?thesis using same k(1) by (simp add: px_eq_iff)
    qed
    then show "bit (PGROUNDDOWN va) n = bit (PGROUNDDOWN vb) n"
      using bit_below_MAXVA[OF assms(1), of n] bit_below_MAXVA[OF assms(2), of n]
      by (cases "n < 39") (auto simp: bit_PGROUNDDOWN)
  qed
next
  assume eq: "PGROUNDDOWN va = PGROUNDDOWN vb"
  have bits: "bit va n = bit vb n" if "12 \<le> n" for n
    using arg_cong[OF eq, of "\<lambda>w. bit w n"] that by (simp add: bit_PGROUNDDOWN)
  have "PX k va = PX k vb" for k
    by (rule bit_word_eqI) (auto simp: PX_take_bit bit_take_bit_iff bit_drop_bit_eq bits)
  then show "\<forall>k \<le> 2. px k va = px k vb" by (simp add: px_def)
qed

section \<open>The address space of a page table\<close>

text \<open>The leaf entry of an address in the three-level table \<open>pt\<close>.\<close>

definition leaf :: "u64 \<Rightarrow> u64 \<Rightarrow> 'a memst_scheme \<Rightarrow> u64" where
  "leaf pt va s = view 2 (mem s) pt va"

text \<open>A page table whose table pages are allocated, with the free pages \<open>ps\<close>.\<close>

definition pt_ok :: "nat \<Rightarrow> u64 list \<Rightarrow> u64 \<Rightarrow> 'a memst_scheme \<Rightarrow> bool" where
  "pt_ok h ps pt s \<longleftrightarrow> tree_ok ps 2 pt s \<and> mem_ready h ps s"

lemma walk_lookup:
  "va < MAXVA \<Longrightarrow>
   walk h pt va False s = Ok (case slot 2 (mem s) pt va of None \<Rightarrow> 0 | Some a \<Rightarrow> a, s)"
  by (simp add: walk_def walk_loop_lookup not_le[symmetric])

lemma lookup_leaf:
  assumes "pt_ok h ps pt s" and "va < MAXVA"
  obtains (unmapped) "walk h pt va False s = Ok (0, s)" "leaf pt va s = 0"
  | (table) a where "walk h pt va False s = Ok (a, s)" "a \<noteq> 0" "load64 (mem s) a = leaf pt va s"
      "slot 2 (mem s) pt va = Some a"
proof (cases "slot 2 (mem s) pt va")
  case None
  then show ?thesis
    using unmapped walk_lookup[OF assms(2), of h pt s] by (simp add: leaf_def view_def)
next
  case (Some a)
  then have "a \<noteq> 0" using slot_nonzero[of ps 2 pt s va a] assms(1) by (simp add: pt_ok_def)
  then show ?thesis
    using table Some walk_lookup[OF assms(2), of h pt s] by (simp add: leaf_def view_def)
qed

lemma walkaddr_leaf:
  assumes "pt_ok h ps pt s" and "va < MAXVA"
  shows "walkaddr h pt va s =
    Ok (if valid (leaf pt va s) \<and> leaf pt va s AND PTE_U \<noteq> 0 then PTE2PA (leaf pt va s) else 0, s)"
  using assms(1) assms(2)
  by (rule lookup_leaf) (use assms(2) in \<open>auto simp: walkaddr_def\<close>)

lemma ismapped_leaf:
  assumes "pt_ok h ps pt s" and "va < MAXVA"
  shows "ismapped h pt va s = Ok (valid (leaf pt va s), s)"
  using assms by (rule lookup_leaf) (auto simp: ismapped_def)

text \<open>The step of the mapping loop: a walk that may allocate, then a store into the leaf entry.\<close>

lemma walk_alloc:
  assumes "pt_ok h ps pt s" and "va < MAXVA"
  obtains (full) s' where "walk h pt va True s = Ok (0, s')" "pt_ok h [] pt s'" "mem_only h s s'"
      "\<And>vb. leaf pt vb s' = leaf pt vb s" "length ps < 2"
  | (entry) a s' new ps' where "walk h pt va True s = Ok (a, s')" "a \<noteq> 0" "pt_ok h ps' pt s'"
      "mem_only h s s'" "\<And>vb. leaf pt vb s' = leaf pt vb s" "ps = new @ ps'"
      "slot 2 (mem s') pt va = Some a" "load64 (mem s') a = leaf pt va s"
proof -
  obtain a s' new ps' where w: "walk_loop h 2 pt va True s = Ok (a, s')"
      "walked h ps 2 pt va s a s' new ps'"
    using walk_loop_alloc[of ps 2 pt s h va] assms(1) by (auto simp: pt_ok_def)
  have "walk h pt va True s = Ok (a, s')" using w(1) assms(2) by (simp add: walk_def not_le[symmetric])
  moreover have "leaf pt vb s' = leaf pt vb s" for vb using w(2) by (simp add: leaf_def walked_def)
  moreover have "load64 (mem s') a = leaf pt va s" if "slot 2 (mem s') pt va = Some a"
    using that calculation(2)[of va] by (simp add: leaf_def view_def)
  ultimately show thesis
    using w(2) full[of s'] entry[of a s' ps' new]
    by (cases "a = 0") (auto simp: walked_def pt_ok_def)
qed

lemma ready_same_off:
  assumes "mem_ready h ps s" and "same_off S (mem s) m" and "\<forall>q \<in> S. aligned q" and "S \<inter> set ps = {}"
  shows "mem_ready h ps (s\<lparr>mem := m\<rparr>)"
proof -
  have al: "\<forall>q \<in> set ps. aligned q" using ready_phys[OF assms(1)] by (auto simp: phys_page_def)
  have "same_on (set ps) (mem s) m" by (rule same_off_on[OF assms(2,3) al assms(4)])
  then have "flist m (freelist s) ps"
    using assms(1) al flist_cong[of "mem s" "freelist s" ps m]
    by (auto simp: mem_ready_def kmem_ok_def same_on_def)
  then show ?thesis using assms(1) by (simp add: mem_ready_def kmem_ok_def phys_page_def)
qed

lemma store_entry:
  assumes "pt_ok h ps pt s" and "slot 2 (mem s) pt va = Some a" and "va < MAXVA"
  shows "pt_ok h ps pt (s\<lparr>mem := store64 a v (mem s)\<rparr>)"
    and "vb < MAXVA \<Longrightarrow> leaf pt vb (s\<lparr>mem := store64 a v (mem s)\<rparr>) =
      (if PGROUNDDOWN vb = PGROUNDDOWN va then v else leaf pt vb s)"
    and "\<And>u. slot 2 (store64 a v (mem s)) pt u = slot 2 (mem s) pt u"
proof -
  have T: "tree_ok ps 2 pt s" and R: "mem_ready h ps s" using assms(1) by (simp_all add: pt_ok_def)
  have wf: "twf 2 (mem s) pt" using T by (simp add: tree_ok_def)
  note S = store_leaf[OF wf assms(2), of v]
  have "mem_ready h ps (s\<lparr>mem := store64 a v (mem s)\<rparr>)"
    using S T twf_aligned[OF wf] by (intro ready_same_off[OF R]) (auto simp: tree_ok_def)
  moreover have "tree_ok ps 2 pt (s\<lparr>mem := store64 a v (mem s)\<rparr>)"
    using S T by (simp add: tree_ok_def phys_page_def)
  ultimately show "pt_ok h ps pt (s\<lparr>mem := store64 a v (mem s)\<rparr>)" by (simp add: pt_ok_def)
  show "leaf pt vb (s\<lparr>mem := store64 a v (mem s)\<rparr>) =
      (if PGROUNDDOWN vb = PGROUNDDOWN va then v else leaf pt vb s)" if "vb < MAXVA"
    using S same_page_iff[OF that assms(3)] by (simp add: leaf_def)
  show "\<And>u. slot 2 (store64 a v (mem s)) pt u = slot 2 (mem s) pt u" using S by simp
qed

section \<open>mappages\<close>

text \<open>The leaf entry that maps the page of \<open>vb\<close> when the range from \<open>a\<close> on is mapped to \<open>pa\<close>.\<close>

definition mapped_pte :: "u64 \<Rightarrow> u64 \<Rightarrow> i32 \<Rightarrow> u64 \<Rightarrow> u64" where
  "mapped_pte a pa perm vb = PA2PTE (pa + (PGROUNDDOWN vb - a)) OR scast perm OR PTE_V"

text \<open>In \<open>s'\<close> the pages from \<open>a\<close> up to \<open>k\<close> are mapped to \<open>pa\<close>; the rest is as in \<open>s\<close>.\<close>

definition maps_range ::
  "u64 \<Rightarrow> u64 \<Rightarrow> u64 \<Rightarrow> u64 \<Rightarrow> i32 \<Rightarrow> 'a memst_scheme \<Rightarrow> 'a memst_scheme \<Rightarrow> bool" where
  "maps_range pt a k pa perm s s' \<longleftrightarrow> (\<forall>vb < MAXVA.
     leaf pt vb s' = (if a \<le> PGROUNDDOWN vb \<and> PGROUNDDOWN vb < k then mapped_pte a pa perm vb
                      else leaf pt vb s))"

lemma aligned_step:
  assumes "aligned a" and "aligned b" and "a \<le> b" and "a < MAXVA"
  shows "a = b \<or> a + PGSIZE \<le> b"
proof -
  obtain i j where "unat a = 4096 * i" "unat b = 4096 * j"
    using assms(1,2) by (auto simp: aligned_unat mod_eq_0_iff_dvd dvd_def)
  with assms(3) next_va[OF assms(4)] show ?thesis
    by (auto simp: word_le_nat_alt word_unat_eq_iff)
qed

lemma PGROUNDDOWN_below: "va < MAXVA \<Longrightarrow> PGROUNDDOWN va < MAXVA"
  using PGROUNDDOWN_le[of va] by (rule order_le_less_trans)

lemma maps_range_first:
  assumes ok: "aligned a" "a < MAXVA"
    and first: "\<And>vb. vb < MAXVA \<Longrightarrow> leaf pt vb t =
      (if PGROUNDDOWN vb = a then PA2PTE pa OR scast perm OR 1 else leaf pt vb s)"
    and rest: "maps_range pt (a + PGSIZE) k (pa + PGSIZE) perm t s'" and k: "a + PGSIZE \<le> k"
  shows "maps_range pt a k pa perm s s'"
  unfolding maps_range_def
proof (intro allI impI)
  fix vb assume vb: "vb < MAXVA"
  let ?b = "PGROUNDDOWN vb"
  have n: "unat (a + PGSIZE) = unat a + 4096" by (rule next_va[OF ok(2)])
  have L: "leaf pt vb s' = (if a + PGSIZE \<le> ?b \<and> ?b < k then mapped_pte (a + PGSIZE) (pa + PGSIZE) perm vb
      else leaf pt vb t)" using rest vb by (simp add: maps_range_def)
  have "mapped_pte (a + PGSIZE) (pa + PGSIZE) perm vb = mapped_pte a pa perm vb"
    by (simp add: mapped_pte_def)
  moreover have "a \<le> ?b \<longleftrightarrow> ?b = a \<or> a + PGSIZE \<le> ?b"
    using aligned_step[OF ok(1) aligned_PGROUNDDOWN _ ok(2), of vb] n by (auto simp: word_le_nat_alt)
  moreover have "\<not> a + PGSIZE \<le> a" "a < k"
    using n k by (auto simp: word_le_nat_alt word_less_nat_alt)
  ultimately show "leaf pt vb s' = (if a \<le> ?b \<and> ?b < k then mapped_pte a pa perm vb else leaf pt vb s)"
    unfolding L first[OF vb] by (auto simp: mapped_pte_def)
qed

text \<open>The outcome of mapping the pages from \<open>a\<close> to \<open>lst\<close>: all of them, or those before some \<open>k\<close> when
  memory for page tables ran out.\<close>

definition map_outcome ::
  "nat \<Rightarrow> u64 list \<Rightarrow> u64 \<Rightarrow> u64 \<Rightarrow> u64 \<Rightarrow> u64 \<Rightarrow> i32 \<Rightarrow> 'a memst_scheme \<Rightarrow> i32 \<Rightarrow> 'a memst_scheme \<Rightarrow>
   bool" where
  "map_outcome h ps pt a lst pa perm s r s' \<longleftrightarrow> (\<exists>new ps' k.
     ps = new @ ps' \<and> pt_ok h ps' pt s' \<and> mem_only h s s' \<and> maps_range pt a k pa perm s s'
     \<and> (r = 0 \<and> k = lst + PGSIZE \<or> r = - 1 \<and> a \<le> k \<and> k \<le> lst \<and> ps' = []))"

lemma mappages_loop_outcome:
  assumes "pt_ok h ps pt s" and "aligned a" and "aligned lst" and "a \<le> lst" and "lst < MAXVA"
    and "\<And>vb. a \<le> vb \<Longrightarrow> vb \<le> lst \<Longrightarrow> aligned vb \<Longrightarrow> \<not> valid (leaf pt vb s)"
  shows "\<exists>r s'. mappages_loop h pt a lst pa perm s = Ok (r, s')
    \<and> map_outcome h ps pt a lst pa perm s r s'"
  using assms
proof (induction h pt a lst pa perm s arbitrary: ps rule: mappages_loop.induct)
  case (1 h pt a lst pa perm s)
  have a: "a < MAXVA" using "1.prems"(4,5) by (rule order_le_less_trans)
  from "1.prems"(1) a show ?case
  proof (cases rule: walk_alloc)
    case (full s')
    then have "maps_range pt a a pa perm s s'" by (auto simp: maps_range_def)
    then have "map_outcome h ps pt a lst pa perm s (- 1) s'"
      using full "1.prems"(4) unfolding map_outcome_def by auto
    then show ?thesis using full(1) by (simp add: mappages_loop.simps)
  next
    case (entry e t new ps')
    let ?u = "t\<lparr>mem := store64 e (PA2PTE pa OR scast perm OR 1) (mem t)\<rparr>"
    have inv: "\<not> valid (load64 (mem t) e)" using "1.prems"(2,4,6) entry(8) by simp
    note S = store_entry[OF entry(3,7) a, where v = "PA2PTE pa OR scast perm OR 1"]
    have first: "leaf pt vb ?u =
        (if PGROUNDDOWN vb = a then PA2PTE pa OR scast perm OR 1 else leaf pt vb s)" if "vb < MAXVA" for vb
      using S(2)[OF that] entry(5)[of vb] PGROUNDDOWN_aligned[OF "1.prems"(2)] by simp
    have only: "mem_only h s ?u" using entry(4) by simp
    show ?thesis
    proof (cases "a = lst")
      case True
      have n: "unat (a + PGSIZE) = unat a + 4096" by (rule next_va[OF a])
      have "maps_range pt (a + PGSIZE) (a + PGSIZE) (pa + PGSIZE) perm ?u ?u"
        by (auto simp: maps_range_def)
      then have "maps_range pt a (lst + PGSIZE) pa perm s ?u"
        using maps_range_first[OF "1.prems"(2) a first] True by simp
      then have "map_outcome h ps pt a lst pa perm s 0 ?u"
        using S(1) only entry(6) unfolding map_outcome_def by blast
      moreover have "mappages_loop h pt a lst pa perm s = Ok (0, ?u)"
        using True entry(1,2) inv by (subst mappages_loop.simps) simp
      ultimately show ?thesis by blast
    next
      case False
      then have le: "a + PGSIZE \<le> lst" using aligned_step[OF "1.prems"(2,3,4) a] by simp
      have n: "unat (a + PGSIZE) = unat a + 4096" by (rule next_va[OF a])
      have al: "aligned (a + PGSIZE)" using "1.prems"(2) n by (auto simp: aligned_unat)
      have un: "\<not> valid (leaf pt vb ?u)" if "a + PGSIZE \<le> vb" "vb \<le> lst" "aligned vb" for vb
      proof -
        have "vb < MAXVA" using that(2) "1.prems"(5) by (rule order_le_less_trans)
        moreover have "vb \<noteq> a" "a \<le> vb" using that(1) n by (auto simp: word_le_nat_alt)
        ultimately show ?thesis
          using first[of vb] "1.prems"(6)[of vb] that PGROUNDDOWN_aligned[OF that(3)] by simp
      qed
      have loop: "mappages_loop h pt a lst pa perm s =
          mappages_loop h pt (a + PGSIZE) lst (pa + PGSIZE) perm ?u"
        using False entry(1,2) inv by (subst mappages_loop.simps) simp
      obtain r s' where r: "mappages_loop h pt (a + PGSIZE) lst (pa + PGSIZE) perm ?u = Ok (r, s')"
          "map_outcome h ps' pt (a + PGSIZE) lst (pa + PGSIZE) perm ?u r s'"
        using "1.IH"[OF entry(1) refl entry(2) _ refl False S(1) al "1.prems"(3) le "1.prems"(5)] inv un
        by blast
      obtain new' ps'' k where k: "ps' = new' @ ps''" "pt_ok h ps'' pt s'" "mem_only h ?u s'"
          "maps_range pt (a + PGSIZE) k (pa + PGSIZE) perm ?u s'"
          "r = 0 \<and> k = lst + PGSIZE \<or> r = - 1 \<and> a + PGSIZE \<le> k \<and> k \<le> lst \<and> ps'' = []"
        using r(2) unfolding map_outcome_def by blast
      have ge: "a + PGSIZE \<le> k"
        using k(5) le next_va[OF "1.prems"(5)] n by (auto simp: word_le_nat_alt)
      have "maps_range pt a k pa perm s s'"
        by (rule maps_range_first[OF "1.prems"(2) a first k(4) ge])
      moreover have "a \<le> k" using ge n by (simp add: word_le_nat_alt)
      moreover have "ps = (new @ new') @ ps''" using entry(6) k(1) by simp
      ultimately have "map_outcome h ps pt a lst pa perm s r s'"
        using k(2,5) mem_only_trans[OF only k(3)] unfolding map_outcome_def by blast
      then show ?thesis using loop r(1) by auto
    qed
  qed
qed

text \<open>The range of addresses that a call maps.\<close>

lemma range_facts:
  assumes "aligned va" and "aligned sz" and "sz \<noteq> 0" and "unat va + unat sz \<le> unat MAXVA"
  shows "va \<le> va + sz - PGSIZE" and "va + sz - PGSIZE < MAXVA" and "aligned (va + sz - PGSIZE)"
    and "unat (va + sz - PGSIZE) = unat va + unat sz - 4096"
proof -
  obtain i j where ij: "unat va = 4096 * i" "unat sz = 4096 * j"
    using assms(1,2) by (auto simp: aligned_unat mod_eq_0_iff_dvd dvd_def)
  have j: "0 < j" using assms(3) ij(2) by (metis gr0I mult_0_right unat_0_iff)
  have le: "unat va + unat sz \<le> 274877906944" using assms(4) by simp
  have s: "unat (va + sz) = unat va + unat sz" using le by (simp add: unat_word_ariths)
  have "4096 \<le> unat va + unat sz" using ij j by simp
  then have "unat (va + sz - PGSIZE) = unat (va + sz) - 4096"
    by (subst unat_sub) (simp_all add: word_le_nat_alt s)
  then show u: "unat (va + sz - PGSIZE) = unat va + unat sz - 4096" using s by simp
  show "va \<le> va + sz - PGSIZE" using u ij j by (simp add: word_le_nat_alt)
  show "va + sz - PGSIZE < MAXVA"
    using u le \<open>4096 \<le> unat va + unat sz\<close> by (simp add: word_less_nat_alt)
  have "unat va + unat sz - 4096 = 4096 * (i + j - 1)" using ij j by (simp add: algebra_simps)
  then show "aligned (va + sz - PGSIZE)" by (simp add: aligned_unat u)
qed

lemma mappages_outcome:
  assumes "pt_ok h ps pt s" and "aligned va" and "aligned sz" and "sz \<noteq> 0"
    and "unat va + unat sz \<le> unat MAXVA"
    and "\<And>vb. aligned vb \<Longrightarrow> va \<le> vb \<Longrightarrow> unat vb < unat va + unat sz \<Longrightarrow> \<not> valid (leaf pt vb s)"
  shows "\<exists>r s'. mappages h pt va sz pa perm s = Ok (r, s')
    \<and> map_outcome h ps pt va (va + sz - PGSIZE) pa perm s r s'"
proof -
  note R = range_facts[OF assms(2-5)]
  have "0 < unat sz" using assms(4) by (simp add: unat_gt_0)
  then have "4096 \<le> unat sz"
    using assms(3) by (auto simp: aligned_unat mod_eq_0_iff_dvd intro: dvd_imp_le)
  then have "unat vb < unat va + unat sz" if "vb \<le> va + sz - PGSIZE" for vb
    using that R(4) by (simp add: word_le_nat_alt)
  then have "\<exists>r s'. mappages_loop h pt va (va + sz - PGSIZE) pa perm s = Ok (r, s')
      \<and> map_outcome h ps pt va (va + sz - PGSIZE) pa perm s r s'"
    using assms(6) by (intro mappages_loop_outcome[OF assms(1,2) R(3,1,2)]) blast
  then show ?thesis using assms(2-4) by (simp add: mappages_def aligned_def)
qed

lemma uvmcreate_ok:
  assumes "mem_ready h (p # ps) s"
  shows "\<exists>s'. uvmcreate h s = Ok (p, s') \<and> pt_ok h ps p s' \<and> mem_only h s s' \<and> (\<forall>va. leaf p va s' = 0)"
proof -
  obtain t where t: "kalloc h s = Ok (p, t)" "mem_ready h ps t" "mem_only h s t"
    using kalloc_page[OF assms] by blast
  let ?u = "t\<lparr>mem := memset p 0 4096 (mem t)\<rparr>"
  have ph: "phys_page s p" "p \<notin> set ps" using assms ready_phys[OF assms] ready_distinct[OF assms] by simp_all
  then have al: "aligned p" "p \<noteq> 0" by (simp_all add: phys_page_def)
  have off: "same_off {p} (mem t) (memset p 0 4096 (mem t))"
    by (simp add: same_off_def memset_apply in_page_def)
  have Z: "twf l (mem ?u) p" "tpages l (mem ?u) p = {p}" "view l (mem ?u) p va = 0" for l va
    by (rule zero_tree[OF al(1)]; simp add: memset_apply in_page_def)+
  have "mem_ready h ps ?u" using al ph(2) by (intro ready_same_off[OF t(2) off]) simp_all
  moreover have "phys_page ?u p" using ph(1) t(3) by (simp add: phys_page_def mem_only_def)
  ultimately have "pt_ok h ps p ?u"
    using Z(1,2)[of 2] ph(2) by (simp add: pt_ok_def tree_ok_def del: memst.simps)
  moreover have "mem_only h s ?u" using t(3) by simp
  moreover have "uvmcreate h s = Ok (p, ?u)" using t(1) al(2) by (simp add: uvmcreate_def)
  ultimately show ?thesis using Z(3) unfolding leaf_def by blast
qed

section \<open>Page tables and the allocator\<close>

lemma pt_same_off:
  assumes "pt_ok h ps pt s" and "mem_only h s s'" and "same_off {p} (mem s) (mem s')" and "aligned p"
    and "p \<notin> tpages 2 (mem s) pt" and "mem_ready h ps' s'" and "set ps' \<subseteq> insert p (set ps)"
  shows "pt_ok h ps' pt s'" and "leaf pt va s' = leaf pt va s"
    and "slot 2 (mem s') pt va = slot 2 (mem s) pt va"
    and "tpages 2 (mem s') pt = tpages 2 (mem s) pt"
proof -
  have T: "tree_ok ps 2 pt s" using assms(1) by (simp add: pt_ok_def)
  have wf: "twf 2 (mem s) pt" using T by (simp add: tree_ok_def)
  have "same_on (tpages 2 (mem s) pt) (mem s) (mem s')"
    using assms(4,5) twf_aligned[OF wf] by (intro same_off_on[OF assms(3)]) auto
  note C = tree_cong[OF wf this] view_cong[OF wf this]
  show "leaf pt va s' = leaf pt va s" using C(2) by (simp add: leaf_def)
  show "slot 2 (mem s') pt va = slot 2 (mem s) pt va" "tpages 2 (mem s') pt = tpages 2 (mem s) pt"
    using C(1) by simp_all
  have "set ps' \<inter> tpages 2 (mem s) pt = {}" using T assms(5,7) unfolding tree_ok_def by blast
  then have "tree_ok ps' 2 pt s'"
    using C(1) T mem_only_lock_state(3)[OF assms(2)] by (simp add: tree_ok_def)
  then show "pt_ok h ps' pt s'" using assms(6) by (simp add: pt_ok_def)
qed

lemma kfree_pt:
  assumes "pt_ok h ps pt s" and "phys_page s p" and "p \<notin> set ps" and "p \<notin> tpages 2 (mem s) pt"
  shows "\<exists>s'. kfree h p s = Ok s' \<and> pt_ok h (p # ps) pt s' \<and> mem_only h s s'
    \<and> (\<forall>va. leaf pt va s' = leaf pt va s) \<and> (\<forall>va. slot 2 (mem s') pt va = slot 2 (mem s) pt va)
    \<and> tpages 2 (mem s') pt = tpages 2 (mem s) pt"
proof -
  have R: "mem_ready h ps s" using assms(1) by (simp add: pt_ok_def)
  obtain s' where s': "kfree h p s = Ok s'" "mem_ready h (p # ps) s'" "mem_only h s s'"
      "\<forall>a. \<not> in_page p a \<longrightarrow> mem s' a = mem s a"
    using kfree_page[OF R assms(2,3)] by blast
  have "same_off {p} (mem s) (mem s')" using s'(4) by (simp add: same_off_def)
  note P = pt_same_off[OF assms(1) s'(3) this phys_page_aligned[OF assms(2)] assms(4) s'(2)]
  show ?thesis using s' P by simp
qed

section \<open>uvmunmap\<close>

text \<open>The physical page behind an address.\<close>

definition frame :: "u64 \<Rightarrow> u64 \<Rightarrow> 'a memst_scheme \<Rightarrow> u64" where
  "frame pt va s = PTE2PA (leaf pt va s)"

text \<open>The mapped pages from \<open>a\<close> up to \<open>lim\<close>, and the condition that the frames behind them are
  allocated pages, one per address, apart from the page tables themselves.\<close>

definition mapped_pages :: "u64 \<Rightarrow> u64 \<Rightarrow> u64 \<Rightarrow> 'a memst_scheme \<Rightarrow> u64 set" where
  "mapped_pages pt a lim s = {v. aligned v \<and> a \<le> v \<and> v < lim \<and> valid (leaf pt v s)}"

definition frames_ok :: "u64 list \<Rightarrow> u64 \<Rightarrow> u64 \<Rightarrow> u64 \<Rightarrow> 'a memst_scheme \<Rightarrow> bool" where
  "frames_ok ps pt a lim s \<longleftrightarrow>
     (\<forall>v \<in> mapped_pages pt a lim s. phys_page s (frame pt v s) \<and> frame pt v s \<notin> set ps
        \<and> frame pt v s \<notin> tpages 2 (mem s) pt)
     \<and> inj_on (\<lambda>v. frame pt v s) (mapped_pages pt a lim s)"

text \<open>In \<open>s'\<close> the mapped pages from \<open>a\<close> up to \<open>lim\<close> have an empty entry; the rest is as in \<open>s\<close>.\<close>

definition unmaps :: "u64 \<Rightarrow> u64 \<Rightarrow> u64 \<Rightarrow> 'a memst_scheme \<Rightarrow> 'a memst_scheme \<Rightarrow> bool" where
  "unmaps pt a lim s s' \<longleftrightarrow> (\<forall>vb < MAXVA.
     leaf pt vb s' = (if PGROUNDDOWN vb \<in> mapped_pages pt a lim s then 0 else leaf pt vb s))"

lemma leaf_page: "leaf pt (PGROUNDDOWN va) s = leaf pt va s"
proof -
  have px: "px k (PGROUNDDOWN va) = px k va" for k
  proof -
    have "PX k (PGROUNDDOWN va) = PX k va"
      by (rule bit_word_eqI) (auto simp: PX_take_bit bit_take_bit_iff bit_drop_bit_eq bit_PGROUNDDOWN)
    then show ?thesis by (simp add: px_def)
  qed
  have "slot l m p (PGROUNDDOWN va) = slot l m p va" for l m p
    by (induction l arbitrary: p) (simp_all add: pte_addr_px px Let_def)
  then show ?thesis by (simp add: leaf_def view_def)
qed

lemma mapped_pages_step:
  assumes "aligned a" and "a < MAXVA" and "a < lim"
  shows "mapped_pages pt a lim s =
    (if valid (leaf pt a s) then {a} else {}) \<union> mapped_pages pt (a + PGSIZE) lim s"
proof -
  have "a \<le> v \<longleftrightarrow> v = a \<or> a + PGSIZE \<le> v" if "aligned v" for v
    using aligned_step[OF assms(1) that _ assms(2)] next_va[OF assms(2)]
    by (auto simp: word_le_nat_alt)
  with assms show ?thesis by (auto simp: mapped_pages_def)
qed

lemma mapped_pages_notin: "a < MAXVA \<Longrightarrow> a \<notin> mapped_pages pt (a + PGSIZE) lim s"
  using next_va[of a] by (auto simp: mapped_pages_def word_le_nat_alt)

text \<open>One iteration that removes a mapping: the frame is given back if asked for, the entry cleared.\<close>

lemma unmap_entry:
  assumes ok: "pt_ok h ps pt s" and a: "aligned a" "a < lim" "lim \<le> MAXVA"
    and e: "slot 2 (mem s) pt a = Some e" and val: "valid (leaf pt a s)"
    and fr: "do_free \<longrightarrow> frames_ok ps pt a lim s"
  shows "\<exists>t u qs. (if do_free then kfree h (frame pt a s) s else Ok s) = Ok t
    \<and> u = t\<lparr>mem := store64 e 0 (mem t)\<rparr> \<and> qs = (if do_free then frame pt a s # ps else ps)
    \<and> pt_ok h qs pt u \<and> mem_only h s u \<and> tpages 2 (mem u) pt = tpages 2 (mem s) pt
    \<and> (\<forall>vb < MAXVA. leaf pt vb u = (if PGROUNDDOWN vb = a then 0 else leaf pt vb s))
    \<and> (do_free \<longrightarrow> frames_ok qs pt (a + PGSIZE) lim u)"
proof -
  have am: "a < MAXVA" using a(2,3) by (rule order_less_le_trans)
  let ?p = "frame pt a s" and ?qs = "if do_free then frame pt a s # ps else ps"
  have mem_a: "a \<in> mapped_pages pt a lim s" using a val by (simp add: mapped_pages_def)
  obtain t where t: "(if do_free then kfree h ?p s else Ok s) = Ok t" "pt_ok h ?qs pt t" "mem_only h s t"
      "\<And>va. leaf pt va t = leaf pt va s" "\<And>va. slot 2 (mem t) pt va = slot 2 (mem s) pt va"
      "tpages 2 (mem t) pt = tpages 2 (mem s) pt"
  proof (cases do_free)
    case True
    with fr mem_a have "phys_page s ?p" "?p \<notin> set ps" "?p \<notin> tpages 2 (mem s) pt"
      by (auto simp: frames_ok_def)
    from kfree_pt[OF ok this] obtain t where "kfree h ?p s = Ok t" "pt_ok h (?p # ps) pt t"
        "mem_only h s t" "\<forall>va. leaf pt va t = leaf pt va s"
        "\<forall>va. slot 2 (mem t) pt va = slot 2 (mem s) pt va"
        "tpages 2 (mem t) pt = tpages 2 (mem s) pt" by blast
    then show ?thesis using that[of t] True by simp
  qed (use ok that[of s] in simp)
  let ?u = "t\<lparr>mem := store64 e 0 (mem t)\<rparr>"
  have et: "slot 2 (mem t) pt a = Some e" using e t(5) by simp
  note S = store_entry[OF t(2) et am, where v = 0]
  have lf: "leaf pt vb ?u = (if PGROUNDDOWN vb = a then 0 else leaf pt vb s)" if "vb < MAXVA" for vb
    using S(2)[OF that] t(4)[of vb] PGROUNDDOWN_aligned[OF a(1)] by simp
  have wf: "twf 2 (mem t) pt" using t(2) by (simp add: pt_ok_def tree_ok_def)
  have tp: "tpages 2 (mem ?u) pt = tpages 2 (mem s) pt"
    using store_leaf[OF wf et, of 0] t(6) by simp
  have later: "leaf pt v ?u = leaf pt v s" if "aligned v" "a + PGSIZE \<le> v" "v < lim" for v
  proof -
    have "v < MAXVA" using that(3) a(3) by (rule order_less_le_trans)
    moreover have "v \<noteq> a" using that(2) next_va[OF am] by (auto simp: word_le_nat_alt)
    ultimately show ?thesis using lf[of v] PGROUNDDOWN_aligned[OF that(1)] by simp
  qed
  then have mp: "mapped_pages pt (a + PGSIZE) lim ?u = mapped_pages pt (a + PGSIZE) lim s"
    by (auto simp: mapped_pages_def)
  have fv: "frame pt v ?u = frame pt v s" if "v \<in> mapped_pages pt (a + PGSIZE) lim s" for v
    using that later[of v] by (simp add: mapped_pages_def frame_def)
  have sub: "mapped_pages pt (a + PGSIZE) lim s \<subseteq> mapped_pages pt a lim s"
    using mapped_pages_step[OF a(1) am a(2), of pt s] by blast
  have "frames_ok ?qs pt (a + PGSIZE) lim ?u" if "do_free"
  proof -
    have F: "frames_ok ps pt a lim s" using fr that by blast
    have only: "mem_only h s ?u" using t(3) by simp
    have "frame pt v s \<noteq> ?p" if "v \<in> mapped_pages pt (a + PGSIZE) lim s" for v
      using F mem_a sub that mapped_pages_notin[OF am, of pt lim s]
      unfolding frames_ok_def inj_on_def by blast
    then show ?thesis
      using F sub fv that tp mem_only_lock_state(3)[OF only] inj_on_subset
      unfolding frames_ok_def mp
      by (auto simp: inj_on_def subset_iff)
  qed
  then show ?thesis
    using t(1,3) S(1) lf tp by (intro exI[of _ t] exI[of _ ?u] exI[of _ ?qs]) simp
qed

lemma unmaps_first:
  assumes "pt_ok h ps pt s" and "aligned a" and "a < lim" and "lim \<le> MAXVA"
    and lf: "\<forall>vb < MAXVA. leaf pt vb u =
      (if PGROUNDDOWN vb = a \<and> valid (leaf pt a s) then 0 else leaf pt vb s)"
    and rest: "unmaps pt (a + PGSIZE) lim u s'"
  shows "unmaps pt a lim s s'"
    and "mapped_pages pt (a + PGSIZE) lim u = mapped_pages pt (a + PGSIZE) lim s"
proof -
  have am: "a < MAXVA" using assms(3,4) by (rule order_less_le_trans)
  have "leaf pt v u = leaf pt v s" if "aligned v" "a + PGSIZE \<le> v" "v < lim" for v
  proof -
    have "v < MAXVA" using that(3) assms(4) by (rule order_less_le_trans)
    moreover have "v \<noteq> a" using that(2) next_va[OF am] by (auto simp: word_le_nat_alt)
    ultimately show ?thesis using lf PGROUNDDOWN_aligned[OF that(1)] by simp
  qed
  then show mp: "mapped_pages pt (a + PGSIZE) lim u = mapped_pages pt (a + PGSIZE) lim s"
    by (auto simp: mapped_pages_def)
  show "unmaps pt a lim s s'"
    using rest lf mapped_pages_step[OF assms(2) am assms(3), of pt s]
    by (auto simp: unmaps_def mp)
qed

text \<open>The outcome of unmapping the pages from \<open>a\<close> up to \<open>lim\<close>.\<close>

definition unmap_outcome ::
  "nat \<Rightarrow> u64 list \<Rightarrow> u64 \<Rightarrow> u64 \<Rightarrow> u64 \<Rightarrow> bool \<Rightarrow> 'a memst_scheme \<Rightarrow> 'a memst_scheme \<Rightarrow> bool" where
  "unmap_outcome h ps pt a lim do_free s s' \<longleftrightarrow> (\<exists>freed.
     pt_ok h (freed @ ps) pt s' \<and> mem_only h s s' \<and> unmaps pt a lim s s'
     \<and> tpages 2 (mem s') pt = tpages 2 (mem s) pt
     \<and> set freed = (if do_free then (\<lambda>v. frame pt v s) ` mapped_pages pt a lim s else {}))"

lemma unmap_skip:
  assumes "aligned a" and "a < MAXVA" and "a < lim" and "\<not> valid (leaf pt a s)"
  shows "unmap_outcome h ps pt a lim do_free s s' = unmap_outcome h ps pt (a + PGSIZE) lim do_free s s'"
    and "frames_ok ps pt a lim s = frames_ok ps pt (a + PGSIZE) lim s"
proof -
  have "mapped_pages pt a lim s = mapped_pages pt (a + PGSIZE) lim s"
    using mapped_pages_step[OF assms(1-3), of pt s] assms(4) by simp
  then show "unmap_outcome h ps pt a lim do_free s s' =
      unmap_outcome h ps pt (a + PGSIZE) lim do_free s s'"
    and "frames_ok ps pt a lim s = frames_ok ps pt (a + PGSIZE) lim s"
    by (auto simp: unmap_outcome_def unmaps_def frames_ok_def)
qed

lemma unmap_then:
  assumes ok: "pt_ok h ps pt s" and a: "aligned a" "a < lim" "lim \<le> MAXVA" and val: "valid (leaf pt a s)"
    and u: "qs = (if do_free then frame pt a s # ps else ps)" "mem_only h s u"
      "tpages 2 (mem u) pt = tpages 2 (mem s) pt"
      "\<forall>vb < MAXVA. leaf pt vb u = (if PGROUNDDOWN vb = a then 0 else leaf pt vb s)"
    and rest: "unmap_outcome h qs pt (a + PGSIZE) lim do_free u s'"
  shows "unmap_outcome h ps pt a lim do_free s s'"
proof -
  have am: "a < MAXVA" using a(2,3) by (rule order_less_le_trans)
  obtain freed where s': "pt_ok h (freed @ qs) pt s'" "mem_only h u s'"
      "unmaps pt (a + PGSIZE) lim u s'" "tpages 2 (mem s') pt = tpages 2 (mem u) pt"
      "set freed = (if do_free then (\<lambda>v. frame pt v u) ` mapped_pages pt (a + PGSIZE) lim u else {})"
    using rest unfolding unmap_outcome_def by blast
  have U: "unmaps pt a lim s s'"
    "mapped_pages pt (a + PGSIZE) lim u = mapped_pages pt (a + PGSIZE) lim s"
    using unmaps_first[OF ok a(1,2,3), of u s'] u(4) s'(3) val by simp_all
  have "frame pt v u = frame pt v s" if "v \<in> mapped_pages pt (a + PGSIZE) lim s" for v
  proof -
    have "v \<noteq> a" "aligned v" "v < lim"
      using that mapped_pages_notin[OF am] by (auto simp: mapped_pages_def)
    then have "v < MAXVA" using a(3) by (blast intro: order_less_le_trans)
    with \<open>v \<noteq> a\<close> show ?thesis using u(4) PGROUNDDOWN_aligned[OF \<open>aligned v\<close>] by (simp add: frame_def)
  qed
  then have "set (freed @ (if do_free then [frame pt a s] else [])) =
      (if do_free then (\<lambda>v. frame pt v s) ` mapped_pages pt a lim s else {})"
    using s'(5) U(2) mapped_pages_step[OF a(1) am a(2), of pt s] val by auto
  moreover have "pt_ok h ((freed @ (if do_free then [frame pt a s] else [])) @ ps) pt s'"
    using s'(1) u(1) by (auto split: if_splits)
  ultimately show ?thesis
    using s'(4) u(3) U(1) mem_only_trans[OF u(2) s'(2)] unfolding unmap_outcome_def by metis
qed

lemma uvmunmap_loop_outcome:
  assumes "pt_ok h ps pt s" and "aligned a" and "lim \<le> MAXVA"
    and "do_free \<longrightarrow> frames_ok ps pt a lim s"
  shows "\<exists>s'. uvmunmap_loop h pt a lim do_free s = Ok s' \<and> unmap_outcome h ps pt a lim do_free s s'"
  using assms
proof (induction h pt a lim do_free s arbitrary: ps rule: uvmunmap_loop.induct)
  case (1 h pt a lim do_free s)
  show ?case
  proof (cases "a < lim")
    case False
    then have "mapped_pages pt a lim s = {}" by (auto simp: mapped_pages_def)
    then have "unmap_outcome h ps pt a lim do_free s s"
      using "1.prems"(1) by (simp add: unmap_outcome_def unmaps_def)
    then show ?thesis using False by (auto simp: uvmunmap_loop.simps[of h pt a])
  next
    case True
    have am: "a < MAXVA" using True "1.prems"(3) by (rule order_less_le_trans)
    have al: "aligned (a + PGSIZE)" using "1.prems"(2) next_va[OF am] by (auto simp: aligned_unat)
    note skip = unmap_skip[OF "1.prems"(2) am True]
    from "1.prems"(1) am show ?thesis
    proof (cases rule: lookup_leaf)
      case unmapped
      then have inv: "\<not> valid (leaf pt a s)" by simp
      have "\<exists>s'. uvmunmap_loop h pt (a + PGSIZE) lim do_free s = Ok s'
          \<and> unmap_outcome h ps pt (a + PGSIZE) lim do_free s s'"
        using "1.IH"(1)[OF True unmapped(1) refl refl "1.prems"(1) al "1.prems"(3)] "1.prems"(4)
        by (simp add: skip(2)[OF inv])
      then show ?thesis
        using unmapped True by (simp add: uvmunmap_loop.simps[of h pt a] skip(1)[OF inv])
    next
      case (table e)
      show ?thesis
      proof (cases "valid (leaf pt a s)")
        case False
        have "\<exists>s'. uvmunmap_loop h pt (a + PGSIZE) lim do_free s = Ok s'
            \<and> unmap_outcome h ps pt (a + PGSIZE) lim do_free s s'"
          using "1.IH"(2)[OF True table(1) refl table(2) _ "1.prems"(1) al "1.prems"(3)] "1.prems"(4)
            table(3) False by (simp add: skip(2)[OF False])
        then show ?thesis
          using table True False by (simp add: uvmunmap_loop.simps[of h pt a] skip(1)[OF False])
      next
        case val: True
        from unmap_entry[OF "1.prems"(1,2) True "1.prems"(3) table(4) val "1.prems"(4)]
        obtain t u qs where t: "(if do_free then kfree h (frame pt a s) s else Ok s) = Ok t"
            "u = t\<lparr>mem := store64 e 0 (mem t)\<rparr>" "qs = (if do_free then frame pt a s # ps else ps)"
            "pt_ok h qs pt u" "mem_only h s u" "tpages 2 (mem u) pt = tpages 2 (mem s) pt"
            "\<forall>vb < MAXVA. leaf pt vb u = (if PGROUNDDOWN vb = a then 0 else leaf pt vb s)"
            "do_free \<longrightarrow> frames_ok qs pt (a + PGSIZE) lim u"
          by blast
        have loop: "uvmunmap_loop h pt a lim do_free s = uvmunmap_loop h pt (a + PGSIZE) lim do_free u"
          using True table val t(1,2) by (subst uvmunmap_loop.simps) (cases do_free; simp add: frame_def)
        have "\<exists>s'. uvmunmap_loop h pt (a + PGSIZE) lim do_free u = Ok s'
            \<and> unmap_outcome h qs pt (a + PGSIZE) lim do_free u s'"
        proof (rule "1.IH"(3)[OF True table(1) refl table(2) _ _ t(2) t(4) al "1.prems"(3) t(8)])
          show "(if do_free then kfree h (PTE2PA (load64 (mem s) e)) s else Ok s) = Ok t"
            using t(1) by (simp only: table(3) frame_def)
        qed (use val table(3) in simp)
        with loop show ?thesis
          using unmap_then[OF "1.prems"(1,2) True "1.prems"(3) val t(3,5,6,7)] by auto
      qed
    qed
  qed
qed

end
