(* ===== verification/Vm_Props.thy ===== *)
theory Vm_Props
  imports Mapping
begin

text \<open>
  The properties of the page allocator and of the page tables, each with a concrete machine to which
  it applies: four pages of free memory below \<open>PHYSTOP\<close>, the first of which is an empty root table.
\<close>

section \<open>A concrete machine\<close>

definition idle_cpu :: cpu where "idle_cpu = \<lparr>c_proc = None, noff = 0, intena = False\<rparr>"

definition open_lock :: spinlock where "open_lock = \<lparr>lk_name = [], locked = 0, lk_cpu = None\<rparr>"

definition bare :: memst where
  "bare = \<lparr>cpus = \<lambda>_. idle_cpu, sie = \<lambda>_. False, locks = \<lambda>_. open_lock, mem = \<lambda>_. 0,
           freelist = 0, kend = 0x87FFC000\<rparr>"

definition three_pages :: memst where
  "three_pages = bare\<lparr>mem := store64 0x87FFD000 0x87FFE000 (store64 0x87FFE000 0x87FFF000 (\<lambda>_. 0)),
                      freelist := 0x87FFD000\<rparr>"

lemma bare_hart: "hart_ok h bare" "lock_free l bare"
  by (simp_all add: bare_def hart_ok_def lock_free_def idle_cpu_def open_lock_def)

lemma aligned_numeral: "aligned (numeral n) \<longleftrightarrow> (numeral n :: u64) mod 4096 = 0"
  by (simp add: aligned_def)

lemma three_pages_ready: "mem_ready h [0x87FFD000, 0x87FFE000, 0x87FFF000] three_pages"
proof -
  let ?m = "store64 0x87FFD000 0x87FFE000 (store64 0x87FFE000 0x87FFF000 (\<lambda>_. 0))"
  have other: "load64 (store64 p v m) q = load64 m q" if "aligned p" "aligned q" "p \<noteq> q" for p q v m
    using that by (intro load_store64_other) (meson disj_range_def pages_disjoint first_cell_in_page)
  have "load64 ?m 0x87FFD000 = 0x87FFE000" by simp
  moreover have "load64 ?m 0x87FFE000 = 0x87FFF000" by (simp add: other aligned_numeral)
  moreover have "load64 ?m 0x87FFF000 = 0" by (simp add: other aligned_numeral load64_zero)
  ultimately have "flist ?m 0x87FFD000 [0x87FFD000, 0x87FFE000, 0x87FFF000]" by simp
  then show ?thesis
    using bare_hart
    by (simp add: mem_ready_def three_pages_def kmem_ok_def phys_page_def aligned_numeral
        hart_ok_def lock_free_def) (simp add: bare_def)
qed

lemma three_pages_root: "pt_ok h [0x87FFD000, 0x87FFE000, 0x87FFF000] 0x87FFC000 three_pages"
  and three_pages_empty: "leaf 0x87FFC000 va three_pages = 0"
proof -
  have al: "aligned 0x87FFC000" "aligned 0x87FFD000" "aligned 0x87FFE000"
    by (simp_all add: aligned_numeral)
  have "mem three_pages a = 0" if "in_page 0x87FFC000 a" for a
  proof -
    have "\<not> in_page 0x87FFD000 a" "\<not> in_page 0x87FFE000 a"
      using pages_disjoint[OF al(1) al(2) _ that] pages_disjoint[OF al(1) al(3) _ that] by simp_all
    then show ?thesis
      using first_cell_in_page[OF al(2), of a] first_cell_in_page[OF al(3), of a]
      by (auto simp: three_pages_def store64_def)
  qed
  note Z = zero_tree[OF al(1) this]
  show "pt_ok h [0x87FFD000, 0x87FFE000, 0x87FFF000] 0x87FFC000 three_pages"
    using three_pages_ready[of h] Z(1,2) al(1)
    by (simp add: pt_ok_def tree_ok_def phys_page_def) (simp add: three_pages_def bare_def)
  show "leaf 0x87FFC000 va three_pages = 0" using Z(3) by (simp add: leaf_def)
qed

section \<open>Mapping one page\<close>

text \<open>Two free pages are enough for the table pages of one mapping.\<close>

lemma mappages_one_page:
  assumes "pt_ok h ps pt s" and "aligned va" and "va < MAXVA" and "\<not> valid (leaf pt va s)"
    and "2 \<le> length ps"
  shows "\<exists>s'. mappages h pt va PGSIZE pa perm s = Ok (0, s')"
  using assms(1,3)
proof (cases rule: walk_alloc)
  case (full s')
  then show ?thesis using assms(5) by simp
next
  case (entry a s' new ps')
  have "mappages_loop h pt va va pa perm s =
      Ok (0, s'\<lparr>mem := store64 a (PA2PTE pa OR scast perm OR 1) (mem s')\<rparr>)"
    using entry(1,2,8) assms(4) by (subst mappages_loop.simps) simp
  then show ?thesis using assms(2) by (simp add: mappages_def aligned_def)
qed

section \<open>The user bit of an entry\<close>

lemma user_bit: "(PA2PTE pa OR (ucast (perm :: i32) OR 1)) AND 16 = 0 \<longleftrightarrow> perm AND 16 = 0"
proof -
  have "w AND 16 = 0 \<longleftrightarrow> \<not> bit w 4" for w :: u64
    using bit_iff_and_push_bit_not_eq_0[of w 4] by simp
  moreover have "w AND 16 = 0 \<longleftrightarrow> \<not> bit w 4" for w :: i32
    using bit_iff_and_push_bit_not_eq_0[of w 4] by simp
  ultimately show ?thesis by (simp add: bit_simps PA2PTE_def)
qed

lemma perm_scast:
  assumes "unat (perm :: i32) < 1024"
  shows "scast perm = (ucast perm :: u64)"
proof -
  have "sint perm = int (unat perm)" using assms by (intro sint_unat_u32) simp
  moreover have "uint perm = int (unat perm)" by simp
  ultimately show ?thesis by (simp only: scast_eq ucast_eq)
qed

lemma perm_flags:
  assumes "unat (perm :: i32) < 1024"
  shows "take_bit 10 (ucast perm OR 1 :: u64) = ucast perm OR 1"
proof -
  have "take_bit 10 perm = perm"
    using take_bit_nat_eq_self[of "unat perm" 10] assms
    by (simp only: word_unat_eq_iff unsigned_take_bit_eq) simp
  then have "n < 10" if "bit perm n" for n using that by (metis bit_take_bit_iff)
  then show ?thesis by (intro bit_word_eqI) (auto simp: bit_simps)
qed

section \<open>The allocator\<close>

text \<open>
  C12 (functional): \<^verbatim>\<open>kinit\<close> returns, and the free list it builds in the pages themselves holds every
  page between the end of the kernel and \<open>PHYSTOP\<close> exactly once.
\<close>

theorem kinit_frees_everything:
  assumes "hart_ok h s" and "freelist s = 0" and "0 < kend s" and "kend s \<le> PHYSTOP"
  shows "\<exists>s' ps. kinit h s = Ok s' \<and> flist (mem s') (freelist s') ps \<and> distinct ps
    \<and> set ps = {p. p mod PGSIZE = 0 \<and> kend s \<le> p \<and> p < PHYSTOP}"
  using kinit_ok[OF assms] by (auto simp: mem_ready_def kmem_ok_def aligned_def)

theorem kinit_frees_everything_witness:
  "\<exists>s' ps. kinit 0 bare = Ok s' \<and> flist (mem s') (freelist s') ps \<and> distinct ps
    \<and> set ps = {p. p mod PGSIZE = 0 \<and> 0x87FFC000 \<le> p \<and> p < PHYSTOP}"
  using kinit_frees_everything[of 0 bare] bare_hart by (simp add: bare_def)

text \<open>
  C15 (roundtrip): \<^verbatim>\<open>kalloc\<close> hands out the first free page; freeing it restores the free list, and
  the two calls together change no byte outside that page, no lock and no interrupt state.
\<close>

theorem kalloc_kfree_roundtrip:
  assumes "mem_ready h (p # ps) s"
  shows "\<exists>t s'. kalloc h s = Ok (p, t) \<and> mem_ready h ps t \<and> kfree h p t = Ok s'
    \<and> mem_ready h (p # ps) s' \<and> (\<forall>a. in_page p a \<or> mem s' a = mem s a)
    \<and> locks s' = locks s \<and> sie s' = sie s"
proof -
  obtain t where "kalloc h s = Ok (p, t)" "mem_ready h ps t" using kalloc_page[OF assms] by blast
  moreover obtain t' s' where "kalloc h s = Ok (p, t')" "kfree h p t' = Ok s'"
      "mem_ready h (p # ps) s'" "mem_only h s s'" "\<forall>a. \<not> in_page p a \<longrightarrow> mem s' a = mem s a"
    using kmem.alloc_free[OF assms] by blast
  ultimately show ?thesis by (auto simp: mem_only_def)
qed

theorem kalloc_kfree_roundtrip_witness:
  "\<exists>t s'. kalloc 0 three_pages = Ok (0x87FFD000, t) \<and> kfree 0 0x87FFD000 t = Ok s'
    \<and> mem_ready 0 [0x87FFD000, 0x87FFE000, 0x87FFF000] s'"
  using kalloc_kfree_roundtrip[OF three_pages_ready[of 0]] by blast

text \<open>
  C31 (functional): as long as pages are free, a series of allocations returns pairwise different
  pages, all of them inside the managed memory.
\<close>

theorem kalloc_series_distinct:
  assumes "mem_ready h (ps @ qs) s"
  shows "\<exists>s'. rfold (\<lambda>_ (acc, s). rbind (kalloc h s) (\<lambda>(p, s). Ok (acc @ [p], s)))
      [0..<length ps] ([], s) = Ok (ps, s')
    \<and> distinct ps \<and> (\<forall>p \<in> set ps. phys_page s p) \<and> mem_ready h qs s'"
proof -
  let ?f = "\<lambda>_ :: nat. \<lambda>(acc, s). rbind (kalloc h s) (\<lambda>(p, s). Ok (acc @ [p], s))"
  have "\<exists>s'. rfold ?f [i..<i + length ps] (acc, s) = Ok (acc @ ps, s') \<and> mem_ready h qs s'" for i acc
    using assms
  proof (induction ps arbitrary: i acc s)
    case (Cons p ps)
    then obtain t where t: "kalloc h s = Ok (p, t)" "mem_ready h (ps @ qs) t"
      using kalloc_page[of h p "ps @ qs" s] by auto
    from Cons.IH[OF t(2), of "Suc i" "acc @ [p]"] t(1) show ?case
      by (auto simp: upt_split_Cons simp del: upt_Suc)
  qed simp
  from this[of 0 "[]"] show ?thesis
    using ready_distinct[OF assms] ready_phys[OF assms] by auto
qed

theorem kalloc_series_distinct_witness:
  "\<exists>s'. rfold (\<lambda>_ (acc, s). rbind (kalloc 0 s) (\<lambda>(p, s). Ok (acc @ [p], s))) [0..<2] ([], three_pages)
    = Ok ([0x87FFD000, 0x87FFE000], s') \<and> mem_ready 0 [0x87FFF000] s'"
  using kalloc_series_distinct[of 0 "[0x87FFD000, 0x87FFE000]" "[0x87FFF000]" three_pages]
    three_pages_ready[of 0] by (auto simp: numeral_2_eq_2)

section \<open>Page tables\<close>

text \<open>
  C3 (functional): mapping a range that is unmapped returns. Either every page of the range, and no
  other address, has the entry for its physical page and permissions, or \<open>-1\<close> is returned because
  no page was left for a table. Table pages are taken from the free list and never shared.
\<close>

theorem mappages_maps_range:
  assumes "pt_ok h ps pt s" and "aligned va" and "aligned sz" and "sz \<noteq> 0"
    and "unat va + unat sz \<le> unat MAXVA"
    and "\<And>vb. aligned vb \<Longrightarrow> va \<le> vb \<Longrightarrow> unat vb < unat va + unat sz \<Longrightarrow> \<not> valid (leaf pt vb s)"
  shows "\<exists>r s' ps'. mappages h pt va sz pa perm s = Ok (r, s') \<and> pt_ok h ps' pt s' \<and> set ps' \<subseteq> set ps
    \<and> (r = 0 \<and> (\<forall>vb < MAXVA. leaf pt vb s' =
          (if va \<le> PGROUNDDOWN vb \<and> PGROUNDDOWN vb < va + sz
           then PA2PTE (pa + (PGROUNDDOWN vb - va)) OR scast perm OR PTE_V else leaf pt vb s))
       \<or> r = - 1 \<and> ps' = [])"
proof -
  obtain r s' where r: "mappages h pt va sz pa perm s = Ok (r, s')"
      "map_outcome h ps pt va (va + sz - PGSIZE) pa perm s r s'"
    using mappages_outcome[OF assms(1-5)] assms(6) by blast
  then obtain new ps' k where k: "ps = new @ ps'" "pt_ok h ps' pt s'" "maps_range pt va k pa perm s s'"
      "r = 0 \<and> k = va + sz - PGSIZE + PGSIZE \<or> r = - 1 \<and> ps' = []"
    unfolding map_outcome_def by blast
  have "set ps' \<subseteq> set ps" using k(1) by simp
  with r(1) k show ?thesis
    by (intro exI[of _ r] exI[of _ s'] exI[of _ ps']) (auto simp: maps_range_def mapped_pte_def)
qed

theorem mappages_maps_range_witness:
  "\<exists>r s' ps'. mappages 0 0x87FFC000 0x1000 0x2000 0x80000000 6 three_pages = Ok (r, s')
    \<and> pt_ok 0 ps' 0x87FFC000 s' \<and> set ps' \<subseteq> {0x87FFD000, 0x87FFE000, 0x87FFF000}"
  using mappages_maps_range[OF three_pages_root[of 0], of "0x1000" "0x2000" "0x80000000" 6]
  by (auto simp: three_pages_empty aligned_numeral)

text \<open>
  C9 (roundtrip): after a user page has been mapped, \<^verbatim>\<open>walkaddr\<close> translates every address of the page
  to its physical page; a page mapped without the user bit is not visible to it.
\<close>

theorem mappages_walkaddr:
  assumes "pt_ok h ps pt s" and "aligned va" and "va < MAXVA" and "\<not> valid (leaf pt va s)"
    and "mappages h pt va PGSIZE pa perm s = Ok (0, s')" and "aligned pa" and "unat perm < 1024"
    and "PGROUNDDOWN vb = va" and "vb < MAXVA"
  shows "walkaddr h pt vb s' = Ok (if perm AND 16 \<noteq> 0 then pa else 0, s')"
proof -
  obtain k where k: "unat va = 4096 * k" using assms(2) by (auto simp: aligned_unat mod_eq_0_iff_dvd dvd_def)
  have lim: "unat va + unat (PGSIZE) \<le> unat MAXVA"
    using assms(3) k by (simp add: word_less_nat_alt)
  have one: "vc = va" if "aligned vc" "va \<le> vc" "unat vc < unat va + unat PGSIZE" for vc
    using aligned_step[OF assms(2) that(1,2) assms(3)] next_va[OF assms(3)] that(3)
    by (auto simp: word_le_nat_alt)
  obtain ps' where ps': "pt_ok h ps' pt s'"
      "leaf pt vb s' = PA2PTE pa OR scast perm OR PTE_V"
  proof -
    have "\<exists>r s'. mappages h pt va PGSIZE pa perm s = Ok (r, s')
        \<and> map_outcome h ps pt va (va + PGSIZE - PGSIZE) pa perm s r s'"
      by (rule mappages_outcome[OF assms(1,2) _ _ lim]) (use one assms(4) in \<open>auto simp: aligned_numeral\<close>)
    then have "map_outcome h ps pt va va pa perm s 0 s'" using assms(5) by simp
    then obtain ps' where "pt_ok h ps' pt s'" "maps_range pt va (va + PGSIZE) pa perm s s'"
      unfolding map_outcome_def by auto
    moreover have "va < va + PGSIZE" using next_va[OF assms(3)] by (simp add: word_less_nat_alt)
    ultimately show ?thesis using that[of ps'] assms(8,9) by (simp add: maps_range_def mapped_pte_def)
  qed
  note sc = perm_scast[OF assms(7)] and tk = perm_flags[OF assms(7)]
  let ?e = "PA2PTE pa OR (ucast perm OR 1) :: u64"
  have e: "leaf pt vb s' = ?e" using ps'(2) sc by (simp add: or.assoc)
  have "PTE2PA ?e = pa" by (rule PTE2PA_PA2PTE[OF assms(6) tk])
  moreover have "valid ?e"
  proof -
    have "bit (?e AND 1) 0" by (simp add: bit_simps)
    then show ?thesis by (metis bit_0_eq bot_apply bot_bool_def)
  qed
  moreover have "?e AND 16 = 0 \<longleftrightarrow> perm AND 16 = 0" by (rule user_bit)
  ultimately show ?thesis using walkaddr_leaf[OF ps'(1) assms(9)] e by simp
qed

theorem mappages_walkaddr_witness:
  "\<exists>s'. mappages 0 0x87FFC000 0x1000 PGSIZE 0x87000000 22 three_pages = Ok (0, s')
    \<and> walkaddr 0 0x87FFC000 0x1234 s' = Ok (0x87000000, s')"
proof -
  have v: "\<not> valid (leaf 0x87FFC000 0x1000 three_pages)" by (simp add: three_pages_empty)
  have al: "aligned 0x1000" "aligned 0x87000000" by (simp_all add: aligned_numeral)
  obtain s' where s': "mappages 0 0x87FFC000 0x1000 PGSIZE 0x87000000 22 three_pages = Ok (0, s')"
    using mappages_one_page[OF three_pages_root al(1) _ v, of 0 "0x87000000" 22] by auto
  have "PGROUNDDOWN 0x1234 = 0x1000" by (simp add: PGROUNDDOWN_def)
  then have "walkaddr 0 0x87FFC000 0x1234 s' =
      Ok (if (22 :: i32) AND 16 \<noteq> 0 then 0x87000000 else 0, s')"
    by (intro mappages_walkaddr[OF three_pages_root al(1) _ v s' al(2)]) simp_all
  then show ?thesis using s' by simp
qed



end
