(* ===== verification/Proc_State.thy ===== *)
theory Proc_State
  imports Kalloc Adaptive
begin

text \<open>
  The process table: \<^verbatim>\<open>struct proc\<close> of \<^verbatim>\<open>kernel/proc.h\<close> and the global variables of
  \<^verbatim>\<open>kernel/proc.c\<close> and \<^verbatim>\<open>kernel/trap.c\<close>.

  A pointer into the process, file or inode table is the index of the entry, and the null pointer is
  \<open>None\<close>. A character array is the C string it holds. The trap frame is a page of the byte memory, read
  and written at the offsets of \<^verbatim>\<open>struct trapframe\<close>.
\<close>

section \<open>Data\<close>

text \<open>The addresses that processes sleep on.\<close>

datatype channel =
  ChProc nat | ChTicks | ChLog | ChPipeRead u64 | ChPipeWrite u64 | ChCons | ChSleepLock nat
  | ChDisk | ChBuf nat | ChUart

text \<open>\<^verbatim>\<open>struct context\<close>: the callee-saved registers \<open>s0\<close> to \<open>s11\<close> by number.\<close>

record kcontext =
  ctx_ra :: u64
  ctx_sp :: u64
  ctx_s :: "nat \<Rightarrow> u64"

record proc = pmetrics +
  state :: procstate
  chan :: "channel option"
  killed :: i32
  xstate :: i32
  pid :: i32
  parent :: "nat option"
  kstack :: u64
  sz :: u64
  pagetable :: u64
  trapframe :: u64
  pcontext :: kcontext
  ofile :: "nat \<Rightarrow> nat option"
  cwd :: "nat option"
  pname :: "u8 list"

text \<open>\<open>forkret_sym\<close> and \<open>trampoline_sym\<close> are addresses chosen by the linker; no operation changes
  them.\<close>

record procst = memst +
  procs :: "nat \<Rightarrow> proc"
  initproc :: "nat option"
  nextpid :: i32
  ticks :: u32
  forkret_sym :: u64
  trampoline_sym :: u64

section \<open>Updating one process\<close>

definition upd_proc :: "nat \<Rightarrow> (proc \<Rightarrow> proc) \<Rightarrow> 'a procst_scheme \<Rightarrow> 'a procst_scheme" where
  "upd_proc i f s = s\<lparr>procs := (procs s)(i := f (procs s i))\<rparr>"

lemma upd_proc_fields [simp]:
  "procs (upd_proc i f s) = (procs s)(i := f (procs s i))"
  "cpus (upd_proc i f s) = cpus s" "sie (upd_proc i f s) = sie s" "locks (upd_proc i f s) = locks s"
  "mem (upd_proc i f s) = mem s" "freelist (upd_proc i f s) = freelist s"
  "kend (upd_proc i f s) = kend s" "initproc (upd_proc i f s) = initproc s"
  "nextpid (upd_proc i f s) = nextpid s" "ticks (upd_proc i f s) = ticks s"
  "forkret_sym (upd_proc i f s) = forkret_sym s" "trampoline_sym (upd_proc i f s) = trampoline_sym s"
  "procst.more (upd_proc i f s) = procst.more s"
  by (simp_all add: upd_proc_def)

lemma upd_proc_other [simp]: "j \<noteq> i \<Longrightarrow> procs (upd_proc i f s) j = procs s j"
  by simp

lemma upd_proc_comp: "upd_proc i f (upd_proc i g s) = upd_proc i (\<lambda>p. f (g p)) s"
  by (simp add: upd_proc_def)

lemma touch_procst [simp]:
  "procs (touch h s) = procs s" "initproc (touch h s) = initproc s" "nextpid (touch h s) = nextpid s"
  "ticks (touch h s) = ticks s" "forkret_sym (touch h s) = forkret_sym s"
  "trampoline_sym (touch h s) = trampoline_sym s" "procst.more (touch h s) = procst.more s"
  by (simp_all add: touch_def)

lemma acquired_procst [simp]:
  "procs (acquired h l s) = procs s" "initproc (acquired h l s) = initproc s"
  "nextpid (acquired h l s) = nextpid s" "ticks (acquired h l s) = ticks s"
  by (simp_all add: acquired_def push_off_def Let_def)

lemma upd_proc_lock_state [simp]:
  "hart_ok h (upd_proc i f s) = hart_ok h s" "lock_free l (upd_proc i f s) = lock_free l s"
  by (simp_all add: hart_ok_def lock_free_def)

section \<open>Values as bytes\<close>

text \<open>Little-endian bytes of a C object.\<close>

definition bytes32 :: "u32 \<Rightarrow> u8 list" where
  "bytes32 w = map (\<lambda>i. ucast (drop_bit (8 * i) w)) [0..<4]"

definition bytes64 :: "u64 \<Rightarrow> u8 list" where
  "bytes64 w = map (\<lambda>i. ucast (drop_bit (8 * i) w)) [0..<8]"

lemma length_bytes [simp]: "length (bytes32 w) = 4" "length (bytes64 v) = 8"
  by (simp_all add: bytes32_def bytes64_def)

section \<open>The trap frame\<close>

text \<open>Offsets of \<^verbatim>\<open>struct trapframe\<close>.\<close>

abbreviation (input) TF_KERNEL_SATP :: u64 where "TF_KERNEL_SATP \<equiv> 0"
abbreviation (input) TF_KERNEL_SP :: u64 where "TF_KERNEL_SP \<equiv> 8"
abbreviation (input) TF_KERNEL_TRAP :: u64 where "TF_KERNEL_TRAP \<equiv> 16"
abbreviation (input) TF_EPC :: u64 where "TF_EPC \<equiv> 24"
abbreviation (input) TF_KERNEL_HARTID :: u64 where "TF_KERNEL_HARTID \<equiv> 32"
abbreviation (input) TF_SP :: u64 where "TF_SP \<equiv> 48"
abbreviation (input) TF_A0 :: u64 where "TF_A0 \<equiv> 112"
abbreviation (input) TF_A1 :: u64 where "TF_A1 \<equiv> 120"
abbreviation (input) TF_A2 :: u64 where "TF_A2 \<equiv> 128"
abbreviation (input) TF_A3 :: u64 where "TF_A3 \<equiv> 136"
abbreviation (input) TF_A4 :: u64 where "TF_A4 \<equiv> 144"
abbreviation (input) TF_A5 :: u64 where "TF_A5 \<equiv> 152"
abbreviation (input) TF_A7 :: u64 where "TF_A7 \<equiv> 168"

definition tf_get :: "nat \<Rightarrow> u64 \<Rightarrow> 'a procst_scheme \<Rightarrow> u64" where
  "tf_get i off s = load64 (mem s) (trapframe (procs s i) + off)"

definition tf_set :: "nat \<Rightarrow> u64 \<Rightarrow> u64 \<Rightarrow> 'a procst_scheme \<Rightarrow> 'a procst_scheme" where
  "tf_set i off v s = s\<lparr>mem := store64 (trapframe (procs s i) + off) v (mem s)\<rparr>"

lemma tf_get_set [simp]: "tf_get i off (tf_set i off v s) = v"
  by (simp add: tf_get_def tf_set_def)

end
