(* ===== verification/Usercopy.thy ===== *)
theory Usercopy
  imports Vm Proc_State
begin

text \<open>
  Copying between kernel objects and user memory: \<^verbatim>\<open>vmfault\<close>, \<^verbatim>\<open>copyout\<close>, \<^verbatim>\<open>copyin\<close> and
  \<^verbatim>\<open>copyinstr\<close> of \<^verbatim>\<open>kernel/vm.c\<close>, \<^verbatim>\<open>either_copyout\<close> and \<^verbatim>\<open>either_copyin\<close> of
  \<^verbatim>\<open>kernel/proc.c\<close>, \<^verbatim>\<open>fetchaddr\<close>, \<^verbatim>\<open>fetchstr\<close> and the argument routines of
  \<^verbatim>\<open>kernel/syscall.c\<close>.

  The kernel side of a copy is a kernel object outside the managed pages; the model passes its bytes as
  a list. A routine that fills a kernel buffer returns the bytes it has written.
\<close>

section \<open>Bytes in memory\<close>

primrec put_bytes :: "u64 \<Rightarrow> u8 list \<Rightarrow> memory \<Rightarrow> memory" where
  "put_bytes a [] m = m"
| "put_bytes a (b # bs) m = put_bytes (a + 1) bs (m(a := b))"

definition get_bytes :: "memory \<Rightarrow> u64 \<Rightarrow> nat \<Rightarrow> u8 list" where
  "get_bytes m a n = map (\<lambda>i. m (a + of_nat i)) [0..<n]"

section \<open>vmfault\<close>

definition vmfault ::
  "nat \<Rightarrow> u64 \<Rightarrow> u64 \<Rightarrow> bool \<Rightarrow> 'a procst_scheme \<Rightarrow> (u64 \<times> 'a procst_scheme) res" where
  "vmfault h pt va read s =
     rbind (myproc h s) (\<lambda>(mp, s).
     rbind (deref mp) (\<lambda>p.
       if sz (procs s p) \<le> va then Ok (0, s)
       else let va = PGROUNDDOWN va
            in rbind (ismapped h pt va s) (\<lambda>(b, s).
              if b then Ok (0, s)
              else rbind (kalloc h s) (\<lambda>(pg, s).
                if pg = 0 then Ok (0, s)
                else let s = s\<lparr>mem := memset pg 0 4096 (mem s)\<rparr>
                     in rbind (mappages h (pagetable (procs s p)) va PGSIZE pg (4 OR 16 OR 2) s)
                          (\<lambda>(r, s).
                       if r \<noteq> 0 then rbind (kfree h pg s) (\<lambda>s. Ok (0, s))
                       else Ok (pg, s))))))"

section \<open>copyout, copyin, copyinstr\<close>

lemma page_rest: "0 < unat (PGSIZE - (a - PGROUNDDOWN a))"
  and page_rest_eq: "unat (PGSIZE - (a - PGROUNDDOWN a)) = 4096 - unat a mod 4096"
proof -
  have off: "a - PGROUNDDOWN a = a AND 4095" by (simp add: PGROUNDDOWN_sub)
  have lt: "unat a mod 4096 < 4096" by simp
  have "a AND 4095 \<le> PGSIZE" using lt by (simp add: word_le_nat_alt unat_and_page_mask)
  then have "unat (PGSIZE - (a AND 4095)) = 4096 - unat a mod 4096"
    by (simp add: unat_sub unat_and_page_mask)
  then show "unat (PGSIZE - (a - PGROUNDDOWN a)) = 4096 - unat a mod 4096" by (simp add: off)
  then show "0 < unat (PGSIZE - (a - PGROUNDDOWN a))" using lt by simp
qed

text \<open>How many of \<open>len\<close> bytes from \<open>a\<close> on are in the page of \<open>a\<close>.\<close>

definition chunk :: "u64 \<Rightarrow> nat \<Rightarrow> nat" where
  "chunk a len = (let n = unat (PGSIZE - (a - PGROUNDDOWN a)) in if len < n then len else n)"

lemma chunk_bounds: "0 < len \<Longrightarrow> 0 < chunk a len" "chunk a len \<le> len"
  using page_rest[of a] by (auto simp: chunk_def Let_def)

function copyout ::
  "nat \<Rightarrow> u64 \<Rightarrow> u64 \<Rightarrow> u8 list \<Rightarrow> 'a procst_scheme \<Rightarrow> (i32 \<times> 'a procst_scheme) res" where
  "copyout h pt dstva src s =
     (if src = [] then Ok (0, s)
      else let va0 = PGROUNDDOWN dstva
           in if MAXVA \<le> va0 then Ok (- 1, s)
              else rbind (walkaddr h pt va0 s) (\<lambda>(pa0, s).
                rbind (if pa0 = 0 then vmfault h pt va0 False s else Ok (pa0, s)) (\<lambda>(pa0, s).
                  if pa0 = 0 then Ok (- 1, s)
                  else rbind (walk h pt va0 False s) (\<lambda>(pte, s).
                    if pte = 0 then Panic ''kerneltrap''
                    else if load64 (mem s) pte AND PTE_W = 0 then Ok (- 1, s)
                    else let n = chunk dstva (length src);
                             s = s\<lparr>mem := put_bytes (pa0 + (dstva - va0)) (take n src) (mem s)\<rparr>
                         in copyout h pt (va0 + PGSIZE) (drop n src) s))))"
  by pat_completeness auto
termination
  by (relation "measure (\<lambda>(h, pt, dstva, src, s). length src)")
     (auto simp: chunk_bounds)

declare copyout.simps [simp del]

text \<open>The bytes that have arrived in the kernel buffer are \<open>acc\<close> and those that are still to come.\<close>

function copyin_loop ::
  "nat \<Rightarrow> u64 \<Rightarrow> u64 \<Rightarrow> nat \<Rightarrow> u8 list \<Rightarrow> 'a procst_scheme \<Rightarrow> (i32 \<times> u8 list \<times> 'a procst_scheme) res"
where
  "copyin_loop h pt srcva len acc s =
     (if len = 0 then Ok (0, acc, s)
      else let va0 = PGROUNDDOWN srcva
           in rbind (walkaddr h pt va0 s) (\<lambda>(pa0, s).
             rbind (if pa0 = 0 then vmfault h pt va0 True s else Ok (pa0, s)) (\<lambda>(pa0, s).
               if pa0 = 0 then Ok (- 1, acc, s)
               else let n = chunk srcva len
                    in copyin_loop h pt (va0 + PGSIZE) (len - n)
                         (acc @ get_bytes (mem s) (pa0 + (srcva - va0)) n) s)))"
  by pat_completeness auto
termination
  by (relation "measure (\<lambda>(h, pt, srcva, len, acc, s). len)")
     (auto simp: chunk_bounds)

declare copyin_loop.simps [simp del]

definition copyin ::
  "nat \<Rightarrow> u64 \<Rightarrow> u64 \<Rightarrow> nat \<Rightarrow> 'a procst_scheme \<Rightarrow> (i32 \<times> u8 list \<times> 'a procst_scheme) res" where
  "copyin h pt srcva len s = copyin_loop h pt srcva len [] s"

text \<open>The inner loop of \<^verbatim>\<open>copyinstr\<close>: it copies up to \<open>n\<close> bytes and stops after a zero byte. The
  result is the copied bytes and whether the zero byte was found.\<close>

primrec copyinstr_page :: "memory \<Rightarrow> u64 \<Rightarrow> nat \<Rightarrow> u8 list \<times> bool" where
  "copyinstr_page m p 0 = ([], False)"
| "copyinstr_page m p (Suc n) =
     (if m p = 0 then ([0], True)
      else case copyinstr_page m (p + 1) n of (bs, got) \<Rightarrow> (m p # bs, got))"

function copyinstr_loop ::
  "nat \<Rightarrow> u64 \<Rightarrow> u64 \<Rightarrow> nat \<Rightarrow> u8 list \<Rightarrow> 'a procst_scheme \<Rightarrow> (i32 \<times> u8 list \<times> 'a procst_scheme) res"
where
  "copyinstr_loop h pt srcva mx acc s =
     (if mx = 0 then Ok (- 1, acc, s)
      else let va0 = PGROUNDDOWN srcva
           in rbind (walkaddr h pt va0 s) (\<lambda>(pa0, s).
             if pa0 = 0 then Ok (- 1, acc, s)
             else let n = chunk srcva mx
                  in case copyinstr_page (mem s) (pa0 + (srcva - va0)) n of (bs, got) \<Rightarrow>
                       if got then Ok (0, acc @ bs, s)
                       else copyinstr_loop h pt (va0 + PGSIZE) (mx - n) (acc @ bs) s))"
  by pat_completeness auto
termination
  by (relation "measure (\<lambda>(h, pt, srcva, mx, acc, s). mx)")
     (auto simp: chunk_bounds)

declare copyinstr_loop.simps [simp del]

definition copyinstr ::
  "nat \<Rightarrow> u64 \<Rightarrow> u64 \<Rightarrow> nat \<Rightarrow> 'a procst_scheme \<Rightarrow> (i32 \<times> u8 list \<times> 'a procst_scheme) res" where
  "copyinstr h pt srcva mx s = copyinstr_loop h pt srcva mx [] s"

section \<open>Either side\<close>

text \<open>With a kernel destination the bytes go to the caller's kernel buffer, the list in the result.\<close>

definition either_copyout ::
  "nat \<Rightarrow> bool \<Rightarrow> u64 \<Rightarrow> u8 list \<Rightarrow> 'a procst_scheme \<Rightarrow> (i32 \<times> u8 list \<times> 'a procst_scheme) res" where
  "either_copyout h user_dst dst src s =
     rbind (myproc h s) (\<lambda>(mp, s).
       if user_dst
       then rbind (deref mp) (\<lambda>p.
              rbind (copyout h (pagetable (procs s p)) dst src s) (\<lambda>(r, s). Ok (r, [], s)))
       else Ok (0, src, s))"

text \<open>With a kernel source the bytes are those of the caller's kernel buffer \<open>kbuf\<close>.\<close>

definition either_copyin ::
  "nat \<Rightarrow> bool \<Rightarrow> u64 \<Rightarrow> u8 list \<Rightarrow> nat \<Rightarrow> 'a procst_scheme \<Rightarrow> (i32 \<times> u8 list \<times> 'a procst_scheme) res"
where
  "either_copyin h user_src src kbuf len s =
     rbind (myproc h s) (\<lambda>(mp, s).
       if user_src
       then rbind (deref mp) (\<lambda>p. copyin h (pagetable (procs s p)) src len s)
       else Ok (0, take len kbuf, s))"

section \<open>System-call arguments\<close>

text \<open>Little-endian words in a byte list.\<close>

definition word64_of :: "u8 list \<Rightarrow> u64" where
  "word64_of bs = foldr (\<lambda>b w. push_bit 8 w OR ucast b) bs 0"

definition fetchaddr ::
  "nat \<Rightarrow> u64 \<Rightarrow> 'a procst_scheme \<Rightarrow> (u64 option \<times> 'a procst_scheme) res" where
  "fetchaddr h addr s =
     rbind (myproc h s) (\<lambda>(mp, s).
     rbind (deref mp) (\<lambda>p.
       if sz (procs s p) \<le> addr \<or> sz (procs s p) < addr + 8 then Ok (None, s)
       else rbind (copyin h (pagetable (procs s p)) addr 8 s) (\<lambda>(r, bs, s).
         if r \<noteq> 0 then Ok (None, s) else Ok (Some (word64_of bs), s))))"

text \<open>The string without its terminator, or the error -1.\<close>

definition fetchstr ::
  "nat \<Rightarrow> u64 \<Rightarrow> nat \<Rightarrow> 'a procst_scheme \<Rightarrow> (u8 list option \<times> 'a procst_scheme) res" where
  "fetchstr h addr mx s =
     rbind (myproc h s) (\<lambda>(mp, s).
     rbind (deref mp) (\<lambda>p.
       rbind (copyinstr h (pagetable (procs s p)) addr mx s) (\<lambda>(r, bs, s).
         if r <s 0 then Ok (None, s) else Ok (Some (takeWhile (\<lambda>b. b \<noteq> 0) bs), s))))"

definition argraw :: "nat \<Rightarrow> nat \<Rightarrow> 'a procst_scheme \<Rightarrow> (u64 \<times> 'a procst_scheme) res" where
  "argraw h n s =
     rbind (myproc h s) (\<lambda>(mp, s).
     rbind (deref mp) (\<lambda>p.
       if n = 0 then Ok (tf_get p TF_A0 s, s)
       else if n = 1 then Ok (tf_get p TF_A1 s, s)
       else if n = 2 then Ok (tf_get p TF_A2 s, s)
       else if n = 3 then Ok (tf_get p TF_A3 s, s)
       else if n = 4 then Ok (tf_get p TF_A4 s, s)
       else if n = 5 then Ok (tf_get p TF_A5 s, s)
       else Panic ''argraw''))"

definition argint :: "nat \<Rightarrow> nat \<Rightarrow> 'a procst_scheme \<Rightarrow> (i32 \<times> 'a procst_scheme) res" where
  "argint h n s = rbind (argraw h n s) (\<lambda>(v, s). Ok (ucast v, s))"

definition argaddr :: "nat \<Rightarrow> nat \<Rightarrow> 'a procst_scheme \<Rightarrow> (u64 \<times> 'a procst_scheme) res" where
  "argaddr h n s = argraw h n s"

definition argstr ::
  "nat \<Rightarrow> nat \<Rightarrow> nat \<Rightarrow> 'a procst_scheme \<Rightarrow> (u8 list option \<times> 'a procst_scheme) res" where
  "argstr h n mx s = rbind (argaddr h n s) (\<lambda>(addr, s). fetchstr h addr mx s)"

end
