(* ===== verification/Proc.thy ===== *)
theory Proc
  imports Usercopy
begin

text \<open>
  The process table of \<^verbatim>\<open>kernel/proc.c\<close>: allocation, memory, the scheduler, sleeping and waking,
  killing, waiting, and the statistics. The operations that call the file system (\<^verbatim>\<open>userinit\<close>,
  \<^verbatim>\<open>kfork\<close>, \<^verbatim>\<open>kexit\<close>, \<^verbatim>\<open>forkret\<close>) are in a later theory.

  A switch of kernel threads ends one piece of code and begins another, so \<^verbatim>\<open>sched\<close>, \<^verbatim>\<open>yield\<close>,
  \<^verbatim>\<open>sleep\<close> and \<^verbatim>\<open>scheduler\<close> are each a pair: the code before \<^verbatim>\<open>swtch\<close> and the code after it.
  The local variable \<^verbatim>\<open>intena\<close> of \<^verbatim>\<open>sched\<close> lives on the stack of the thread; the first half
  returns it and the second half takes it.
\<close>

section \<open>Blocking calls\<close>

text \<open>A call that may sleep: it has gone to sleep, holding the local variables \<open>'k\<close>, or returned.\<close>

datatype ('k, 'r) blocking = Sleeping 'k | Return 'r

section \<open>Tables\<close>

definition procinit :: "'a procst_scheme \<Rightarrow> 'a procst_scheme" where
  "procinit s =
     fold (\<lambda>i s. upd_proc i (\<lambda>p. p\<lparr>state := UNUSED, kstack := KSTACK i\<rparr>)
                   (initlock (PLock i) ''proc'' s))
       [0..<NPROC] (initlock WaitLock ''wait_lock'' (initlock PidLock ''nextpid'' s))"

definition allocpid :: "nat \<Rightarrow> 'a procst_scheme \<Rightarrow> (i32 \<times> 'a procst_scheme) res" where
  "allocpid h s =
     rbind (acquire h PidLock s) (\<lambda>s.
       let pid = nextpid s; s = s\<lparr>nextpid := nextpid s + 1\<rparr>
       in rbind (release h PidLock s) (\<lambda>s. Ok (pid, s)))"

definition proc_pagetable :: "nat \<Rightarrow> nat \<Rightarrow> 'a procst_scheme \<Rightarrow> (u64 \<times> 'a procst_scheme) res" where
  "proc_pagetable h p s =
     rbind (uvmcreate h s) (\<lambda>(pt, s).
       if pt = 0 then Ok (0, s)
       else rbind (mappages h pt TRAMPOLINE PGSIZE (trampoline_sym s) (2 OR 8) s) (\<lambda>(r, s).
         if r <s 0 then rbind (uvmfree h pt 0 s) (\<lambda>s. Ok (0, s))
         else rbind (mappages h pt TRAPFRAME PGSIZE (trapframe (procs s p)) (2 OR 4) s) (\<lambda>(r, s).
           if r <s 0
           then rbind (uvmunmap h pt TRAMPOLINE 1 False s) (\<lambda>s.
             rbind (uvmfree h pt 0 s) (\<lambda>s. Ok (0, s)))
           else Ok (pt, s))))"

definition proc_freepagetable ::
  "nat \<Rightarrow> u64 \<Rightarrow> u64 \<Rightarrow> 'a procst_scheme \<Rightarrow> 'a procst_scheme res" where
  "proc_freepagetable h pt n s =
     rbind (uvmunmap h pt TRAMPOLINE 1 False s) (\<lambda>s.
     rbind (uvmunmap h pt TRAPFRAME 1 False s) (\<lambda>s.
     uvmfree h pt n s))"

definition freeproc :: "nat \<Rightarrow> nat \<Rightarrow> 'a procst_scheme \<Rightarrow> 'a procst_scheme res" where
  "freeproc h p s =
     rbind (if trapframe (procs s p) \<noteq> 0 then kfree h (trapframe (procs s p)) s else Ok s) (\<lambda>s.
     let s = upd_proc p (\<lambda>q. q\<lparr>trapframe := 0\<rparr>) s in
     rbind (if pagetable (procs s p) \<noteq> 0
            then proc_freepagetable h (pagetable (procs s p)) (sz (procs s p)) s else Ok s) (\<lambda>s.
     Ok (upd_proc p (\<lambda>q. reset_metrics
           (q\<lparr>pagetable := 0, sz := 0, pid := 0, parent := None, pname := [], chan := None,
              killed := 0, xstate := 0, state := UNUSED\<rparr>)) s)))"

text \<open>\<open>Some p\<close> comes with the lock of \<open>p\<close> held.\<close>

definition allocproc :: "nat \<Rightarrow> 'a procst_scheme \<Rightarrow> (nat option \<times> 'a procst_scheme) res" where
  "allocproc h s =
     rbind (rsearch (\<lambda>p s.
              rbind (acquire h (PLock p) s) (\<lambda>s.
                if state (procs s p) = UNUSED then Ok (Some p, s)
                else rbind (release h (PLock p) s) (\<lambda>s. Ok (None, s)))) [0..<NPROC] s)
       (\<lambda>(found, s). case found of
          None \<Rightarrow> Ok (None, s)
        | Some p \<Rightarrow>
            rbind (allocpid h s) (\<lambda>(n, s).
            let s = upd_proc p (\<lambda>q. q\<lparr>pid := n, state := USED\<rparr>) s in
            rbind (kalloc h s) (\<lambda>(tf, s).
            let s = upd_proc p (\<lambda>q. q\<lparr>trapframe := tf\<rparr>) s in
            if tf = 0
            then rbind (freeproc h p s) (\<lambda>s. rbind (release h (PLock p) s) (\<lambda>s. Ok (None, s)))
            else rbind (proc_pagetable h p s) (\<lambda>(pt, s).
              let s = upd_proc p (\<lambda>q. q\<lparr>pagetable := pt\<rparr>) s in
              if pt = 0
              then rbind (freeproc h p s) (\<lambda>s. rbind (release h (PLock p) s) (\<lambda>s. Ok (None, s)))
              else Ok (Some p, upd_proc p (\<lambda>q. init_metrics (ticks s)
                     (q\<lparr>pcontext := \<lparr>ctx_ra = forkret_sym s, ctx_sp = kstack q + PGSIZE,
                                     ctx_s = \<lambda>_. 0\<rparr>\<rparr>)) s)))))"

section \<open>Memory of the current process\<close>

definition growproc :: "nat \<Rightarrow> i32 \<Rightarrow> 'a procst_scheme \<Rightarrow> (i32 \<times> 'a procst_scheme) res" where
  "growproc h n s =
     rbind (myproc h s) (\<lambda>(mp, s).
     rbind (deref mp) (\<lambda>p.
     let old = sz (procs s p); pt = pagetable (procs s p);
         set = (\<lambda>new s. upd_proc p (\<lambda>q. q\<lparr>sz := new\<rparr>) s)
     in if 0 <s n
        then if TRAPFRAME < old + scast n then Ok (- 1, s)
             else rbind (uvmalloc h pt old (old + scast n) 4 s) (\<lambda>(new, s).
               if new = 0 then Ok (- 1, s) else Ok (0, set new s))
        else if n <s 0
        then rbind (uvmdealloc h pt old (old + scast n) s) (\<lambda>(new, s). Ok (0, set new s))
        else Ok (0, set old s)))"

section \<open>The scheduler\<close>

text \<open>Pass 1 of \<^verbatim>\<open>scheduler\<close> on one process; the accumulator is the best candidate and its priority.\<close>

definition pick_body ::
  "nat \<Rightarrow> nat option \<times> i32 \<Rightarrow> 'a procst_scheme \<Rightarrow> (nat option \<times> i32) \<times> 'a procst_scheme" where
  "pick_body p best s =
     (if state (procs s p) = RUNNABLE
      then let s = upd_proc p (\<lambda>q. q\<lparr>priority := calc_dynamic_priority q\<rparr>) s
           in (if snd best <s priority (procs s p) then (Some p, priority (procs s p)) else best, s)
      else (best, s))"

definition scheduler_pick :: "nat \<Rightarrow> 'a procst_scheme \<Rightarrow> ((nat option \<times> i32) \<times> 'a procst_scheme) res"
  where
  "scheduler_pick h s =
     rfold (\<lambda>p (best, s). with_lock h (PLock p) (pick_body p best) s) [0..<NPROC]
       ((None, - 1), intr_off h (intr_on h s))"

definition set_cproc :: "nat \<Rightarrow> nat option \<Rightarrow> 'a procst_scheme \<Rightarrow> 'a procst_scheme" where
  "set_cproc h mp s = s\<lparr>cpus := (cpus s)(h := (cpus s h)\<lparr>c_proc := mp\<rparr>)\<rparr>"

text \<open>Pass 2 up to \<^verbatim>\<open>swtch\<close>: \<open>Some p\<close> means that the hart now runs the thread of \<open>p\<close>, with its lock
  held; \<open>None\<close> that nothing was dispatched and the hart waits for an interrupt.\<close>

definition scheduler_dispatch ::
  "nat \<Rightarrow> nat option \<Rightarrow> 'a procst_scheme \<Rightarrow> (nat option \<times> 'a procst_scheme) res" where
  "scheduler_dispatch h best_p s =
     (case best_p of
        None \<Rightarrow> Ok (None, s)
      | Some p \<Rightarrow>
          rbind (acquire h (PLock p) s) (\<lambda>s.
            if state (procs s p) = RUNNABLE
            then let s = upd_proc p (\<lambda>q. dispatch_account (ticks s) (q\<lparr>state := RUNNING\<rparr>)) s
                 in Ok (Some p, set_cproc h (Some p) s)
            else rbind (release h (PLock p) s) (\<lambda>s. Ok (None, s))))"

definition scheduler_round :: "nat \<Rightarrow> 'a procst_scheme \<Rightarrow> (nat option \<times> 'a procst_scheme) res" where
  "scheduler_round h s =
     rbind (scheduler_pick h s) (\<lambda>((best_p, _), s). scheduler_dispatch h best_p s)"

text \<open>The code after \<^verbatim>\<open>swtch\<close> when the thread of \<open>p\<close> gives the hart back.\<close>

definition scheduler_return :: "nat \<Rightarrow> nat \<Rightarrow> 'a procst_scheme \<Rightarrow> 'a procst_scheme res" where
  "scheduler_return h p s = release h (PLock p) (set_cproc h None s)"

section \<open>Giving up the CPU\<close>

text \<open>\<^verbatim>\<open>sched\<close> up to \<^verbatim>\<open>swtch\<close>; the result is the thread's \<^verbatim>\<open>intena\<close>.\<close>

definition sched_enter :: "nat \<Rightarrow> 'a procst_scheme \<Rightarrow> (bool \<times> 'a procst_scheme) res" where
  "sched_enter h s =
     rbind (myproc h s) (\<lambda>(mp, s).
     rbind (deref mp) (\<lambda>p.
       if \<not> holding h (PLock p) s then Panic ''sched p->lock''
       else if noff (cpus s h) \<noteq> 1 then Panic ''sched locks''
       else if state (procs s p) = RUNNING then Panic ''sched RUNNING''
       else if intr_get h s then Panic ''sched interruptible''
       else let s = upd_proc p (sched_account (ticks s) (state (procs s p))) s
            in Ok (intena (cpus s h), s)))"

definition sched_return :: "nat \<Rightarrow> bool \<Rightarrow> 'a procst_scheme \<Rightarrow> 'a procst_scheme" where
  "sched_return h ie s = s\<lparr>cpus := (cpus s)(h := (cpus s h)\<lparr>intena := ie\<rparr>)\<rparr>"

definition yield_enter :: "nat \<Rightarrow> 'a procst_scheme \<Rightarrow> (bool \<times> 'a procst_scheme) res" where
  "yield_enter h s =
     rbind (myproc h s) (\<lambda>(mp, s).
     rbind (deref mp) (\<lambda>p.
     rbind (acquire h (PLock p) s) (\<lambda>s.
       sched_enter h (upd_proc p (\<lambda>q. q\<lparr>state := RUNNABLE\<rparr>) s))))"

definition yield_return :: "nat \<Rightarrow> nat \<Rightarrow> bool \<Rightarrow> 'a procst_scheme \<Rightarrow> 'a procst_scheme res" where
  "yield_return h p ie s = release h (PLock p) (sched_return h ie s)"

definition sleep_enter ::
  "nat \<Rightarrow> channel \<Rightarrow> lockid \<Rightarrow> 'a procst_scheme \<Rightarrow> (bool \<times> 'a procst_scheme) res" where
  "sleep_enter h ch lk s =
     rbind (myproc h s) (\<lambda>(mp, s).
     rbind (deref mp) (\<lambda>p.
     rbind (acquire h (PLock p) s) (\<lambda>s.
     rbind (release h lk s) (\<lambda>s.
       sched_enter h (upd_proc p (\<lambda>q. q\<lparr>chan := Some ch, state := SLEEPING\<rparr>) s)))))"

definition sleep_return ::
  "nat \<Rightarrow> nat \<Rightarrow> bool \<Rightarrow> lockid \<Rightarrow> 'a procst_scheme \<Rightarrow> 'a procst_scheme res" where
  "sleep_return h p ie lk s =
     (let s = upd_proc p (\<lambda>q. q\<lparr>chan := None\<rparr>) (sched_return h ie s)
      in rbind (release h (PLock p) s) (\<lambda>s. acquire h lk s))"

definition wake_body :: "channel option \<Rightarrow> nat \<Rightarrow> unit \<Rightarrow> 'a procst_scheme \<Rightarrow> unit \<times> 'a procst_scheme"
  where
  "wake_body ch p x s =
     (x, if state (procs s p) = SLEEPING \<and> chan (procs s p) = ch
         then upd_proc p (\<lambda>q. q\<lparr>state := RUNNABLE\<rparr>) s else s)"

definition wakeup :: "nat \<Rightarrow> channel option \<Rightarrow> 'a procst_scheme \<Rightarrow> 'a procst_scheme res" where
  "wakeup h ch s =
     rfold (\<lambda>p s. rbind (myproc h s) (\<lambda>(mp, s).
        if mp = Some p then Ok s
        else rbind (with_lock h (PLock p) (wake_body ch p ()) s) (\<lambda>(_, s). Ok s))) [0..<NPROC] s"

section \<open>Killing\<close>

definition kkill :: "nat \<Rightarrow> i32 \<Rightarrow> 'a procst_scheme \<Rightarrow> (i32 \<times> 'a procst_scheme) res" where
  "kkill h n s =
     rbind (rsearch (\<lambda>p s.
              rbind (acquire h (PLock p) s) (\<lambda>s.
                if pid (procs s p) = n
                then let s = upd_proc p (\<lambda>q. q\<lparr>killed := 1\<rparr>) s;
                         s = (if state (procs s p) = SLEEPING
                              then upd_proc p (\<lambda>q. q\<lparr>state := RUNNABLE\<rparr>) s else s)
                     in rbind (release h (PLock p) s) (\<lambda>s. Ok (Some (), s))
                else rbind (release h (PLock p) s) (\<lambda>s. Ok (None, s)))) [0..<NPROC] s)
       (\<lambda>(found, s). case found of Some _ \<Rightarrow> Ok (0, s) | None \<Rightarrow> Ok (- 1, s))"

definition setkilled :: "nat \<Rightarrow> nat \<Rightarrow> 'a procst_scheme \<Rightarrow> 'a procst_scheme res" where
  "setkilled h p s =
     rbind (acquire h (PLock p) s) (\<lambda>s. release h (PLock p) (upd_proc p (\<lambda>q. q\<lparr>killed := 1\<rparr>) s))"

definition get_killed :: "nat \<Rightarrow> nat \<Rightarrow> 'a procst_scheme \<Rightarrow> (i32 \<times> 'a procst_scheme) res" where
  "get_killed h p s =
     rbind (acquire h (PLock p) s) (\<lambda>s.
       let k = killed (procs s p) in rbind (release h (PLock p) s) (\<lambda>s. Ok (k, s)))"

section \<open>Parents and children\<close>

definition reparent :: "nat \<Rightarrow> nat \<Rightarrow> 'a procst_scheme \<Rightarrow> 'a procst_scheme res" where
  "reparent h p s =
     rfold (\<lambda>pp s. if parent (procs s pp) = Some p
                   then let s = upd_proc pp (\<lambda>q. q\<lparr>parent := initproc s\<rparr>) s
                        in wakeup h (map_option ChProc (initproc s)) s
                   else Ok s) [0..<NPROC] s"

text \<open>The end of \<^verbatim>\<open>kexit\<close>, from the acquisition of the wait lock up to \<^verbatim>\<open>swtch\<close>.\<close>

definition kexit_finish :: "nat \<Rightarrow> nat \<Rightarrow> i32 \<Rightarrow> 'a procst_scheme \<Rightarrow> 'a procst_scheme res" where
  "kexit_finish h p status s =
     rbind (acquire h WaitLock s) (\<lambda>s.
     rbind (reparent h p s) (\<lambda>s.
     rbind (wakeup h (map_option ChProc (parent (procs s p))) s) (\<lambda>s.
     rbind (acquire h (PLock p) s) (\<lambda>s.
     let s = upd_proc p (\<lambda>q. q\<lparr>xstate := status, state := ZOMBIE\<rparr>) s
     in rbind (release h WaitLock s) (\<lambda>s.
        rbind (sched_enter h s) (\<lambda>(_, s). Ok s))))))"

text \<open>One scan of \<^verbatim>\<open>kwait\<close>'s table loop. \<open>Inl\<close> is the value it returns, with both locks released;
  \<open>Inr havekids\<close> is the end of the scan without a zombie.\<close>

primrec kwait_scan ::
  "nat \<Rightarrow> nat \<Rightarrow> u64 \<Rightarrow> nat list \<Rightarrow> bool \<Rightarrow> 'a procst_scheme \<Rightarrow> ((i32 + bool) \<times> 'a procst_scheme) res"
where
  "kwait_scan h p addr [] havekids s = Ok (Inr havekids, s)"
| "kwait_scan h p addr (pp # pps) havekids s =
     (if parent (procs s pp) = Some p
      then rbind (acquire h (PLock pp) s) (\<lambda>s.
        if state (procs s pp) = ZOMBIE
        then let n = pid (procs s pp)
             in rbind (if addr \<noteq> 0
                       then copyout h (pagetable (procs s p)) addr (bytes32 (xstate (procs s pp))) s
                       else Ok (0, s)) (\<lambda>(r, s).
               if addr \<noteq> 0 \<and> r <s 0
               then rbind (release h (PLock pp) s) (\<lambda>s.
                 rbind (release h WaitLock s) (\<lambda>s. Ok (Inl (- 1), s)))
               else rbind (freeproc h pp s) (\<lambda>s.
                 rbind (release h (PLock pp) s) (\<lambda>s.
                 rbind (release h WaitLock s) (\<lambda>s. Ok (Inl n, s)))))
        else rbind (release h (PLock pp) s) (\<lambda>s. kwait_scan h p addr pps True s))
      else kwait_scan h p addr pps havekids s)"

text \<open>One turn of the outer loop, entered with the wait lock held.\<close>

definition kwait_turn ::
  "nat \<Rightarrow> nat \<Rightarrow> u64 \<Rightarrow> 'a procst_scheme \<Rightarrow> ((bool, i32) blocking \<times> 'a procst_scheme) res" where
  "kwait_turn h p addr s =
     rbind (kwait_scan h p addr [0..<NPROC] False s) (\<lambda>(r, s).
       case r of
         Inl v \<Rightarrow> Ok (Return v, s)
       | Inr havekids \<Rightarrow>
           rbind (if \<not> havekids then Ok (1, s) else get_killed h p s) (\<lambda>(k, s).
             if \<not> havekids \<or> k \<noteq> 0
             then rbind (release h WaitLock s) (\<lambda>s. Ok (Return (- 1), s))
             else rbind (sleep_enter h (ChProc p) WaitLock s) (\<lambda>(ie, s). Ok (Sleeping ie, s))))"

definition kwait_enter ::
  "nat \<Rightarrow> u64 \<Rightarrow> 'a procst_scheme \<Rightarrow> ((bool, i32) blocking \<times> 'a procst_scheme) res" where
  "kwait_enter h addr s =
     rbind (myproc h s) (\<lambda>(mp, s).
     rbind (deref mp) (\<lambda>p.
     rbind (acquire h WaitLock s) (\<lambda>s. kwait_turn h p addr s)))"

definition kwait_return ::
  "nat \<Rightarrow> nat \<Rightarrow> bool \<Rightarrow> u64 \<Rightarrow> 'a procst_scheme \<Rightarrow> ((bool, i32) blocking \<times> 'a procst_scheme) res" where
  "kwait_return h p ie addr s =
     rbind (sleep_return h p ie WaitLock s) (\<lambda>s. kwait_turn h p addr s)"

section \<open>Accounting and statistics\<close>

definition tick_body :: "nat \<Rightarrow> unit \<Rightarrow> 'a procst_scheme \<Rightarrow> unit \<times> 'a procst_scheme" where
  "tick_body p x s =
     (x, if state (procs s p) = RUNNABLE then upd_proc p (clock_account (ticks s)) s else s)"

definition clock_tick_accounting :: "nat \<Rightarrow> 'a procst_scheme \<Rightarrow> 'a procst_scheme res" where
  "clock_tick_accounting h s =
     rbind (rfold (\<lambda>p (x, s). with_lock h (PLock p) (tick_body p x) s) [0..<NPROC] ((), s))
       (\<lambda>(_, s). Ok s)"

text \<open>\<^verbatim>\<open>struct procinfo\<close> is 144 bytes. It is a local variable that is never cleared: the bytes that
  the assignments leave alone keep what the stack held, \<open>old\<close>.\<close>

definition put_at :: "nat \<Rightarrow> u8 list \<Rightarrow> u8 list \<Rightarrow> u8 list" where
  "put_at off bs old = take off old @ bs @ drop (off + length bs) old"

definition state_code :: "procstate \<Rightarrow> i32" where
  "state_code st =
     (case st of UNUSED \<Rightarrow> 0 | USED \<Rightarrow> 1 | SLEEPING \<Rightarrow> 2 | RUNNABLE \<Rightarrow> 3 | RUNNING \<Rightarrow> 4 | ZOMBIE \<Rightarrow> 5)"

definition fill_procinfo :: "i32 \<Rightarrow> proc \<Rightarrow> u8 list \<Rightarrow> u8 list" where
  "fill_procinfo ppid p old =
     fold (\<lambda>(off, bs). put_at off bs)
       [(0, bytes32 (pid p)), (4, bytes32 ppid), (8, take 15 (pname p) @ [0]),
        (24, bytes32 (state_code (state p))), (32, bytes64 (cputicks p)),
        (40, bytes64 (waitticks p)), (48, bytes64 (sched_count p)), (56, bytes64 (switches p)),
        (64, bytes64 (creation_tick p)), (72, bytes64 (last_sched_tick p)),
        (80, bytes32 (current_burst p)), (84, bytes32 (last_burst p)),
        (88, bytes32 (est_burst p)), (92, bytes32 (proc_type p)), (96, bytes32 (priority p)),
        (100, bytes32 (time_slice p)), (104, bytes32 (ticks_in_slice p)),
        (108, bytes32 (predicted_burst p)), (112, bytes32 (prediction_error p)),
        (116, bytes32 (anomaly_score p)), (120, bytes32 (anomaly_flags p)),
        (124, bytes32 (health_status p)), (128, bytes32 (healing_actions p)),
        (136, bytes64 (last_heal_tick p))] old"

primrec proc_stats_loop ::
  "nat \<Rightarrow> u64 \<Rightarrow> u64 \<Rightarrow> i32 \<Rightarrow> nat list \<Rightarrow> i32 \<Rightarrow> u8 list \<Rightarrow> 'a procst_scheme \<Rightarrow>
   (i32 \<times> 'a procst_scheme) res" where
  "proc_stats_loop h pt dst mx [] cnt pinfo s = Ok (cnt, s)"
| "proc_stats_loop h pt dst mx (p # ps) cnt pinfo s =
     rbind (acquire h (PLock p) s) (\<lambda>s.
       if state (procs s p) \<noteq> UNUSED
       then if cnt <s mx
            then let ppid = (case parent (procs s p) of Some q \<Rightarrow> pid (procs s q) | None \<Rightarrow> 0);
                     pinfo = fill_procinfo ppid (procs s p) pinfo
                 in rbind (release h (PLock p) s) (\<lambda>s.
                    rbind (copyout h pt (dst + scast cnt * 144) pinfo s) (\<lambda>(r, s).
                      if r <s 0 then Ok (- 1, s)
                      else proc_stats_loop h pt dst mx ps (cnt + 1) pinfo s))
            else rbind (release h (PLock p) s) (\<lambda>s.
                   proc_stats_loop h pt dst mx ps (cnt + 1) pinfo s)
       else rbind (release h (PLock p) s) (\<lambda>s. proc_stats_loop h pt dst mx ps cnt pinfo s))"

text \<open>\<open>stk\<close> is what the stack holds where \<^verbatim>\<open>pi\<close> is placed.\<close>

definition get_proc_stats ::
  "nat \<Rightarrow> u8 list \<Rightarrow> u64 \<Rightarrow> i32 \<Rightarrow> 'a procst_scheme \<Rightarrow> (i32 \<times> 'a procst_scheme) res" where
  "get_proc_stats h stk dst_addr max_entries s =
     rbind (myproc h s) (\<lambda>(mp, s).
     rbind (deref mp) (\<lambda>curr.
       proc_stats_loop h (pagetable (procs s curr)) dst_addr max_entries [0..<NPROC] 0 stk s))"

record wcounts =
  w_runnable :: i32
  w_running :: i32
  w_sleeping :: i32
  w_total :: i32
  w_interactive :: i32
  w_cpu_bound :: i32
  w_mixed :: i32
  w_healthy :: i32
  w_warning :: i32
  w_critical :: i32
  w_heals :: i32
  w_burst :: u32

definition no_counts :: wcounts where
  "no_counts = \<lparr>w_runnable = 0, w_running = 0, w_sleeping = 0, w_total = 0, w_interactive = 0,
     w_cpu_bound = 0, w_mixed = 0, w_healthy = 0, w_warning = 0, w_critical = 0, w_heals = 0,
     w_burst = 0\<rparr>"

definition count_proc :: "proc \<Rightarrow> wcounts \<Rightarrow> wcounts" where
  "count_proc p w =
     (if state p \<noteq> UNUSED
      then let w = w\<lparr>w_total := w_total w + 1\<rparr>;
               w = (if state p = RUNNABLE then w\<lparr>w_runnable := w_runnable w + 1\<rparr>
                    else if state p = RUNNING then w\<lparr>w_running := w_running w + 1\<rparr>
                    else if state p = SLEEPING then w\<lparr>w_sleeping := w_sleeping w + 1\<rparr>
                    else w);
               w = w\<lparr>w_burst := w_burst w + est_burst p\<rparr>;
               w = (if proc_type p = PROC_TYPE_INTERACTIVE
                    then w\<lparr>w_interactive := w_interactive w + 1\<rparr>
                    else if proc_type p = PROC_TYPE_CPU_BOUND
                    then w\<lparr>w_cpu_bound := w_cpu_bound w + 1\<rparr>
                    else if proc_type p = PROC_TYPE_MIXED then w\<lparr>w_mixed := w_mixed w + 1\<rparr>
                    else w);
               w = (if health_status p = HEALTH_NORMAL then w\<lparr>w_healthy := w_healthy w + 1\<rparr>
                    else if health_status p = HEALTH_WARNING
                    then w\<lparr>w_warning := w_warning w + 1\<rparr>
                    else if health_status p = HEALTH_CRITICAL
                    then w\<lparr>w_critical := w_critical w + 1\<rparr>
                    else w)
           in w\<lparr>w_heals := w_heals w + healing_actions p\<rparr>
      else w)"

definition count_body :: "nat \<Rightarrow> wcounts \<Rightarrow> 'a procst_scheme \<Rightarrow> wcounts \<times> 'a procst_scheme" where
  "count_body p w s = (count_proc (procs s p) w, s)"

record workload_info =
  num_runnable :: i32
  num_running :: i32
  num_sleeping :: i32
  num_total :: i32
  avg_est_burst :: u32
  pct_interactive :: i32
  pct_cpu_bound :: i32
  pct_mixed :: i32
  num_healthy :: i32
  num_warning :: i32
  num_critical :: i32
  total_healing_actions :: i32

definition summarise :: "wcounts \<Rightarrow> workload_info" where
  "summarise w = \<lparr>num_runnable = w_runnable w, num_running = w_running w,
     num_sleeping = w_sleeping w, num_total = w_total w,
     avg_est_burst = (if 0 <s w_total w then w_burst w div w_total w else 0),
     pct_interactive = (if 0 <s w_total w then sdiv_i32 (w_interactive w * 100) (w_total w) else 0),
     pct_cpu_bound = (if 0 <s w_total w then sdiv_i32 (w_cpu_bound w * 100) (w_total w) else 0),
     pct_mixed = (if 0 <s w_total w then sdiv_i32 (w_mixed w * 100) (w_total w) else 0),
     num_healthy = w_healthy w, num_warning = w_warning w, num_critical = w_critical w,
     total_healing_actions = w_heals w\<rparr>"

definition get_workload_stats :: "nat \<Rightarrow> 'a procst_scheme \<Rightarrow> (workload_info \<times> 'a procst_scheme) res"
  where
  "get_workload_stats h s =
     rbind (rfold (\<lambda>p (w, s). with_lock h (PLock p) (count_body p w) s) [0..<NPROC] (no_counts, s))
       (\<lambda>(w, s). Ok (summarise w, s))"

definition workload_bytes :: "workload_info \<Rightarrow> u8 list" where
  "workload_bytes w = concat (map bytes32
     [num_runnable w, num_running w, num_sleeping w, num_total w, avg_est_burst w,
      pct_interactive w, pct_cpu_bound w, pct_mixed w, num_healthy w, num_warning w,
      num_critical w, total_healing_actions w])"

end
