(* ===== verification/Proc_Laws.thy ===== *)
theory Proc_Laws
  imports Proc
begin

text \<open>
  The loops over the process table as atomic steps. Every body that runs under a process lock obeys the
  interface \<^verbatim>\<open>lock_frame\<close>, so on a machine whose process locks are free each loop is a fold of the
  bodies, and the fold is one map over the table.
\<close>

section \<open>The bodies obey the interface\<close>

lemma upd_proc_frame:
  "upd_proc p f (s\<lparr>cpus := v\<rparr>) = (upd_proc p f s)\<lparr>cpus := v\<rparr>"
  "upd_proc p f (s\<lparr>sie := w\<rparr>) = (upd_proc p f s)\<lparr>sie := w\<rparr>"
  "upd_proc p f (s\<lparr>locks := L\<rparr>) = (upd_proc p f s)\<lparr>locks := L\<rparr>"
  by (simp_all add: upd_proc_def)

interpretation pick: lock_frame "pick_body :: nat \<Rightarrow> nat option \<times> i32 \<Rightarrow> 'a procst_scheme \<Rightarrow> _"
  by unfold_locales (simp_all add: pick_body_def Let_def upd_proc_frame)

interpretation wake: lock_frame "wake_body ch :: nat \<Rightarrow> unit \<Rightarrow> 'a procst_scheme \<Rightarrow> _" for ch
  by unfold_locales (simp_all add: wake_body_def upd_proc_frame)

interpretation clock: lock_frame "tick_body :: nat \<Rightarrow> unit \<Rightarrow> 'a procst_scheme \<Rightarrow> _"
  by unfold_locales (simp_all add: tick_body_def upd_proc_frame)

interpretation stats: lock_frame "count_body :: nat \<Rightarrow> wcounts \<Rightarrow> 'a procst_scheme \<Rightarrow> _"
  by unfold_locales (simp_all add: count_body_def)

section \<open>Machines with free process locks\<close>

definition table_free :: "nat \<Rightarrow> 'a procst_scheme \<Rightarrow> bool" where
  "table_free h s \<longleftrightarrow> hart_ok h s \<and> (\<forall>p < NPROC. lock_free (PLock p) s)"

lemma table_freeD:
  assumes "table_free h s"
  shows "hart_ok h s" "p < NPROC \<Longrightarrow> lock_free (PLock p) s"
  using assms by (simp_all add: table_free_def)

lemma table_free_upd [simp]: "table_free h (upd_proc p f s) = table_free h s"
  by (simp add: table_free_def)

lemma table_free_touch [simp]: "table_free h (touch g s) = table_free h s"
  by (simp add: table_free_def)

lemma NPROC_pos [simp]: "0 < NPROC" "NPROC \<noteq> 0"
  by (simp_all add: NPROC_def)

section \<open>Waking\<close>

definition woken :: "channel option \<Rightarrow> proc \<Rightarrow> proc" where
  "woken ch q = (if state q = SLEEPING \<and> chan q = ch then q\<lparr>state := RUNNABLE\<rparr> else q)"

definition map_procs :: "(nat \<Rightarrow> proc \<Rightarrow> proc) \<Rightarrow> 'a procst_scheme \<Rightarrow> 'a procst_scheme" where
  "map_procs f s = s\<lparr>procs := \<lambda>i. if i < NPROC then f i (procs s i) else procs s i\<rparr>"

lemma procs_triv: "s\<lparr>procs := procs s\<rparr> = s" for s :: "'a procst_scheme"
  by simp

lemma upd_proc_eq_procs: "upd_proc p f s = s\<lparr>procs := (procs s)(p := f (procs s p))\<rparr>"
  by (simp add: upd_proc_def)

lemma fold_upd_procs:
  "fold (\<lambda>p s. upd_proc p (f p) s) ps s =
   s\<lparr>procs := fold (\<lambda>p t. t(p := f p (t p))) ps (procs s)\<rparr>"
  by (induction ps arbitrary: s) (simp_all add: upd_proc_def)

lemma fold_upd_NPROC: "fold (\<lambda>p s. upd_proc p (f p) s) [0..<NPROC] s = map_procs f s"
  by (simp add: fold_upd_procs fold_table_map map_procs_def)

lemma wake_body_woken: "snd (wake_body ch p () s) = upd_proc p (woken ch) s"
  by (auto simp: wake_body_def woken_def upd_proc_def)

lemma touch_upd_proc: "touch h (upd_proc p f s) = upd_proc p f (touch h s)"
  by (simp add: touch_def upd_proc_def)

text \<open>One turn of the loop of \<^const>\<open>wakeup\<close>.\<close>

lemma wakeup_turn:
  assumes "hart_ok h s" and "lock_free (PLock p) s"
  shows "rbind (myproc h s) (\<lambda>(mp, s). if mp = Some p then Ok s
           else rbind (with_lock h (PLock p) (wake_body ch p ()) s) (\<lambda>(_, s). Ok s)) =
         Ok (upd_proc p (if c_proc (cpus s h) = Some p then id else woken ch) (touch h s))"
proof -
  have ok: "hart_ok h (touch h s)" "lock_free (PLock p) (touch h s)"
    using assms by simp_all
  have sect: "with_lock h (PLock p) (wake_body ch p ()) (touch h s) =
              Ok (wake_body ch p () (touch h s))"
    using wake.section_atomic[OF ok, of ch p "()"] by simp
  show ?thesis
    using wake_body_woken[of ch p "touch h s"]
    by (simp add: myproc_Ok[OF assms(1)] sect split_beta upd_proc_def)
qed

lemma fold_touch_upd:
  "fold (\<lambda>p s. upd_proc p (f p) (touch h s)) ps s =
   (if ps = [] then s else fold (\<lambda>p s. upd_proc p (f p) s) ps (touch h s))"
  by (induction ps arbitrary: s) (auto simp: touch_upd_proc)

theorem wakeup_map:
  assumes "table_free h s"
  shows "wakeup h ch s =
         Ok (map_procs (\<lambda>i. if c_proc (cpus s h) = Some i then id else woken ch) (touch h s))"
proof -
  let ?f = "\<lambda>i. if c_proc (cpus s h) = Some i then id else woken ch"
  let ?I = "\<lambda>t. table_free h t \<and> c_proc (cpus t h) = c_proc (cpus s h)"
  let ?g = "\<lambda>p s. upd_proc p (?f p) (touch h s)"
  have "wakeup h ch s = Ok (fold ?g [0..<NPROC] s) \<and> ?I (fold ?g [0..<NPROC] s)"
    unfolding wakeup_def
  proof (rule rfold_pure)
    show "?I s" using assms by simp
    fix p and t :: "'a procst_scheme"
    assume "p \<in> set [0..<NPROC]" and "?I t"
    then show "rbind (myproc h t) (\<lambda>(mp, s). if mp = Some p then Ok s
        else rbind (with_lock h (PLock p) (wake_body ch p ()) s) (\<lambda>(_, s). Ok s)) = Ok (?g p t) \<and>
        ?I (?g p t)"
      using wakeup_turn[of h t p ch] table_freeD(1)[of h t] table_freeD(2)[of h t p] by simp
  qed
  then show ?thesis by (simp add: fold_touch_upd fold_upd_NPROC)
qed

section \<open>The clock\<close>

definition aged :: "u32 \<Rightarrow> proc \<Rightarrow> proc" where
  "aged t q = (if state q = RUNNABLE then clock_account t q else q)"

lemma ticks_map_procs [simp]: "ticks (map_procs f s) = ticks s" "cpus (map_procs f s) = cpus s"
  "locks (map_procs f s) = locks s" "sie (map_procs f s) = sie s" "mem (map_procs f s) = mem s"
  "procs (map_procs f s) i = (if i < NPROC then f i (procs s i) else procs s i)"
  "nextpid (map_procs f s) = nextpid s" "initproc (map_procs f s) = initproc s"
  by (simp_all add: map_procs_def)

lemma table_free_map_procs [simp]: "table_free h (map_procs f s) = table_free h s"
  by (simp add: table_free_def hart_ok_def lock_free_def)

lemma tick_scan:
  "clock.scan ps ((), s) = ((), fold (\<lambda>p s. upd_proc p (aged (ticks s)) s) ps s)"
proof (induction ps arbitrary: s)
  case Nil
  then show ?case by (simp add: clock.scan_def)
next
  case (Cons p ps)
  have "tick_body p () s = ((), upd_proc p (aged (ticks s)) s)"
    by (auto simp: tick_body_def aged_def upd_proc_def)
  with Cons show ?case by (simp add: clock.scan_def)
qed

lemma fold_ticks:
  "fold (\<lambda>p s. upd_proc p (f (ticks s)) s) ps s = fold (\<lambda>p u. upd_proc p (f (ticks s)) u) ps s"
proof -
  have "fold (\<lambda>p u. upd_proc p (f (ticks u)) u) ps u = fold (\<lambda>p u. upd_proc p (f t) u) ps u"
    if "ticks u = t" for u :: "'a procst_scheme" and t
    using that by (induction ps arbitrary: u) simp_all
  then show ?thesis by blast
qed

theorem clock_tick_map:
  assumes "table_free h s"
  shows "clock_tick_accounting h s = Ok (map_procs (\<lambda>_. aged (ticks s)) (touch h s))"
proof -
  have "rfold (\<lambda>p (x, s). with_lock h (PLock p) (tick_body p x) s) [0..<NPROC] ((), s) =
        Ok (clock.scan [0..<NPROC] ((), touch h s))"
    using assms by (intro clock.scan_atomic) (auto simp: table_freeD)
  then show ?thesis
    by (simp add: clock_tick_accounting_def tick_scan fold_ticks[of aged]
        fold_upd_NPROC[of "\<lambda>_. aged (ticks s)"])
qed

section \<open>Statistics\<close>

lemma count_scan: "stats.scan ps (w, s) = (fold (\<lambda>p. count_proc (procs s p)) ps w, s)"
  by (induction ps arbitrary: w) (simp_all add: stats.scan_def count_body_def)

theorem workload_fold:
  assumes "table_free h s"
  shows "get_workload_stats h s =
         Ok (summarise (fold (\<lambda>p. count_proc (procs s p)) [0..<NPROC] no_counts), touch h s)"
proof -
  have "rfold (\<lambda>p (w, s). with_lock h (PLock p) (count_body p w) s) [0..<NPROC] (no_counts, s) =
        Ok (stats.scan [0..<NPROC] (no_counts, touch h s))"
    using assms by (intro stats.scan_atomic) (auto simp: table_freeD)
  then show ?thesis by (simp add: get_workload_stats_def count_scan)
qed

section \<open>Choosing a process\<close>

text \<open>The candidates in the order of the table, with the priorities that pass 1 computes.\<close>

definition reprioritised :: "proc \<Rightarrow> proc" where
  "reprioritised q = (if state q = RUNNABLE then q\<lparr>priority := calc_dynamic_priority q\<rparr> else q)"

definition better :: "proc \<Rightarrow> nat \<Rightarrow> nat option \<times> i32 \<Rightarrow> nat option \<times> i32" where
  "better q p best =
     (if state q = RUNNABLE \<and> snd best <s calc_dynamic_priority q
      then (Some p, calc_dynamic_priority q) else best)"

lemma pick_body_better:
  "pick_body p best s = (better (procs s p) p best, upd_proc p reprioritised s)"
  by (auto simp: pick_body_def better_def reprioritised_def Let_def upd_proc_def)

lemma pick_scan:
  assumes "distinct ps"
  shows "pick.scan ps (best, s) =
         (fold (\<lambda>p. better (procs s p) p) ps best, fold (\<lambda>p. upd_proc p reprioritised) ps s)"
  using assms
proof (induction ps arbitrary: best s)
  case Nil
  then show ?case by (simp add: pick.scan_simps)
next
  case (Cons p ps)
  have "fold (\<lambda>q. better (procs (upd_proc p reprioritised s) q) q) ps b =
        fold (\<lambda>q. better (procs s q) q) ps b" for b
    using Cons.prems by (intro fold_cong) auto
  then have same: "fold (\<lambda>q. better (procs (upd_proc p reprioritised s) q) q) ps = fold (\<lambda>q. better (procs s q) q) ps"
    by (rule ext)
  have "pick.scan (p # ps) (best, s) =
        pick.scan ps (better (procs s p) p best, upd_proc p reprioritised s)"
    by (simp only: pick.scan_simps(2)) (simp only: pick_body_better)
  also have "\<dots> = (fold (\<lambda>q. better (procs (upd_proc p reprioritised s) q) q) ps
                   (better (procs s p) p best),
                 fold (\<lambda>p. upd_proc p reprioritised) ps (upd_proc p reprioritised s))"
    using Cons.prems by (intro Cons.IH) simp
  finally show ?case by (simp only: same fold_Cons o_apply)
qed

theorem scheduler_pick_fold:
  assumes "table_free h s"
  shows "scheduler_pick h s =
           Ok (fold (\<lambda>p. better (procs s p) p) [0..<NPROC] (None, - 1),
               map_procs (\<lambda>_. reprioritised) (touch h (intr_off h (intr_on h s))))"
proof -
  let ?s = "intr_off h (intr_on h s)"
  have ok: "hart_ok h ?s" "lock_free l ?s = lock_free l s" "procs ?s = procs s" for l
    using table_freeD(1)[OF assms]
    by (simp_all add: hart_ok_def lock_free_def intr_on_def intr_off_def)
  have "scheduler_pick h s = Ok (pick.scan [0..<NPROC] ((None, - 1), touch h ?s))"
    unfolding scheduler_pick_def
    using ok table_freeD(2)[OF assms] by (intro pick.scan_atomic) auto
  also have "pick.scan [0..<NPROC] ((None, - 1), touch h ?s) =
      (fold (\<lambda>p. better (procs s p) p) [0..<NPROC] (None, - 1),
       map_procs (\<lambda>_. reprioritised) (touch h ?s))"
    using fold_upd_NPROC[of "\<lambda>_. reprioritised" "touch h ?s"] ok(3)
    by (subst pick_scan) simp_all
  finally show ?thesis .
qed

end
