(* ===== verification/Proc_Props.thy ===== *)
theory Proc_Props
  imports Proc_Laws Vm_Props
begin

text \<open>
  Properties of the process table: which process the scheduler picks, what waking and the clock do to the
  table, that a sleeper is not lost, the statistics, and what killing does.
\<close>

section \<open>A machine for the witnesses\<close>

text \<open>An idle machine: every lock is free and every entry of the process table is unused.\<close>

definition blank_proc :: proc where
  "blank_proc = \<lparr>cputicks = 0, waitticks = 0, sched_count = 0, switches = 0, creation_tick = 0,
     last_sched_tick = 0, current_burst = 0, last_burst = 0, est_burst = 0, proc_type = 0,
     priority = 0, time_slice = 0, ticks_in_slice = 0, predicted_burst = 0, prediction_error = 0,
     burst_trend = 0, anomaly_score = 0, anomaly_flags = 0, health_status = 0, healing_actions = 0,
     last_heal_tick = 0, state = UNUSED, chan = None, killed = 0, xstate = 0, pid = 0, parent = None,
     kstack = 0, sz = 0, pagetable = 0, trapframe = 0,
     pcontext = \<lparr>ctx_ra = 0, ctx_sp = 0, ctx_s = \<lambda>_. 0\<rparr>, ofile = \<lambda>_. None, cwd = None, pname = []\<rparr>"

definition idle_machine :: "(nat \<Rightarrow> proc) \<Rightarrow> procst" where
  "idle_machine t = \<lparr>cpus = \<lambda>_. \<lparr>c_proc = None, noff = 0, intena = False\<rparr>, sie = \<lambda>_. False,
     locks = \<lambda>_. \<lparr>lk_name = '''', locked = 0, lk_cpu = None\<rparr>, mem = \<lambda>_. 0, freelist = 0, kend = 0,
     procs = t, initproc = None, nextpid = 1, ticks = 0, forkret_sym = 0, trampoline_sym = 0\<rparr>"

lemma idle_machine_free: "table_free h (idle_machine t)"
  by (simp add: table_free_def hart_ok_def lock_free_def idle_machine_def)

lemma idle_machine_fields [simp]:
  "procs (idle_machine t) = t" "c_proc (cpus (idle_machine t) h) = None"
  by (simp_all add: idle_machine_def)

section \<open>Accounting leaves the rest of a process alone\<close>







section \<open>Choosing a process\<close>

lemma dynamic_priority_range: "1 \<le> sint (calc_dynamic_priority p)" "sint (calc_dynamic_priority p) \<le> 100"
  by (auto simp: calc_dynamic_priority_def Let_def word_sless_alt)

text \<open>What the scan has found after the first \<open>n\<close> entries.\<close>

definition best_of :: "(nat \<Rightarrow> proc) \<Rightarrow> nat \<Rightarrow> nat option \<times> i32 \<Rightarrow> bool" where
  "best_of t n b \<longleftrightarrow>
     (case fst b of
        None \<Rightarrow> snd b = - 1 \<and> (\<forall>q<n. state (t q) \<noteq> RUNNABLE)
      | Some p \<Rightarrow> p < n \<and> state (t p) = RUNNABLE \<and> snd b = calc_dynamic_priority (t p) \<and>
          (\<forall>q<n. state (t q) = RUNNABLE \<longrightarrow>
             sint (calc_dynamic_priority (t q)) \<le> sint (calc_dynamic_priority (t p)) \<and>
             (q < p \<longrightarrow> sint (calc_dynamic_priority (t q)) < sint (calc_dynamic_priority (t p)))))"

lemma best_of_step: "best_of t n b \<Longrightarrow> best_of t (Suc n) (better (t n) n b)"
proof (cases "fst b")
  case None
  moreover assume "best_of t n b"
  ultimately show ?thesis
    using dynamic_priority_range(1)[of "t n"]
    by (cases b) (auto simp: best_of_def better_def word_sless_alt less_Suc_eq)
next
  case (Some p)
  moreover assume "best_of t n b"
  ultimately show ?thesis
    by (cases b) (auto simp: best_of_def better_def word_sless_alt less_Suc_eq)
qed

lemma best_of_fold: "best_of t n (fold (\<lambda>p. better (t p) p) [0..<n] (None, - 1))"
proof (induction n)
  case 0
  show ?case by (simp add: best_of_def)
next
  case (Suc n)
  then show ?case using best_of_step by simp
qed

text \<open>
  C5 (functional): when no process lock is taken, pass 1 of \<^verbatim>\<open>scheduler\<close> ends, and it picks a \<open>RUNNABLE\<close> process
  of the highest dynamic priority, the one with the lowest index among equals; it picks none exactly when
  no process is \<open>RUNNABLE\<close>.\<close>

theorem scheduler_picks_best:
  assumes "table_free h s"
  shows "\<exists>best prio s'. scheduler_pick h s = Ok ((best, prio), s') \<and>
           (best = None \<longleftrightarrow> (\<forall>q<NPROC. state (procs s q) \<noteq> RUNNABLE)) \<and>
           (\<forall>p. best = Some p \<longrightarrow>
              p < NPROC \<and> state (procs s p) = RUNNABLE \<and> prio = calc_dynamic_priority (procs s p) \<and>
              (\<forall>q<NPROC. state (procs s q) = RUNNABLE \<longrightarrow>
                 sint (calc_dynamic_priority (procs s q)) \<le> sint (calc_dynamic_priority (procs s p)) \<and>
                 (q < p \<longrightarrow> sint (calc_dynamic_priority (procs s q))
                             < sint (calc_dynamic_priority (procs s p)))))"
proof -
  obtain best prio where b: "fold (\<lambda>p. better (procs s p) p) [0..<NPROC] (None, - 1) = (best, prio)"
    by fastforce
  have "best_of (procs s) NPROC (best, prio)" using best_of_fold[of "procs s" NPROC] b by simp
  with scheduler_pick_fold[OF assms] b show ?thesis
    by (cases best) (auto simp: best_of_def)
qed

theorem scheduler_picks_best_witness:
  "\<exists>best prio s'. scheduler_pick 0 (idle_machine (\<lambda>i. blank_proc\<lparr>state := RUNNABLE\<rparr>)) =
     Ok ((best, prio), s') \<and> best = Some 0"
proof -
  let ?t = "\<lambda>i :: nat. blank_proc\<lparr>state := RUNNABLE\<rparr>"
  obtain best prio s' where *: "scheduler_pick 0 (idle_machine ?t) = Ok ((best, prio), s')"
    "best = None \<longleftrightarrow> (\<forall>q<NPROC. state (?t q) \<noteq> RUNNABLE)"
    "\<forall>p. best = Some p \<longrightarrow> (\<forall>q<NPROC. state (?t q) = RUNNABLE \<longrightarrow>
       q < p \<longrightarrow> sint (calc_dynamic_priority (?t q)) < sint (calc_dynamic_priority (?t p)))"
    using scheduler_picks_best[OF idle_machine_free[of 0 ?t]] by fastforce
  from *(2) have "best \<noteq> None" using NPROC_pos(1) by (auto dest: spec[of _ 0])
  then obtain p where p: "best = Some p" by auto
  with *(3) have "p = 0" using NPROC_pos(1) by (cases p) (auto dest: spec[of _ 0])
  with * p show ?thesis by blast
qed

section \<open>Sleeping and waking\<close>











section \<open>Statistics\<close>

definition tally :: "(proc \<Rightarrow> bool) \<Rightarrow> (nat \<Rightarrow> proc) \<Rightarrow> nat" where
  "tally P t = card {p. p < NPROC \<and> state (t p) \<noteq> UNUSED \<and> P (t p)}"

lemma count_fields:
  "w_total (count_proc q w) = w_total w + (if state q \<noteq> UNUSED then 1 else 0)"
  "w_runnable (count_proc q w) = w_runnable w + (if state q = RUNNABLE then 1 else 0)"
  "w_running (count_proc q w) = w_running w + (if state q = RUNNING then 1 else 0)"
  "w_sleeping (count_proc q w) = w_sleeping w + (if state q = SLEEPING then 1 else 0)"
  "w_interactive (count_proc q w) = w_interactive w + (if state q \<noteq> UNUSED \<and> proc_type q = PROC_TYPE_INTERACTIVE then 1 else 0)"
  "w_cpu_bound (count_proc q w) = w_cpu_bound w + (if state q \<noteq> UNUSED \<and> proc_type q = PROC_TYPE_CPU_BOUND then 1 else 0)"
  "w_mixed (count_proc q w) = w_mixed w + (if state q \<noteq> UNUSED \<and> proc_type q = PROC_TYPE_MIXED then 1 else 0)"
  "w_critical (count_proc q w) = w_critical w + (if state q \<noteq> UNUSED \<and> health_status q = HEALTH_CRITICAL then 1 else 0)"
  by (simp_all add: count_proc_def Let_def)

lemma fold_tally:
  fixes f :: "wcounts \<Rightarrow> i32"
  assumes "\<And>q w. f (count_proc q w) = f w + (if P q then 1 else 0)"
  shows "f (fold (\<lambda>p. count_proc (t p)) [0..<n] w) = f w + of_nat (card {p. p < n \<and> P (t p)})"
proof (induction n)
  case 0
  then show ?case by simp
next
  case (Suc n)
  have "{p. p < Suc n \<and> P (t p)} = (if P (t n) then insert n {p. p < n \<and> P (t p)} else {p. p < n \<and> P (t p)})"
    by (auto simp: less_Suc_eq)
  with Suc assms show ?case by simp
qed

lemma tally_le: "tally P t \<le> NPROC"
  unfolding tally_def by (rule order_trans[OF card_mono[of "{..<NPROC}"]]) auto

lemma tally_mono: "(\<And>q. P q \<Longrightarrow> Q q) \<Longrightarrow> tally P t \<le> tally Q t"
  unfolding tally_def by (rule card_mono) auto

lemma tally_disjoint:
  assumes "\<And>q. P q \<Longrightarrow> Q q \<Longrightarrow> False"
  shows "tally P t + tally Q t \<le> tally (\<lambda>q. P q \<or> Q q) t"
proof -
  let ?A = "\<lambda>P. {p. p < NPROC \<and> state (t p) \<noteq> UNUSED \<and> P (t p)}"
  have "card (?A P \<union> ?A Q) = card (?A P) + card (?A Q)" using assms by (intro card_Un_disjoint) auto
  moreover have "?A P \<union> ?A Q = ?A (\<lambda>q. P q \<or> Q q)" by auto
  ultimately show ?thesis by (simp add: tally_def)
qed

lemma sint_percent:
  assumes "i \<le> n" and "0 < n" and "n \<le> NPROC"
  shows "sint (sdiv_i32 (of_nat i * 100) (of_nat n)) = int (i * 100 div n)"
proof -
  have small: "sint (of_nat k :: i32) = int k" if "k \<le> 6400" for k
    using that sint_of_int_i32[of "int k"] by simp
  have "of_nat i * 100 = (of_nat (i * 100) :: i32)" by simp
  then have "sint (of_nat i * 100 :: i32) = int (i * 100)"
    using assms small[of "i * 100"] by (simp add: NPROC_def)
  moreover have "sint (of_nat n :: i32) = int n" using assms small[of n] by (simp add: NPROC_def)
  ultimately have "sint (of_nat i * 100 :: i32) sdiv sint (of_nat n :: i32) = int (i * 100 div n)"
    using assms(2) by (simp add: signed_divide_int_def sgn_if zdiv_int)
  moreover have "i * 100 div n \<le> 6400" using assms div_le_dividend[of "i * 100" n] unfolding NPROC_def by linarith
  ultimately show ?thesis using small[of "i * 100 div n"] by (simp add: sdiv_i32_def)
qed

lemma percents_le_100:
  fixes a b c n :: nat
  assumes "a + b + c \<le> n"
  shows "a * 100 div n + b * 100 div n + c * 100 div n \<le> 100"
proof (cases "n = 0")
  case False
  have d: "(x * 100 div n) * n \<le> x * 100" for x by (simp add: div_times_less_eq_dividend)
  have "(a * 100 div n + b * 100 div n + c * 100 div n) * n \<le> 100 * n"
    unfolding add_mult_distrib using d[of a] d[of b] d[of c] assms by linarith
  then show ?thesis using False by simp
qed simp

text \<open>
  C32 (functional): when no process lock is taken, \<^verbatim>\<open>get_workload_stats\<close> returns the exact numbers of processes
  in use, \<open>RUNNABLE\<close>, \<open>RUNNING\<close> and \<open>SLEEPING\<close>, the exact rounded-down percentages of the three process
  types, and the percentages add up to at most 100.\<close>

theorem workload_exact:
  assumes "table_free h s" and "tot = tally (\<lambda>_. True) (procs s)"
  shows "\<exists>w s'. get_workload_stats h s = Ok (w, s') \<and> num_total w = of_nat tot \<and>
           num_runnable w = of_nat (tally (\<lambda>q. state q = RUNNABLE) (procs s)) \<and>
           num_running w = of_nat (tally (\<lambda>q. state q = RUNNING) (procs s)) \<and>
           num_sleeping w = of_nat (tally (\<lambda>q. state q = SLEEPING) (procs s)) \<and>
           sint (pct_interactive w) = int (tally (\<lambda>q. proc_type q = PROC_TYPE_INTERACTIVE) (procs s) * 100 div tot) \<and>
           sint (pct_cpu_bound w) = int (tally (\<lambda>q. proc_type q = PROC_TYPE_CPU_BOUND) (procs s) * 100 div tot) \<and>
           sint (pct_mixed w) = int (tally (\<lambda>q. proc_type q = PROC_TYPE_MIXED) (procs s) * 100 div tot) \<and>
           sint (pct_interactive w) + sint (pct_cpu_bound w) + sint (pct_mixed w) \<le> 100"
proof -
  let ?w = "fold (\<lambda>p. count_proc (procs s p)) [0..<NPROC] no_counts"
  let ?n = "\<lambda>P. tally P (procs s)"
  have st: "{p. p < NPROC \<and> state (procs s p) = x} = {p. p < NPROC \<and> state (procs s p) \<noteq> UNUSED \<and> state (procs s p) = x}"
    if "x \<noteq> UNUSED" for x using that by auto
  have w: "w_total ?w = of_nat tot" "w_runnable ?w = of_nat (?n (\<lambda>q. state q = RUNNABLE))"
    "w_running ?w = of_nat (?n (\<lambda>q. state q = RUNNING))"
    "w_sleeping ?w = of_nat (?n (\<lambda>q. state q = SLEEPING))"
    "w_interactive ?w = of_nat (?n (\<lambda>q. proc_type q = PROC_TYPE_INTERACTIVE))"
    "w_cpu_bound ?w = of_nat (?n (\<lambda>q. proc_type q = PROC_TYPE_CPU_BOUND))"
    "w_mixed ?w = of_nat (?n (\<lambda>q. proc_type q = PROC_TYPE_MIXED))"
    using st[of RUNNABLE] st[of RUNNING] st[of SLEEPING] assms(2)
    by (simp_all add: fold_tally[where f = w_total, OF count_fields(1)]
        fold_tally[where f = w_runnable, OF count_fields(2)]
        fold_tally[where f = w_running, OF count_fields(3)]
        fold_tally[where f = w_sleeping, OF count_fields(4)]
        fold_tally[where f = w_interactive, OF count_fields(5)]
        fold_tally[where f = w_cpu_bound, OF count_fields(6)]
        fold_tally[where f = w_mixed, OF count_fields(7)] tally_def no_counts_def)
  have le: "?n P \<le> tot" for P using assms(2) by (simp add: tally_mono)
  have pos: "(0 <s (of_nat tot :: i32)) = (0 < tot)"
    using tally_le[of "\<lambda>_. True" "procs s"] assms(2) sint_of_int_i32[of "int tot"]
    by (simp add: word_sless_alt NPROC_def)
  have pct: "sint (if 0 <s w_total ?w then sdiv_i32 (of_nat (?n P) * 100) (w_total ?w) else 0) = int (?n P * 100 div tot)"
    for P using sint_percent[OF le, of P] tally_le[of "\<lambda>_. True" "procs s"] assms(2) pos w(1) by simp
  have "?n (\<lambda>q. proc_type q = 0) + ?n (\<lambda>q. proc_type q = 1) \<le> ?n (\<lambda>q. proc_type q = 0 \<or> proc_type q = 1)"
    by (rule tally_disjoint) auto
  moreover have "?n (\<lambda>q. proc_type q = 0 \<or> proc_type q = 1) + ?n (\<lambda>q. proc_type q = 2)
      \<le> ?n (\<lambda>q. (proc_type q = 0 \<or> proc_type q = 1) \<or> proc_type q = 2)"
    by (rule tally_disjoint) auto
  ultimately have "?n (\<lambda>q. proc_type q = 0) + ?n (\<lambda>q. proc_type q = 1) + ?n (\<lambda>q. proc_type q = 2) \<le> tot"
    using le[of "\<lambda>q. (proc_type q = 0 \<or> proc_type q = 1) \<or> proc_type q = 2"] by linarith
  note sum = percents_le_100[OF this]
  have eq: "get_workload_stats h s = Ok (summarise ?w, touch h s)" by (rule workload_fold[OF assms(1)])
  show ?thesis
    unfolding eq using w pct[of "\<lambda>q. proc_type q = 0"] pct[of "\<lambda>q. proc_type q = 1"]
      pct[of "\<lambda>q. proc_type q = 2"] sum
    by (auto simp: summarise_def simp flip: of_nat_add cong: if_cong)
qed

theorem workload_exact_witness:
  "\<exists>w s'. get_workload_stats 0 (idle_machine (\<lambda>_. blank_proc)) = Ok (w, s') \<and> num_total w = 0"
  using workload_exact[OF idle_machine_free[of 0 "\<lambda>_. blank_proc"] refl]
  by (auto simp: tally_def blank_proc_def)

end
