(* ===== verification/Vm_Frame.thy ===== *)
theory Vm_Frame
  imports Vm
begin

text \<open>
  What the memory subsystem leaves alone: whatever the outcome of an allocation, a walk, a mapping or a freeing, no
  field of the kernel state outside the CPUs, the locks and the memory changes. The lemmas are about every result, so
  they need no assumption on the page tables.
\<close>

named_theorems vm_frame \<open>operations of the memory subsystem keep the rest of the state\<close>

lemma memst_of_hwst: "hwst.more s' = hwst.more s \<Longrightarrow> memst.more s' = memst.more s \<and> kend s' = kend s"
  for s s' :: "'a memst_scheme"
  by (cases s; cases s') (simp add: memst.defs)

lemmas acquire_vm [vm_frame] = memst_of_hwst[OF acquire_more, THEN conjunct1]
lemmas release_vm [vm_frame] = memst_of_hwst[OF release_more, THEN conjunct1]

lemma kfree_vm [vm_frame]: "kfree h pa s = Ok s' \<Longrightarrow> memst.more s' = memst.more s"
  by (auto simp: kfree_def Let_def dest!: acquire_vm release_vm split: if_splits)

lemma kalloc_vm [vm_frame]: "kalloc h s = Ok (r, s') \<Longrightarrow> memst.more s' = memst.more s"
  by (auto simp: kalloc_def Let_def dest!: acquire_vm release_vm split: if_splits)

lemma walk_loop_vm: "walk_loop h l pt va alloc s = Ok (r, s') \<Longrightarrow> memst.more s' = memst.more s"
proof (induction l arbitrary: pt s)
  case (Suc l)
  then show ?case
    by (auto simp: Let_def split: if_splits dest!: kalloc_vm) (metis (mono_tags) memst.ext_inject memst.surjective memst.update_convs(1))?
qed simp

lemma walk_vm [vm_frame]: "walk h pt va alloc s = Ok (r, s') \<Longrightarrow> memst.more s' = memst.more s"
  by (auto simp: walk_def dest: walk_loop_vm split: if_splits)

lemma mappages_loop_vm: "mappages_loop h pt a lst pa perm s = Ok (r, s') \<Longrightarrow> memst.more s' = memst.more s"
proof (induction h pt a lst pa perm s rule: mappages_loop.induct)
  case (1 h pt a lst pa perm s)
  from 1(2) obtain pte t where w: "walk h pt a True s = Ok (pte, t)"
    by (subst (asm) mappages_loop.simps) auto
  show ?case using 1(2) walk_vm[OF w] 1(1)[OF w refl]
    by (subst (asm) mappages_loop.simps) (auto simp: w Let_def split: if_splits)
qed

lemma mappages_vm [vm_frame]: "mappages h pt va n pa perm s = Ok (r, s') \<Longrightarrow> memst.more s' = memst.more s"
  by (auto simp: mappages_def dest: mappages_loop_vm split: if_splits)

lemma uvmcreate_vm [vm_frame]: "uvmcreate h s = Ok (r, s') \<Longrightarrow> memst.more s' = memst.more s"
  by (auto simp: uvmcreate_def dest!: kalloc_vm split: if_splits)

lemma uvmunmap_loop_vm: "uvmunmap_loop h pt a lim f s = Ok s' \<Longrightarrow> memst.more s' = memst.more s"
proof (induction h pt a lim f s rule: uvmunmap_loop.induct)
  case (1 h pt a lim f s)
  show ?case
  proof (cases "a < lim")
    case False
    with 1(4) show ?thesis by (simp add: uvmunmap_loop.simps)
  next
    case True
    from 1(4) True obtain pte t where w: "walk h pt a False s = Ok (pte, t)"
      by (subst (asm) uvmunmap_loop.simps) auto
    show ?thesis
      using 1(4) True walk_vm[OF w] 1(1)[OF True w refl] 1(2)[OF True w refl] 1(3)[OF True w refl]
      by (subst (asm) uvmunmap_loop.simps, auto simp: w Let_def split: if_splits dest: kfree_vm)
        (drule kfree_vm, simp)
  qed
qed

lemma uvmunmap_vm [vm_frame]: "uvmunmap h pt va n f s = Ok s' \<Longrightarrow> memst.more s' = memst.more s"
  by (auto simp: uvmunmap_def dest: uvmunmap_loop_vm split: if_splits)

lemma freewalk_from_vm:
  assumes "freewalk_from h pt i s = Some (Ok s')"
  shows "memst.more s' = memst.more s"
proof -
  have "\<forall>t. r = Ok t \<longrightarrow> memst.more t = memst.more s" if "freewalk_from h pt i s = Some r" for r
    using that
  proof (induction rule: freewalk_from.raw_induct[rotated 1, consumes 1])
    case (1 f h pt i s r)
    show ?case
    proof (cases "i < 512 \<and> load64 (mem s) (pt + 8 * of_nat i) AND PTE_V \<noteq> 0 \<and>
                  load64 (mem s) (pt + 8 * of_nat i) AND (PTE_R OR PTE_W OR PTE_X) = 0")
      case True
      let ?a = "pt + 8 * of_nat i"
      from 1(2) True obtain q where q: "f h (PTE2PA (load64 (mem s) ?a)) 0 s = Some q"
        "(case q of Ok s \<Rightarrow> f h pt (Suc i) (s\<lparr>mem := store64 ?a 0 (mem s)\<rparr>)
                | Panic msg \<Rightarrow> Some (Panic msg) | Spin \<Rightarrow> Some Spin) = Some r"
        by (auto simp: Let_def bind_eq_Some_conv)
      show ?thesis
      proof (cases q)
        case (Ok u)
        with q(2) have "f h pt (Suc i) (u\<lparr>mem := store64 ?a 0 (mem u)\<rparr>) = Some r" by simp
        from 1(1)[OF this] 1(1)[OF q(1)] Ok show ?thesis by simp
      qed (use q(2) in auto)
    next
      case False
      then show ?thesis using 1(2) 1(1)[of h pt "Suc i" s r]
        by (cases "i < 512") (auto simp: Let_def split: if_splits dest: kfree_vm)
    qed
  qed
  with assms show ?thesis by blast
qed

lemma freewalk_vm [vm_frame]: "freewalk h pt s = Ok s' \<Longrightarrow> memst.more s' = memst.more s"
  by (auto simp: freewalk_def freewalk_from_vm split: option.splits)

lemma uvmfree_vm [vm_frame]: "uvmfree h pt n s = Ok s' \<Longrightarrow> memst.more s' = memst.more s"
  by (auto simp: uvmfree_def dest!: freewalk_vm uvmunmap_vm split: if_splits)

end
