(* ===== verification/Sched_Inv.thy ===== *)
theory Sched_Inv
  imports Proc_Props Vm_Frame
begin

text \<open>
  The scheduler as a transition system. A state is taken when no hart is inside a critical section of the
  process table; a step is one complete operation of one hart. The invariant ties the CPUs to the
  table: the process of a CPU is \<open>RUNNING\<close>, a \<open>RUNNING\<close> process is on exactly one CPU, and nothing else is.
\<close>

section \<open>Quiet states\<close>

definition quiet :: "'a procst_scheme \<Rightarrow> bool" where
  "quiet s \<longleftrightarrow> (\<forall>h. noff (cpus s h) = 0) \<and> (\<forall>p<NPROC. lock_free (PLock p) s)"



lemma quiet_cong:
  "locks t = locks s \<Longrightarrow> (\<And>h. noff (cpus t h) = noff (cpus s h)) \<Longrightarrow> quiet t = quiet s"
  by (simp add: quiet_def lock_free_def)

lemma quiet_touch [simp]: "quiet (touch h s) = quiet s"
  by (rule quiet_cong) simp_all

lemma quiet_map_procs [simp]: "quiet (map_procs f s) = quiet s"
  by (rule quiet_cong) simp_all

lemma quiet_upd_proc [simp]: "quiet (upd_proc p f s) = quiet s"
  by (rule quiet_cong) simp_all









section \<open>Going to sleep, killing\<close>



definition slain :: "proc \<Rightarrow> proc" where
  "slain q = q\<lparr>killed := 1, state := if state q = SLEEPING then RUNNABLE else state q\<rparr>"

lemma release_acquired_upd:
  assumes "hart_ok h s" and "lock_free l s"
  shows "release h l (upd_proc p f (acquired h l s)) = Ok (upd_proc p f (touch h s))"
proof -
  have "upd_proc p f (acquired h l s) = acquired h l (upd_proc p f s)"
    by (simp add: acquired_def push_off_def Let_def upd_proc_def)
  then show ?thesis using release_acquired[of h "upd_proc p f s" l] assms by (simp add: touch_upd_proc)
qed

lemma upd_proc_upd_proc [simp]: "upd_proc p f (upd_proc p g s) = upd_proc p (f \<circ> g) s"
  by (simp add: upd_proc_def)

lemma kill_marks:
  "(let s = upd_proc p (\<lambda>q. q\<lparr>killed := 1\<rparr>) s
    in if state (procs s p) = SLEEPING then upd_proc p (\<lambda>q. q\<lparr>state := RUNNABLE\<rparr>) s else s) =
   upd_proc p slain s"
  by (simp add: upd_proc_def slain_def Let_def)

lemma kill_search:
  assumes "hart_ok h s" and "\<forall>p \<in> set ps. lock_free (PLock p) s" and "ps \<noteq> []"
  shows "rsearch (\<lambda>p s.
              rbind (acquire h (PLock p) s) (\<lambda>s.
                if pid (procs s p) = n
                then let s = upd_proc p (\<lambda>q. q\<lparr>killed := 1\<rparr>) s;
                         s = (if state (procs s p) = SLEEPING
                              then upd_proc p (\<lambda>q. q\<lparr>state := RUNNABLE\<rparr>) s else s)
                     in rbind (release h (PLock p) s) (\<lambda>s. Ok (Some (), s))
                else rbind (release h (PLock p) s) (\<lambda>s. Ok (None, s)))) ps s =
         Ok (case find (\<lambda>p. pid (procs s p) = n) ps of
               None \<Rightarrow> (None, touch h s) | Some p \<Rightarrow> (Some (), upd_proc p slain (touch h s)))"
    (is "rsearch ?f ps s = _")
  using assms
proof (induction ps arbitrary: s)
  case Nil
  then show ?case by simp
next
  case (Cons p ps)
  have turn: "?f p s = Ok (if pid (procs s p) = n then (Some (), upd_proc p slain (touch h s))
                           else (None, touch h s))"
    using Cons.prems kill_marks[of p "acquired h (PLock p) s"]
    by (simp add: acquire_free release_acquired release_acquired_upd Let_def)
  show ?case
  proof (cases "pid (procs s p) = n \<or> ps = []")
    case True
    then show ?thesis using turn by auto
  next
    case False
    with Cons.prems Cons.IH[of "touch h s"] turn show ?thesis by (simp split: option.split)
  qed
qed

lemma kkill_find:
  assumes "table_free h s"
  shows "kkill h n s =
         Ok (case find (\<lambda>p. pid (procs s p) = n) [0..<NPROC] of
               None \<Rightarrow> (- 1, touch h s) | Some p \<Rightarrow> (0, upd_proc p slain (touch h s)))"
  using kill_search[of h s "[0..<NPROC]" n] assms
  by (simp add: kkill_def table_free_def split: option.split)

section \<open>Exiting\<close>










section \<open>The transition system\<close>


























section \<open>Kill\<close>

lemma find_upt_least:
  "find P [0..<n] = Some p \<longleftrightarrow> p < n \<and> P p \<and> (\<forall>q<p. \<not> P q)"
  by (auto simp: find_Some_iff)

lemma find_upt_none: "find P [0..<n] = None \<longleftrightarrow> (\<forall>q<n. \<not> P q)"
  by (auto simp: find_None_iff)

text \<open>
  C33 (functional): \<^verbatim>\<open>kkill\<close> ends. If a slot of the table has the pid, the first one is marked killed, and made
  \<open>RUNNABLE\<close> if it sleeps, all others keep their contents and the result is 0; otherwise the table is unchanged
  and the result is -1.\<close>

theorem kill_first_match:
  assumes "table_free h s"
  shows "\<exists>r s'. kkill h n s = Ok (r, s') \<and>
     (if \<exists>p<NPROC. pid (procs s p) = n
      then r = 0 \<and> (\<exists>p<NPROC. pid (procs s p) = n \<and> (\<forall>q<p. pid (procs s q) \<noteq> n) \<and>
             procs s' = (procs s)(p := (procs s p)\<lparr>killed := 1,
               state := if state (procs s p) = SLEEPING then RUNNABLE else state (procs s p)\<rparr>))
      else r = - 1 \<and> procs s' = procs s)"
proof (cases "find (\<lambda>p. pid (procs s p) = n) [0..<NPROC]")
  case None
  then have "\<forall>q<NPROC. pid (procs s q) \<noteq> n" by (simp add: find_upt_none)
  then show ?thesis unfolding kkill_find[OF assms, of n] None by simp
next
  case (Some p)
  then have "p < NPROC" "pid (procs s p) = n" "\<forall>q<p. pid (procs s q) \<noteq> n" by (simp_all add: find_upt_least)
  then show ?thesis unfolding kkill_find[OF assms, of n] Some by (auto simp: slain_def)
qed

theorem kill_first_match_witness:
  "\<exists>s'. kkill 0 7 (idle_machine (\<lambda>p. blank_proc\<lparr>pid := of_nat p, state := SLEEPING\<rparr>)) = Ok (0, s') \<and>
     state (procs s' 7) = RUNNABLE \<and> state (procs s' 8) = SLEEPING"
proof -
  let ?t = "\<lambda>p :: nat. blank_proc\<lparr>pid := of_nat p :: i32, state := SLEEPING\<rparr>"
  have uniq: "q = 7" if "q < NPROC" "(of_nat q :: i32) = 7" for q
  proof -
    have "unat (of_nat q :: i32) = q" using that(1) by (simp add: unat_of_nat NPROC_def)
    moreover have "unat (of_nat q :: i32) = unat (7 :: i32)" using that(2) by (rule arg_cong)
    ultimately show ?thesis by simp
  qed
  have e: "\<exists>p<NPROC. pid (?t p) = 7" by (rule exI[of _ 7]) (simp add: NPROC_def)
  then show ?thesis
    using kill_first_match[OF idle_machine_free[of 0 ?t], of 7] by (auto dest!: uniq)
qed

section \<open>Killing pid 0\<close>









end
