(* ===== verification/Printk.thy ===== *)
theory Printk
  imports Proc
begin

text \<open>
  Formatted kernel output: \<^verbatim>\<open>kernel/printk.c\<close>, the synchronous half of \<^verbatim>\<open>kernel/uart.c\<close> and
  \<^verbatim>\<open>consputc\<close> of \<^verbatim>\<open>kernel/console.c\<close>; \<^verbatim>\<open>procdump\<close> of \<^verbatim>\<open>kernel/proc.c\<close>, which prints.

  The UART is hardware. Its state is what the driver can see of it: the bytes written to the transmit
  register (\<open>uout\<close>), the bytes that have arrived and are not yet read (\<open>uin\<close>), and whether it can take
  another byte (\<open>utx_idle\<close>, the bit \<^verbatim>\<open>LSR_TX_IDLE\<close>).
\<close>

section \<open>State\<close>

record outst = procst +
  uout :: "u8 list"
  uin :: "u8 list"
  utx_idle :: bool
  panicking :: bool
  panicked :: bool

definition cstr :: "string \<Rightarrow> u8 list" where
  "cstr = map of_char"

section \<open>Single characters\<close>

text \<open>The loop on \<^verbatim>\<open>LSR\<close> ends when the device has become idle.\<close>

definition uartputc_sync :: "nat \<Rightarrow> u8 \<Rightarrow> 'a outst_scheme \<Rightarrow> 'a outst_scheme res" where
  "uartputc_sync h c s =
     (let s = (if \<not> panicking s then push_off h s else s)
      in if panicked s then Spin
         else let s = s\<lparr>uout := uout s @ [c]\<rparr>
              in if \<not> panicking s then pop_off h s else Ok s)"

abbreviation (input) BACKSPACE :: u32 where "BACKSPACE \<equiv> 0x100"

definition consputc :: "nat \<Rightarrow> u32 \<Rightarrow> 'a outst_scheme \<Rightarrow> 'a outst_scheme res" where
  "consputc h c s =
     (if c = BACKSPACE
      then rbind (uartputc_sync h 8 s) (\<lambda>s.
           rbind (uartputc_sync h 32 s) (\<lambda>s. uartputc_sync h 8 s))
      else uartputc_sync h (ucast c) s)"

text \<open>Printing a character adds to \<open>uout\<close> and leaves what extends the state alone.\<close>

lemma outst_more: "hwst.more s' = hwst.more s \<Longrightarrow> outst.more s' = outst.more s" for s :: "'a outst_scheme"
  by (cases s; cases s') (simp add: hwst.defs)

lemma uartputc_sync_more: "uartputc_sync h c s = Ok s' \<Longrightarrow> outst.more s' = outst.more s"
  by (auto simp: uartputc_sync_def Let_def outst_more[OF push_off_more]
      dest!: pop_off_more outst_more split: if_splits)

lemma consputc_more: "consputc h c s = Ok s' \<Longrightarrow> outst.more s' = outst.more s"
  by (auto simp: consputc_def dest!: uartputc_sync_more split: if_splits)

section \<open>Numbers\<close>

definition digit :: "u64 \<Rightarrow> u8" where
  "digit d = cstr ''0123456789abcdef'' ! unat d"

text \<open>The digits of \<open>x\<close>, the least significant first. The base is 10 or 16; the second disjunct only makes
  the recursion total.\<close>

function digits_of :: "u64 \<Rightarrow> u64 \<Rightarrow> u8 list" where
  "digits_of x base =
     (if x div base = 0 \<or> base \<le> 1 then [digit (x mod base)]
      else digit (x mod base) # digits_of (x div base) base)"
  by pat_completeness auto
termination
proof (relation "measure (\<lambda>(x, base). unat x)")
  show "wf (measure (\<lambda>(x :: u64, base :: u64). unat x))" by simp
  fix x base :: u64
  assume "\<not> (x div base = 0 \<or> base \<le> 1)"
  then have nz: "x div base \<noteq> 0" and b: "1 < unat base" by (auto simp: word_le_nat_alt)
  have "0 < unat x"
  proof (rule ccontr)
    assume "\<not> 0 < unat x"
    then have "x = 0" by (simp add: unat_eq_zero)
    with nz show False by simp
  qed
  with b have "unat x div unat base < unat x" by (intro div_less_dividend) simp_all
  then show "((x div base, base), (x, base)) \<in> measure (\<lambda>(x, base). unat x)"
    by (simp add: unat_div)
qed

declare digits_of.simps [simp del]

definition printint :: "u64 \<Rightarrow> u64 \<Rightarrow> bool \<Rightarrow> u8 list" where
  "printint xx base sign =
     (let neg = (sign \<and> xx <s 0);
          x = (if neg then - xx else xx);
          buf = digits_of x base;
          buf = (if neg then buf @ cstr ''-'' else buf)
      in rev buf)"

definition printptr :: "u64 \<Rightarrow> u8 list" where
  "printptr x = cstr ''0x'' @ map (\<lambda>i. digit (drop_bit 60 (push_bit (4 * i) x))) [0..<16]"

section \<open>Formats\<close>

text \<open>A variable argument is a word or a pointer to a string. Reading an argument that is not there, or
  not of that kind, is undefined: the result is \<open>None\<close>.\<close>

datatype varg = VWord u64 | VStr "u8 list option"

fun va_word :: "varg list \<Rightarrow> (u64 \<times> varg list) option" where
  "va_word (VWord w # ap) = Some (w, ap)"
| "va_word _ = None"

fun va_str :: "varg list \<Rightarrow> (u8 list \<times> varg list) option" where
  "va_str (VStr (Some s) # ap) = Some (s, ap)"
| "va_str (VStr None # ap) = Some (cstr ''(null)'', ap)"
| "va_str _ = None"

text \<open>The argument of \<^verbatim>\<open>consputc\<close> is an \<^verbatim>\<open>int\<close>; a byte is below \<open>BACKSPACE\<close>.\<close>

abbreviation (input) wide :: "u8 list \<Rightarrow> u32 list" where "wide \<equiv> map ucast"

text \<open>One conversion: the rest of the format after \<^verbatim>\<open>%\<close>, giving the characters, what is left of the
  format, and the remaining arguments.\<close>

definition conversion :: "string \<Rightarrow> varg list \<Rightarrow> (u32 list \<times> string \<times> varg list) option" where
  "conversion f ap =
     (let c0 = (case f of c # _ \<Rightarrow> Some c | [] \<Rightarrow> None);
          c1 = (case f of _ # c # _ \<Rightarrow> Some c | _ \<Rightarrow> None);
          c2 = (case f of _ # _ # c # _ \<Rightarrow> Some c | _ \<Rightarrow> None);
          int = (\<lambda>n base sign long. map_option (\<lambda>(w, ap).
                   (wide (printint (if long then w else if sign then scast (ucast w :: i32)
                              else ucast (ucast w :: u32)) base sign), drop n f, ap)) (va_word ap))
      in if c0 = Some CHR ''d'' then int 1 10 True False
         else if c0 = Some CHR ''l'' \<and> c1 = Some CHR ''d'' then int 2 10 True True
         else if c0 = Some CHR ''l'' \<and> c1 = Some CHR ''l'' \<and> c2 = Some CHR ''d'' then int 3 10 True True
         else if c0 = Some CHR ''u'' then int 1 10 False False
         else if c0 = Some CHR ''l'' \<and> c1 = Some CHR ''u'' then int 2 10 False True
         else if c0 = Some CHR ''l'' \<and> c1 = Some CHR ''l'' \<and> c2 = Some CHR ''u'' then int 3 10 False True
         else if c0 = Some CHR ''x'' then int 1 16 False False
         else if c0 = Some CHR ''l'' \<and> c1 = Some CHR ''x'' then int 2 16 False True
         else if c0 = Some CHR ''l'' \<and> c1 = Some CHR ''l'' \<and> c2 = Some CHR ''x'' then int 3 16 False True
         else if c0 = Some CHR ''p''
         then map_option (\<lambda>(w, ap). (wide (printptr w), drop 1 f, ap)) (va_word ap)
         else if c0 = Some CHR ''c''
         then map_option (\<lambda>(w, ap). ([ucast w], drop 1 f, ap)) (va_word ap)
         else if c0 = Some CHR ''s''
         then map_option (\<lambda>(t, ap). (wide t, drop 1 f, ap)) (va_str ap)
         else if c0 = Some CHR ''%'' then Some (wide (cstr ''%''), drop 1 f, ap)
         else case c0 of None \<Rightarrow> Some ([], [], ap)
              | Some c \<Rightarrow> Some (wide (cstr [CHR ''%'', c]), drop 1 f, ap))"

lemma conversion_shorter: "conversion f ap = Some (out, f', ap') \<Longrightarrow> length f' \<le> length f"
  by (auto simp: conversion_def Let_def split: if_splits option.splits prod.splits list.splits)

function format :: "string \<Rightarrow> varg list \<Rightarrow> u32 list option" where
  "format [] ap = Some []"
| "format (c # f) ap =
     (if c \<noteq> CHR ''%'' then map_option ((#) (ucast (of_char c :: u8))) (format f ap)
      else case conversion f ap of
             None \<Rightarrow> None
           | Some (out, f', ap') \<Rightarrow> map_option ((@) out) (format f' ap'))"
  by pat_completeness auto
termination
  by (relation "measure (\<lambda>(f, ap). length f)") (auto dest: conversion_shorter)

definition putchars :: "nat \<Rightarrow> u32 list \<Rightarrow> 'a outst_scheme \<Rightarrow> 'a outst_scheme res" where
  "putchars h cs s = rfold (consputc h) cs s"

definition printk :: "nat \<Rightarrow> string \<Rightarrow> varg list \<Rightarrow> 'a outst_scheme \<Rightarrow> 'a outst_scheme res" where
  "printk h fmt ap s =
     rbind (if \<not> panicking s then acquire h PrLock s else Ok s) (\<lambda>s.
     case format fmt ap of
       None \<Rightarrow> Panic ''undefined''
     | Some cs \<Rightarrow> rbind (putchars h cs s) (\<lambda>s.
         if \<not> panicking s then release h PrLock s else Ok s))"

text \<open>The message that \<^verbatim>\<open>panic\<close> prints before it stops; \<^verbatim>\<open>panicked\<close> then freezes the output of all
  harts.\<close>

definition kpanic :: "nat \<Rightarrow> u8 list \<Rightarrow> 'a outst_scheme \<Rightarrow> 'a outst_scheme res" where
  "kpanic h msg s =
     (let s = s\<lparr>panicking := True\<rparr>
      in rbind (printk h ''panic: '' [] s) (\<lambda>s.
         rbind (printk h (''%s'' @ [CHR 0x0A]) [VStr (Some msg)] s) (\<lambda>s.
         Ok (s\<lparr>panicked := True\<rparr>))))"

definition printkinit :: "'a outst_scheme \<Rightarrow> 'a outst_scheme" where
  "printkinit s = initlock PrLock ''pr'' s"

section \<open>The process listing\<close>

definition state_name :: "procstate \<Rightarrow> string" where
  "state_name st =
     (case st of UNUSED \<Rightarrow> ''unused'' | USED \<Rightarrow> ''used'' | SLEEPING \<Rightarrow> ''sleep ''
      | RUNNABLE \<Rightarrow> ''runble'' | RUNNING \<Rightarrow> ''run   '' | ZOMBIE \<Rightarrow> ''zombie'')"

definition procdump :: "nat \<Rightarrow> 'a outst_scheme \<Rightarrow> 'a outst_scheme res" where
  "procdump h s =
     rbind (printk h [CHR 0x0A] [] s) (\<lambda>s.
     rfold (\<lambda>p s.
       if state (procs s p) = UNUSED then Ok s
       else rbind (printk h ''%d %s %s''
                     [VWord (scast (pid (procs s p))), VStr (Some (cstr (state_name (state (procs s p))))),
                      VStr (Some (pname (procs s p)))] s) (\<lambda>s.
            printk h [CHR 0x0A] [] s)) [0..<NPROC] s)"

end
