(* ===== verification/Console.thy ===== *)
theory Console
  imports Printk
begin

text \<open>
  The console: the interrupt-driven half of \<^verbatim>\<open>kernel/uart.c\<close> and \<^verbatim>\<open>kernel/console.c\<close>. Input is edited a
  line at a time in a ring of 128 bytes with a read, a write and an edit index; the indices are
  \<^verbatim>\<open>uint\<close>s that only ever grow, modulo \<open>2 ^ 32\<close>.

  \<^verbatim>\<open>consoleread\<close>, \<^verbatim>\<open>consolewrite\<close> and \<^verbatim>\<open>uartwrite\<close> may sleep. Each is a loop that returns
  \<^const>\<open>Sleeping\<close> with its local variables, and a continuation that runs after the wakeup.
\<close>

section \<open>State\<close>

record const = outst +
  tx_busy :: bool
  cons_buf :: "nat \<Rightarrow> u8"
  cons_r :: u32
  cons_w :: u32
  cons_e :: u32

abbreviation (input) INPUT_BUF_SIZE :: u32 where "INPUT_BUF_SIZE \<equiv> 128"

definition slot128 :: "u32 \<Rightarrow> nat" where
  "slot128 i = unat (i mod INPUT_BUF_SIZE)"

section \<open>The UART driver\<close>

primrec uartwrite_loop ::
  "nat \<Rightarrow> u8 list \<Rightarrow> 'a const_scheme \<Rightarrow> ((bool \<times> u8 list, unit) blocking \<times> 'a const_scheme) res" where
  "uartwrite_loop h [] s = rbind (release h TxLock s) (\<lambda>s. Ok (Return (), s))"
| "uartwrite_loop h (b # bs) s =
     (if tx_busy s
      then rbind (sleep_enter h ChUart TxLock s) (\<lambda>(ie, s). Ok (Sleeping (ie, b # bs), s))
      else uartwrite_loop h bs (s\<lparr>uout := uout s @ [b], tx_busy := True\<rparr>))"

definition uartwrite ::
  "nat \<Rightarrow> u8 list \<Rightarrow> 'a const_scheme \<Rightarrow> ((bool \<times> u8 list, unit) blocking \<times> 'a const_scheme) res" where
  "uartwrite h buf s = rbind (acquire h TxLock s) (\<lambda>s. uartwrite_loop h buf s)"

definition uartwrite_return ::
  "nat \<Rightarrow> nat \<Rightarrow> bool \<times> u8 list \<Rightarrow> 'a const_scheme \<Rightarrow>
   ((bool \<times> u8 list, unit) blocking \<times> 'a const_scheme) res" where
  "uartwrite_return h p k s =
     rbind (sleep_return h p (fst k) TxLock s) (\<lambda>s. uartwrite_loop h (snd k) s)"

definition uartgetc :: "'a const_scheme \<Rightarrow> u8 option \<times> 'a const_scheme" where
  "uartgetc s = (case uin s of c # cs \<Rightarrow> (Some c, s\<lparr>uin := cs\<rparr>) | [] \<Rightarrow> (None, s))"

section \<open>Console output\<close>

text \<open>The index \<open>i\<close> runs from 0 to \<^verbatim>\<open>n\<close>. The local variables that survive a sleep are those of
  \<^verbatim>\<open>uartwrite\<close>, and the index after the batch. \<open>kbuf\<close> is the source when it is in the kernel.\<close>

function consolewrite_loop ::
  "nat \<Rightarrow> bool \<Rightarrow> u64 \<Rightarrow> u8 list \<Rightarrow> i32 \<Rightarrow> nat \<Rightarrow> 'a const_scheme \<Rightarrow>
   (((bool \<times> u8 list) \<times> nat, i32) blocking \<times> 'a const_scheme) res" where
  "consolewrite_loop h user_src src kbuf n i s =
     (if int i < sint n
      then let nn = min 32 (nat (sint n) - i)
           in rbind (either_copyin h user_src (src + of_nat i) (drop i kbuf) nn s)
                (\<lambda>(r, buf, s).
             if r = - 1 then Ok (Return (of_nat i), s)
             else rbind (uartwrite h buf s) (\<lambda>(b, s).
               case b of
                 Sleeping k \<Rightarrow> Ok (Sleeping (k, i + nn), s)
               | Return _ \<Rightarrow> consolewrite_loop h user_src src kbuf n (i + nn) s))
      else Ok (Return (of_nat i), s))"
  by pat_completeness auto
termination
  by (relation "measure (\<lambda>(h, u, src, kb, n, i, s). nat (sint n) - i)") auto

declare consolewrite_loop.simps [simp del]

definition consolewrite ::
  "nat \<Rightarrow> bool \<Rightarrow> u64 \<Rightarrow> u8 list \<Rightarrow> i32 \<Rightarrow> 'a const_scheme \<Rightarrow>
   (((bool \<times> u8 list) \<times> nat, i32) blocking \<times> 'a const_scheme) res" where
  "consolewrite h user_src src kbuf n s = consolewrite_loop h user_src src kbuf n 0 s"

definition consolewrite_return ::
  "nat \<Rightarrow> nat \<Rightarrow> (bool \<times> u8 list) \<times> nat \<Rightarrow> bool \<Rightarrow> u64 \<Rightarrow> u8 list \<Rightarrow> i32 \<Rightarrow> 'a const_scheme \<Rightarrow>
   (((bool \<times> u8 list) \<times> nat, i32) blocking \<times> 'a const_scheme) res" where
  "consolewrite_return h p k user_src src kbuf n s =
     rbind (uartwrite_return h p (fst k) s) (\<lambda>(b, s).
       case b of
         Sleeping k' \<Rightarrow> Ok (Sleeping (k', snd k), s)
       | Return _ \<Rightarrow> consolewrite_loop h user_src src kbuf n (snd k) s)"

section \<open>Console input\<close>

text \<open>\<open>n\<close> counts down from the requested number, \<open>target\<close>; \<open>out\<close> is what a kernel destination has
  received. The variables that survive a sleep are \<^verbatim>\<open>n\<close>, \<^verbatim>\<open>dst\<close> and \<open>out\<close>.\<close>

primrec consoleread_loop ::
  "nat \<Rightarrow> bool \<Rightarrow> nat \<Rightarrow> nat \<Rightarrow> u64 \<Rightarrow> u8 list \<Rightarrow> 'a const_scheme \<Rightarrow>
   ((bool \<times> nat \<times> u64 \<times> u8 list, i32 \<times> u8 list) blocking \<times> 'a const_scheme) res" where
  "consoleread_loop h user_dst target 0 dst out s =
     rbind (release h ConsLock s) (\<lambda>s. Ok (Return (of_nat target, out), s))"
| "consoleread_loop h user_dst target (Suc n) dst out s =
     (let done = (\<lambda>left out s. rbind (release h ConsLock s) (\<lambda>s. Ok (Return (of_nat (target - left), out), s)))
      in if cons_r s = cons_w s
         then rbind (myproc h s) (\<lambda>(mp, s). rbind (deref mp) (\<lambda>p. rbind (get_killed h p s) (\<lambda>(k, s).
           if k \<noteq> 0 then rbind (release h ConsLock s) (\<lambda>s. Ok (Return (- 1, out), s))
           else rbind (sleep_enter h ChCons ConsLock s) (\<lambda>(ie, s).
                  Ok (Sleeping (ie, Suc n, dst, out), s)))))
         else let c = cons_buf s (slot128 (cons_r s)); s = s\<lparr>cons_r := cons_r s + 1\<rparr>
              in if c = 4
                 then done (Suc n) out (if Suc n < target then s\<lparr>cons_r := cons_r s - 1\<rparr> else s)
                 else rbind (either_copyout h user_dst dst [c] s) (\<lambda>(r, kb, s).
                   if r = - 1 then done (Suc n) out s
                   else if c = 10 then done n (out @ kb) s
                   else consoleread_loop h user_dst target n (dst + 1) (out @ kb) s))"

text \<open>A count that is not positive reads nothing: \<^verbatim>\<open>target - n\<close> is 0.\<close>

definition consoleread ::
  "nat \<Rightarrow> bool \<Rightarrow> u64 \<Rightarrow> i32 \<Rightarrow> 'a const_scheme \<Rightarrow>
   ((bool \<times> nat \<times> u64 \<times> u8 list, i32 \<times> u8 list) blocking \<times> 'a const_scheme) res" where
  "consoleread h user_dst dst n s =
     rbind (acquire h ConsLock s) (\<lambda>s.
       if sint n \<le> 0 then rbind (release h ConsLock s) (\<lambda>s. Ok (Return (0, []), s))
       else consoleread_loop h user_dst (unat n) (unat n) dst [] s)"

definition consoleread_return ::
  "nat \<Rightarrow> nat \<Rightarrow> bool \<times> nat \<times> u64 \<times> u8 list \<Rightarrow> bool \<Rightarrow> i32 \<Rightarrow> 'a const_scheme \<Rightarrow>
   ((bool \<times> nat \<times> u64 \<times> u8 list, i32 \<times> u8 list) blocking \<times> 'a const_scheme) res" where
  "consoleread_return h p k user_dst n s =
     (case k of (ie, left, dst, out) \<Rightarrow>
        rbind (sleep_return h p ie ConsLock s) (\<lambda>s.
          consoleread_loop h user_dst (unat n) left dst out s))"

section \<open>The input interrupt\<close>

lemma const_of_more:
  "outst.more s' = outst.more s \<Longrightarrow> cons_buf s' = cons_buf s \<and> cons_r s' = cons_r s \<and> cons_w s' = cons_w s
     \<and> cons_e s' = cons_e s \<and> tx_busy s' = tx_busy s" for s :: "'a const_scheme"
  by (cases s; cases s') (simp add: outst.defs)

lemmas consputc_cons = const_of_more[OF consputc_more]

text \<open>\<^verbatim>\<open>C('U')\<close>: the loop runs at most over the characters between the write and the edit index.\<close>

function kill_line :: "nat \<Rightarrow> 'a const_scheme \<Rightarrow> 'a const_scheme res" where
  "kill_line h s =
     (if cons_e s \<noteq> cons_w s \<and> cons_buf s (slot128 (cons_e s - 1)) \<noteq> 10
      then rbind (consputc h BACKSPACE (s\<lparr>cons_e := cons_e s - 1\<rparr>)) (\<lambda>s. kill_line h s)
      else Ok s)"
  by pat_completeness auto
termination
proof (relation "measure (\<lambda>(h, s). unat (cons_e s - cons_w s))")
  fix h and s s' :: "'a const_scheme"
  assume c: "cons_e s \<noteq> cons_w s \<and> cons_buf s (slot128 (cons_e s - 1)) \<noteq> 10"
    and "consputc h BACKSPACE (s\<lparr>cons_e := cons_e s - 1\<rparr>) = Ok s'"
  then have "cons_e s' = cons_e s - 1" "cons_w s' = cons_w s"
    by (auto dest!: consputc_cons)
  moreover have "unat (cons_e s - 1 - cons_w s) < unat (cons_e s - cons_w s)"
    using c unat_minus_one[of "cons_e s - cons_w s"] by (simp add: algebra_simps unat_gt_0)
  ultimately show "((h, s'), (h, s)) \<in> measure (\<lambda>(h, s). unat (cons_e s - cons_w s))" by simp
qed simp

declare kill_line.simps [simp del]

definition consoleintr :: "nat \<Rightarrow> u8 \<Rightarrow> 'a const_scheme \<Rightarrow> 'a const_scheme res" where
  "consoleintr h c s =
     rbind (acquire h ConsLock s) (\<lambda>s.
     rbind (if c = 16 then procdump h s
            else if c = 21 then kill_line h s
            else if c = 8 \<or> c = 127
            then if cons_e s \<noteq> cons_w s
                 then consputc h BACKSPACE (s\<lparr>cons_e := cons_e s - 1\<rparr>) else Ok s
            else if c \<noteq> 0 \<and> cons_e s - cons_r s < INPUT_BUF_SIZE
            then let c = (if c = 13 then 10 else c)
                 in rbind (consputc h (ucast c) s) (\<lambda>s.
                    let s = s\<lparr>cons_buf := (cons_buf s)(slot128 (cons_e s) := c),
                               cons_e := cons_e s + 1\<rparr>
                    in if c = 10 \<or> c = 4 \<or> cons_e s - cons_r s = INPUT_BUF_SIZE
                       then wakeup h (Some ChCons) (s\<lparr>cons_w := cons_e s\<rparr>)
                       else Ok s)
            else Ok s) (\<lambda>s.
     release h ConsLock s))"

text \<open>\<^verbatim>\<open>uartintr\<close> hands every waiting byte to \<^const>\<open>consoleintr\<close>. Bytes that arrive while it runs raise
  another interrupt, so the loop is over the bytes that were waiting.\<close>

primrec uartintr_loop :: "nat \<Rightarrow> nat \<Rightarrow> 'a const_scheme \<Rightarrow> 'a const_scheme res" where
  "uartintr_loop h 0 s = Ok s"
| "uartintr_loop h (Suc n) s =
     (case uartgetc s of
        (None, s) \<Rightarrow> Ok s
      | (Some c, s) \<Rightarrow> rbind (consoleintr h c s) (\<lambda>s. uartintr_loop h n s))"

definition uartintr :: "nat \<Rightarrow> 'a const_scheme \<Rightarrow> 'a const_scheme res" where
  "uartintr h s =
     rbind (acquire h TxLock s) (\<lambda>s.
     rbind (if utx_idle s then wakeup h (Some ChUart) (s\<lparr>tx_busy := False\<rparr>) else Ok s) (\<lambda>s.
     rbind (release h TxLock s) (\<lambda>s.
     uartintr_loop h (length (uin s)) s)))"

definition consoleinit :: "'a const_scheme \<Rightarrow> 'a const_scheme" where
  "consoleinit s = initlock TxLock ''uart'' (initlock ConsLock ''cons'' s)"

end
