(* ===== verification/Sleeplock.thy ===== *)
theory Sleeplock
  imports Console
begin

text \<open>
  Sleep locks, \<^verbatim>\<open>kernel/sleeplock.c\<close>. A sleep lock is held by a process, recorded by its process number,
  and waiting for it puts the process to sleep. The spin lock inside sleep lock \<open>l\<close> is \<open>SleepLk l\<close>.

  \<^verbatim>\<open>acquiresleep\<close> is again two pieces around the sleep. The file system calls it through
  \<open>acquiresleep\<close>, whose result is \<^const>\<open>Spin\<close> when the process has gone to sleep: the caller has not got
  the lock and does not proceed until it is woken and finds the lock free.
\<close>

record sleeplk =
  sl_name :: string
  sl_locked :: u32
  sl_pid :: i32

record slst = const +
  sleeplocks :: "nat \<Rightarrow> sleeplk"

definition initsleeplock :: "nat \<Rightarrow> string \<Rightarrow> 'a slst_scheme \<Rightarrow> 'a slst_scheme" where
  "initsleeplock l name s =
     (let s = initlock (SleepLk l) ''sleep lock'' s
      in s\<lparr>sleeplocks := (sleeplocks s)(l := \<lparr>sl_name = name, sl_locked = 0, sl_pid = 0\<rparr>)\<rparr>)"

text \<open>One turn of the loop, entered with the spin lock held.\<close>

definition acquiresleep_turn ::
  "nat \<Rightarrow> nat \<Rightarrow> 'a slst_scheme \<Rightarrow> ((bool, unit) blocking \<times> 'a slst_scheme) res" where
  "acquiresleep_turn h l s =
     (if sl_locked (sleeplocks s l) \<noteq> 0
      then rbind (sleep_enter h (ChSleepLock l) (SleepLk l) s) (\<lambda>(ie, s). Ok (Sleeping ie, s))
      else let s = s\<lparr>sleeplocks := (sleeplocks s)(l := (sleeplocks s l)\<lparr>sl_locked := 1\<rparr>)\<rparr>
           in rbind (myproc h s) (\<lambda>(mp, s).
              rbind (deref mp) (\<lambda>p.
              let s = s\<lparr>sleeplocks := (sleeplocks s)(l := (sleeplocks s l)\<lparr>sl_pid := pid (procs s p)\<rparr>)\<rparr>
              in rbind (release h (SleepLk l) s) (\<lambda>s. Ok (Return (), s)))))"

definition acquiresleep_enter ::
  "nat \<Rightarrow> nat \<Rightarrow> 'a slst_scheme \<Rightarrow> ((bool, unit) blocking \<times> 'a slst_scheme) res" where
  "acquiresleep_enter h l s = rbind (acquire h (SleepLk l) s) (\<lambda>s. acquiresleep_turn h l s)"

definition acquiresleep_return ::
  "nat \<Rightarrow> nat \<Rightarrow> bool \<Rightarrow> nat \<Rightarrow> 'a slst_scheme \<Rightarrow> ((bool, unit) blocking \<times> 'a slst_scheme) res" where
  "acquiresleep_return h p ie l s =
     rbind (sleep_return h p ie (SleepLk l) s) (\<lambda>s. acquiresleep_turn h l s)"

text \<open>A blocking call seen by a caller that waits for it.\<close>

definition completes :: "(('k, 'r) blocking \<times> 's) res \<Rightarrow> ('r \<times> 's) res" where
  "completes m =
     rbind m (\<lambda>(b, s). case b of Return r \<Rightarrow> Ok (r, s) | Sleeping _ \<Rightarrow> Spin)"

definition acquiresleep :: "nat \<Rightarrow> nat \<Rightarrow> 'a slst_scheme \<Rightarrow> 'a slst_scheme res" where
  "acquiresleep h l s = rbind (completes (acquiresleep_enter h l s)) (\<lambda>(_, s). Ok s)"

definition releasesleep :: "nat \<Rightarrow> nat \<Rightarrow> 'a slst_scheme \<Rightarrow> 'a slst_scheme res" where
  "releasesleep h l s =
     rbind (acquire h (SleepLk l) s) (\<lambda>s.
     let s = s\<lparr>sleeplocks := (sleeplocks s)(l := (sleeplocks s l)\<lparr>sl_locked := 0, sl_pid := 0\<rparr>)\<rparr>
     in rbind (wakeup h (Some (ChSleepLock l)) s) (\<lambda>s. release h (SleepLk l) s))"

definition holdingsleep :: "nat \<Rightarrow> nat \<Rightarrow> 'a slst_scheme \<Rightarrow> (bool \<times> 'a slst_scheme) res" where
  "holdingsleep h l s =
     rbind (acquire h (SleepLk l) s) (\<lambda>s.
     rbind (if sl_locked (sleeplocks s l) \<noteq> 0
            then rbind (myproc h s) (\<lambda>(mp, s).
                 rbind (deref mp) (\<lambda>p. Ok (sl_pid (sleeplocks s l) = pid (procs s p), s)))
            else Ok (False, s)) (\<lambda>(r, s).
     rbind (release h (SleepLk l) s) (\<lambda>s. Ok (r, s))))"

end
