(* ===== verification/Bio.thy ===== *)
theory Bio
  imports Sleeplock
begin

text \<open>
  The buffer cache, \<^verbatim>\<open>kernel/bio.c\<close>: buffers on a doubly linked list in order of use. A pointer to a
  buffer is its index; index \<open>NBUF\<close> is the list head \<^verbatim>\<open>bcache.head\<close>. The sleep lock of buffer \<open>b\<close> is sleep
  lock \<open>b\<close>.

  The disk is hardware. Its contents are \<open>disk\<close>, and \<open>dtrace\<close> records the blocks written, in order. A
  transfer moves one block between a buffer and the disk; the driver that carries it out is in theory
  \<^verbatim>\<open>Virtio\<close>.
\<close>

section \<open>State\<close>

definition NBUF :: nat where [param_defs]: "NBUF = 30"

text \<open>The contents of a block: byte \<open>i\<close> for \<open>i < 1024\<close>.\<close>

type_synonym block = "nat \<Rightarrow> u8"

record buf =
  b_valid :: bool
  b_dev :: u32
  b_blockno :: u32
  b_refcnt :: u32
  b_prev :: nat
  b_next :: nat
  b_data :: block

record biost = slst +
  bufs :: "nat \<Rightarrow> buf"
  disk :: "u32 \<Rightarrow> block"
  dtrace :: "(u32 \<times> block) list"

definition upd_buf :: "nat \<Rightarrow> (buf \<Rightarrow> buf) \<Rightarrow> 'a biost_scheme \<Rightarrow> 'a biost_scheme" where
  "upd_buf b f s = s\<lparr>bufs := (bufs s)(b := f (bufs s b))\<rparr>"

text \<open>One transfer: \<^verbatim>\<open>virtio_disk_rw\<close> as the file system sees it, with the request served.\<close>

definition disk_rw :: "nat \<Rightarrow> bool \<Rightarrow> 'a biost_scheme \<Rightarrow> 'a biost_scheme" where
  "disk_rw b write s =
     (if write
      then s\<lparr>disk := (disk s)(b_blockno (bufs s b) := b_data (bufs s b)),
             dtrace := dtrace s @ [(b_blockno (bufs s b), b_data (bufs s b))]\<rparr>
      else upd_buf b (\<lambda>x. x\<lparr>b_data := disk s (b_blockno x)\<rparr>) s)"

section \<open>Operations\<close>

text \<open>The pointer assignments that put buffer \<open>b\<close> right after the head.\<close>

definition link_front :: "nat \<Rightarrow> 'a biost_scheme \<Rightarrow> 'a biost_scheme" where
  "link_front b s =
     (let s = upd_buf b (\<lambda>x. x\<lparr>b_next := b_next (bufs s NBUF)\<rparr>) s;
          s = upd_buf b (\<lambda>x. x\<lparr>b_prev := NBUF\<rparr>) s;
          s = upd_buf (b_next (bufs s NBUF)) (\<lambda>x. x\<lparr>b_prev := b\<rparr>) s
      in upd_buf NBUF (\<lambda>x. x\<lparr>b_next := b\<rparr>) s)"

definition binit :: "'a biost_scheme \<Rightarrow> 'a biost_scheme" where
  "binit s =
     (let s = initlock BcacheLock ''bcache'' s;
          s = upd_buf NBUF (\<lambda>x. x\<lparr>b_prev := NBUF\<rparr>) s;
          s = upd_buf NBUF (\<lambda>x. x\<lparr>b_next := NBUF\<rparr>) s
      in fold (\<lambda>b s. link_front b (initsleeplock b ''buffer'' s)) [0..<NBUF] s)"

text \<open>A walk along the list, forwards (\<^verbatim>\<open>next\<close>) or backwards (\<^verbatim>\<open>prev\<close>), to the first buffer that
  satisfies a condition. A list that is not a ring through the head may never end: \<open>None\<close>. The result
  \<open>Some None\<close> says that the head was reached.\<close>

partial_function (option) bwalk :: "(nat \<Rightarrow> nat) \<Rightarrow> (nat \<Rightarrow> bool) \<Rightarrow> nat \<Rightarrow> nat option option" where
  "bwalk step P b =
     (if b = NBUF then Some None
      else if P b then Some (Some b)
      else bwalk step P (step b))"

definition bget :: "nat \<Rightarrow> u32 \<Rightarrow> u32 \<Rightarrow> 'a biost_scheme \<Rightarrow> (nat \<times> 'a biost_scheme) res" where
  "bget h dev blockno s =
     rbind (acquire h BcacheLock s) (\<lambda>s.
     case bwalk (\<lambda>b. b_next (bufs s b))
            (\<lambda>b. b_dev (bufs s b) = dev \<and> b_blockno (bufs s b) = blockno) (b_next (bufs s NBUF)) of
       None \<Rightarrow> Spin
     | Some (Some b) \<Rightarrow>
         let s = upd_buf b (\<lambda>x. x\<lparr>b_refcnt := b_refcnt x + 1\<rparr>) s
         in rbind (release h BcacheLock s) (\<lambda>s.
            rbind (acquiresleep h b s) (\<lambda>s. Ok (b, s)))
     | Some None \<Rightarrow>
         (case bwalk (\<lambda>b. b_prev (bufs s b)) (\<lambda>b. b_refcnt (bufs s b) = 0) (b_prev (bufs s NBUF)) of
            None \<Rightarrow> Spin
          | Some (Some b) \<Rightarrow>
              let s = upd_buf b (\<lambda>x. x\<lparr>b_dev := dev, b_blockno := blockno, b_valid := False,
                                       b_refcnt := 1\<rparr>) s
              in rbind (release h BcacheLock s) (\<lambda>s.
                 rbind (acquiresleep h b s) (\<lambda>s. Ok (b, s)))
          | Some None \<Rightarrow> Panic ''bget: no buffers''))"

definition bread :: "nat \<Rightarrow> u32 \<Rightarrow> u32 \<Rightarrow> 'a biost_scheme \<Rightarrow> (nat \<times> 'a biost_scheme) res" where
  "bread h dev blockno s =
     rbind (bget h dev blockno s) (\<lambda>(b, s).
       if \<not> b_valid (bufs s b)
       then Ok (b, upd_buf b (\<lambda>x. x\<lparr>b_valid := True\<rparr>) (disk_rw b False s))
       else Ok (b, s))"

definition bwrite :: "nat \<Rightarrow> nat \<Rightarrow> 'a biost_scheme \<Rightarrow> 'a biost_scheme res" where
  "bwrite h b s =
     rbind (holdingsleep h b s) (\<lambda>(r, s).
       if \<not> r then Panic ''bwrite'' else Ok (disk_rw b True s))"

text \<open>The pointer assignments that take buffer \<open>b\<close> off the list.\<close>

definition unlink_buf :: "nat \<Rightarrow> 'a biost_scheme \<Rightarrow> 'a biost_scheme" where
  "unlink_buf b s =
     (let s = upd_buf (b_next (bufs s b)) (\<lambda>x. x\<lparr>b_prev := b_prev (bufs s b)\<rparr>) s
      in upd_buf (b_prev (bufs s b)) (\<lambda>x. x\<lparr>b_next := b_next (bufs s b)\<rparr>) s)"

definition brelse :: "nat \<Rightarrow> nat \<Rightarrow> 'a biost_scheme \<Rightarrow> 'a biost_scheme res" where
  "brelse h b s =
     rbind (holdingsleep h b s) (\<lambda>(r, s).
       if \<not> r then Panic ''brelse''
       else rbind (releasesleep h b s) (\<lambda>s.
            rbind (acquire h BcacheLock s) (\<lambda>s.
            let s = upd_buf b (\<lambda>x. x\<lparr>b_refcnt := b_refcnt x - 1\<rparr>) s;
                s = (if b_refcnt (bufs s b) = 0 then link_front b (unlink_buf b s) else s)
            in release h BcacheLock s)))"

definition bpin :: "nat \<Rightarrow> nat \<Rightarrow> 'a biost_scheme \<Rightarrow> 'a biost_scheme res" where
  "bpin h b s =
     rbind (acquire h BcacheLock s) (\<lambda>s.
       release h BcacheLock (upd_buf b (\<lambda>x. x\<lparr>b_refcnt := b_refcnt x + 1\<rparr>) s))"

definition bunpin :: "nat \<Rightarrow> nat \<Rightarrow> 'a biost_scheme \<Rightarrow> 'a biost_scheme res" where
  "bunpin h b s =
     rbind (acquire h BcacheLock s) (\<lambda>s.
       release h BcacheLock (upd_buf b (\<lambda>x. x\<lparr>b_refcnt := b_refcnt x - 1\<rparr>) s))"

end
