(* ===== verification/Log.thy ===== *)
theory Log
  imports Bio
begin

text \<open>
  The write-ahead log, \<^verbatim>\<open>kernel/log.c\<close>. A transaction's blocks are copied to the log, the header that
  names them is written (the commit point), the blocks are copied to their home locations, and the
  header is cleared.
\<close>

section \<open>Words in a block\<close>

definition get32 :: "block \<Rightarrow> nat \<Rightarrow> u32" where
  "get32 d off = ucast (d off) OR push_bit 8 (ucast (d (off + 1)))
                 OR push_bit 16 (ucast (d (off + 2))) OR push_bit 24 (ucast (d (off + 3)))"

definition put32 :: "nat \<Rightarrow> u32 \<Rightarrow> block \<Rightarrow> block" where
  "put32 off w d = d(off := ucast w, off + 1 := ucast (drop_bit 8 w),
                     off + 2 := ucast (drop_bit 16 w), off + 3 := ucast (drop_bit 24 w))"

section \<open>State\<close>

definition LOGBLOCKS :: nat where [param_defs]: "LOGBLOCKS = 30"
definition MAXOPBLOCKS :: nat where [param_defs]: "MAXOPBLOCKS = 10"

text \<open>\<^verbatim>\<open>struct log\<close> with its in-memory \<^verbatim>\<open>struct logheader\<close>.\<close>

record logst = biost +
  log_start :: i32
  log_outstanding :: i32
  log_committing :: bool
  log_dev :: u32
  log_ncommit :: i32
  lh_n :: i32
  lh_block :: "nat \<Rightarrow> u32"

text \<open>The number of turns of a loop \<^verbatim>\<open>for (i = 0; i < n; i++)\<close> with an \<^verbatim>\<open>int\<close> bound.\<close>

definition upto_int :: "i32 \<Rightarrow> nat list" where
  "upto_int n = [0..<nat (sint n)]"

section \<open>Header and recovery\<close>

text \<open>A header with more than \<open>LOGBLOCKS\<close> entries would be read past the end of the array.\<close>

definition read_head :: "nat \<Rightarrow> 'a logst_scheme \<Rightarrow> 'a logst_scheme res" where
  "read_head h s =
     rbind (bread h (log_dev s) (log_start s) s) (\<lambda>(b, s).
     let lh = b_data (bufs s b); s = s\<lparr>lh_n := get32 lh 0\<rparr>
     in if int LOGBLOCKS < sint (lh_n s) then Panic ''undefined''
        else let s = s\<lparr>lh_block := fold (\<lambda>i t. t(i := get32 lh (4 + 4 * i))) (upto_int (lh_n s)) (lh_block s)\<rparr>
             in brelse h b s)"

definition write_head :: "nat \<Rightarrow> 'a logst_scheme \<Rightarrow> 'a logst_scheme res" where
  "write_head h s =
     rbind (bread h (log_dev s) (log_start s) s) (\<lambda>(b, s).
     let s = upd_buf b (\<lambda>x. x\<lparr>b_data :=
               fold (\<lambda>i d. put32 (4 + 4 * i) (lh_block s i) d) (upto_int (lh_n s))
                 (put32 0 (lh_n s) (b_data x))\<rparr>) s
     in rbind (bwrite h b s) (\<lambda>s. brelse h b s))"

definition install_trans :: "nat \<Rightarrow> bool \<Rightarrow> 'a logst_scheme \<Rightarrow> 'a logst_scheme res" where
  "install_trans h recovering s =
     rfold (\<lambda>tail s.
       rbind (if recovering
              then printk h (''recovering tail %d dst %d'' @ [CHR 0x0A])
                     [VWord (of_nat tail), VWord (scast (lh_block s tail))] s
              else Ok s) (\<lambda>s.
       rbind (bread h (log_dev s) (log_start s + of_nat tail + 1) s) (\<lambda>(lbuf, s).
       rbind (bread h (log_dev s) (lh_block s tail) s) (\<lambda>(dbuf, s).
       let s = upd_buf dbuf (\<lambda>x. x\<lparr>b_data := b_data (bufs s lbuf)\<rparr>) s in
       rbind (bwrite h dbuf s) (\<lambda>s.
       rbind (if \<not> recovering then bunpin h dbuf s else Ok s) (\<lambda>s.
       rbind (brelse h lbuf s) (\<lambda>s.
       brelse h dbuf s))))))) (upto_int (lh_n s)) s"

definition recover_from_log :: "nat \<Rightarrow> 'a logst_scheme \<Rightarrow> 'a logst_scheme res" where
  "recover_from_log h s =
     rbind (read_head h s) (\<lambda>s.
     rbind (install_trans h True s) (\<lambda>s.
     write_head h (s\<lparr>lh_n := 0\<rparr>)))"

text \<open>\<^verbatim>\<open>sizeof(struct logheader)\<close> is 124, less than \<^verbatim>\<open>BSIZE\<close>: the check cannot fail.\<close>

definition initlog :: "nat \<Rightarrow> u32 \<Rightarrow> u32 \<Rightarrow> 'a logst_scheme \<Rightarrow> 'a logst_scheme res" where
  "initlog h dev logstart s =
     (if 1024 \<le> 4 + 4 * LOGBLOCKS then Panic ''initlog: too big logheader''
      else recover_from_log h ((initlock LogLock ''log'' s)\<lparr>log_start := logstart, log_dev := dev\<rparr>))"

section \<open>Commit\<close>

definition write_log :: "nat \<Rightarrow> 'a logst_scheme \<Rightarrow> 'a logst_scheme res" where
  "write_log h s =
     rfold (\<lambda>tail s.
       rbind (bread h (log_dev s) (log_start s + of_nat tail + 1) s) (\<lambda>(to, s).
       rbind (bread h (log_dev s) (lh_block s tail) s) (\<lambda>(from, s).
       let s = upd_buf to (\<lambda>x. x\<lparr>b_data := b_data (bufs s from)\<rparr>) s in
       rbind (bwrite h to s) (\<lambda>s.
       rbind (brelse h from s) (\<lambda>s.
       brelse h to s))))) (upto_int (lh_n s)) s"

definition commit :: "nat \<Rightarrow> 'a logst_scheme \<Rightarrow> 'a logst_scheme res" where
  "commit h s =
     (if 0 <s lh_n s
      then rbind (write_log h s) (\<lambda>s.
           rbind (write_head h s) (\<lambda>s.
           rbind (install_trans h False s) (\<lambda>s.
           write_head h (s\<lparr>lh_n := 0\<rparr>))))
      else Ok s)"

section \<open>Transactions\<close>

definition log_full :: "'a logst_scheme \<Rightarrow> bool" where
  "log_full s \<longleftrightarrow>
     of_nat LOGBLOCKS <s lh_n s + (log_outstanding s + 1) * of_nat MAXOPBLOCKS"

text \<open>One turn of \<^verbatim>\<open>begin_op\<close>'s loop, with the log lock held.\<close>

definition begin_op_turn :: "nat \<Rightarrow> 'a logst_scheme \<Rightarrow> ((bool, unit) blocking \<times> 'a logst_scheme) res"
  where
  "begin_op_turn h s =
     (if log_committing s
      then rbind (sleep_enter h ChLog LogLock s) (\<lambda>(ie, s). Ok (Sleeping ie, s))
      else if log_full s
      then rbind (sleep_enter h ChLog LogLock s) (\<lambda>(ie, s). Ok (Sleeping ie, s))
      else rbind (release h LogLock (s\<lparr>log_outstanding := log_outstanding s + 1\<rparr>))
             (\<lambda>s. Ok (Return (), s)))"

definition begin_op_enter :: "nat \<Rightarrow> 'a logst_scheme \<Rightarrow> ((bool, unit) blocking \<times> 'a logst_scheme) res"
  where
  "begin_op_enter h s = rbind (acquire h LogLock s) (\<lambda>s. begin_op_turn h s)"

definition begin_op_return ::
  "nat \<Rightarrow> nat \<Rightarrow> bool \<Rightarrow> 'a logst_scheme \<Rightarrow> ((bool, unit) blocking \<times> 'a logst_scheme) res" where
  "begin_op_return h p ie s = rbind (sleep_return h p ie LogLock s) (\<lambda>s. begin_op_turn h s)"

definition begin_op :: "nat \<Rightarrow> 'a logst_scheme \<Rightarrow> 'a logst_scheme res" where
  "begin_op h s = rbind (completes (begin_op_enter h s)) (\<lambda>(_, s). Ok s)"

definition end_op :: "nat \<Rightarrow> 'a logst_scheme \<Rightarrow> 'a logst_scheme res" where
  "end_op h s =
     rbind (acquire h LogLock s) (\<lambda>s.
     let s = s\<lparr>log_outstanding := log_outstanding s - 1\<rparr>
     in if log_committing s then Panic ''log.committing''
        else let do_commit = (log_outstanding s = 0)
             in rbind (if do_commit then Ok (s\<lparr>log_committing := True\<rparr>)
                       else wakeup h (Some ChLog) s) (\<lambda>s.
                rbind (release h LogLock s) (\<lambda>s.
                if do_commit
                then rbind (commit h s) (\<lambda>s.
                     rbind (acquire h LogLock s) (\<lambda>s.
                     let s = s\<lparr>log_committing := False, log_ncommit := log_ncommit s + 1\<rparr>
                     in rbind (wakeup h (Some ChLog) s) (\<lambda>s. release h LogLock s)))
                else Ok s)))"

text \<open>The index at which \<^verbatim>\<open>log_write\<close> records block \<open>bno\<close>: its old place, or the end.\<close>

definition log_slot :: "u32 \<Rightarrow> 'a logst_scheme \<Rightarrow> nat" where
  "log_slot bno s =
     (case find (\<lambda>i. lh_block s i = bno) (upto_int (lh_n s)) of
        Some i \<Rightarrow> i | None \<Rightarrow> nat (sint (lh_n s)))"

definition log_write :: "nat \<Rightarrow> nat \<Rightarrow> 'a logst_scheme \<Rightarrow> 'a logst_scheme res" where
  "log_write h b s =
     rbind (acquire h LogLock s) (\<lambda>s.
       if of_nat LOGBLOCKS \<le>s lh_n s then Panic ''too big a transaction''
       else if log_outstanding s <s 1 then Panic ''log_write outside of trans''
       else let i = log_slot (b_blockno (bufs s b)) s;
                s = s\<lparr>lh_block := (lh_block s)(i := b_blockno (bufs s b))\<rparr>
            in rbind (if int i = sint (lh_n s)
                      then rbind (bpin h b s) (\<lambda>s. Ok (s\<lparr>lh_n := lh_n s + 1\<rparr>)) else Ok s)
                 (\<lambda>s. release h LogLock s))"

text \<open>\<^verbatim>\<open>sys_sync\<close>; \<open>n\<close> is the commit number it waits for.\<close>

definition sys_sync_turn :: "nat \<Rightarrow> i32 \<Rightarrow> 'a logst_scheme \<Rightarrow> ((bool \<times> i32, u64) blocking \<times> 'a logst_scheme) res"
  where
  "sys_sync_turn h n s =
     (if log_ncommit s <s n
      then rbind (sleep_enter h ChLog LogLock s) (\<lambda>(ie, s). Ok (Sleeping (ie, n), s))
      else rbind (release h LogLock s) (\<lambda>s. Ok (Return 0, s)))"

definition sys_sync :: "nat \<Rightarrow> 'a logst_scheme \<Rightarrow> ((bool \<times> i32, u64) blocking \<times> 'a logst_scheme) res" where
  "sys_sync h s =
     rbind (acquire h LogLock s) (\<lambda>s.
       if log_committing s \<or> 0 <s log_outstanding s
       then sys_sync_turn h (log_ncommit s + 1) s
       else rbind (release h LogLock s) (\<lambda>s. Ok (Return 0, s)))"

definition sys_sync_return ::
  "nat \<Rightarrow> nat \<Rightarrow> bool \<times> i32 \<Rightarrow> 'a logst_scheme \<Rightarrow> ((bool \<times> i32, u64) blocking \<times> 'a logst_scheme) res" where
  "sys_sync_return h p k s =
     rbind (sleep_return h p (fst k) LogLock s) (\<lambda>s. sys_sync_turn h (snd k) s)"

end
