(* ===== verification/Bio_Laws.thy ===== *)
theory Bio_Laws
  imports Bio Proc_Laws
begin

text \<open>
  The buffer cache on a machine whose locks are free: each operation as one equation, the list of buffers as a
  sequence, and the contents of a block as a caller of the cache sees them.
\<close>

section \<open>Critical sections\<close>

text \<open>A change of the state that neither reads nor writes the CPUs, the interrupt bits and the locks.\<close>

definition framed :: "('a hwst_scheme \<Rightarrow> 'a hwst_scheme) \<Rightarrow> bool" where
  "framed F \<longleftrightarrow> (\<forall>s v. F (s\<lparr>cpus := v\<rparr>) = (F s)\<lparr>cpus := v\<rparr>) \<and> (\<forall>s v. F (s\<lparr>sie := v\<rparr>) = (F s)\<lparr>sie := v\<rparr>) \<and>
     (\<forall>s v. F (s\<lparr>locks := v\<rparr>) = (F s)\<lparr>locks := v\<rparr>)"

lemma framed_lock_frame: "framed F \<Longrightarrow> lock_frame (\<lambda>(_ :: unit) (x :: unit) s. (x, F s))"
  by unfold_locales (simp_all add: framed_def)

lemma framed_fields:
  assumes "framed F"
  shows "cpus (F s) = cpus s" "sie (F s) = sie s" "locks (F s) = locks s"
  using lock_frame.body_keeps[OF framed_lock_frame[OF assms], where s = s] by simp_all

lemma framed_touch: "framed F \<Longrightarrow> F (touch h s) = touch h (F s)"
  using lock_frame.body_touch[OF framed_lock_frame, where s = s and h = h] by simp

lemma release_framed:
  assumes "framed F" and "hart_ok h s" and "lock_free l s"
  shows "release h l (F (acquired h l s)) = Ok (F (touch h s))"
proof -
  have "with_lock h l (\<lambda>s. ((), F s)) s = Ok ((), F (touch h s))"
    using lock_frame.section_atomic[OF framed_lock_frame[OF assms(1)] assms(2,3)] by simp
  then show ?thesis
    by (auto simp: with_lock_def acquire_free[OF assms(3)])
qed

lemma framed_comp: "framed F \<Longrightarrow> framed G \<Longrightarrow> framed (\<lambda>s. F (G s))"
  by (simp add: framed_def)

lemma framed_id: "framed (\<lambda>s. s)"
  by (simp add: framed_def)

section \<open>Sleep locks\<close>

text \<open>\<open>calm h p s\<close>: hart \<open>h\<close> runs process \<open>p\<close>, and the spin locks that the cache takes are free.\<close>

definition calm :: "nat \<Rightarrow> nat \<Rightarrow> 'a procst_scheme \<Rightarrow> bool" where
  "calm h p s \<longleftrightarrow> c_proc (cpus s h) = Some p \<and> table_free h s \<and> lock_free BcacheLock s \<and>
     (\<forall>l. lock_free (SleepLk l) s)"

lemma calm_cong: "cpus t = cpus s \<Longrightarrow> sie t = sie s \<Longrightarrow> locks t = locks s \<Longrightarrow> calm h p t = calm h p s"
  by (simp add: calm_def table_free_def hart_ok_def lock_free_def)

lemma calm_touch [simp]: "calm h p (touch h s) = calm h p s"
  by (simp add: calm_def)

lemma calm_framed: "framed F \<Longrightarrow> calm h p (F s) = calm h p s"
  by (rule calm_cong) (simp_all add: framed_fields)

lemma calmD:
  assumes "calm h p s"
  shows "c_proc (cpus s h) = Some p" "hart_ok h s" "table_free h s" "lock_free BcacheLock s" "lock_free (SleepLk l) s"
  using assms by (simp_all add: calm_def table_free_def)

definition set_sl :: "nat \<Rightarrow> u32 \<Rightarrow> i32 \<Rightarrow> 'a slst_scheme \<Rightarrow> 'a slst_scheme" where
  "set_sl l k n s = s\<lparr>sleeplocks := (sleeplocks s)(l := (sleeplocks s l)\<lparr>sl_locked := k, sl_pid := n\<rparr>)\<rparr>"

definition wake_all :: "nat \<Rightarrow> channel \<Rightarrow> 'a procst_scheme \<Rightarrow> 'a procst_scheme" where
  "wake_all p ch s = map_procs (\<lambda>i. if i = p then id else woken (Some ch)) s"

lemma slst_hw [simp]:
  "sleeplocks (acquired h l s) = sleeplocks s" "sleeplocks (touch h s) = sleeplocks s"
  "sleeplocks (wake_all p ch s) = sleeplocks s"
  by (simp_all add: acquired_def push_off_def touch_def Let_def wake_all_def map_procs_def)

lemma framed_set_sl: "framed (set_sl l k n)"
  by (simp add: framed_def set_sl_def)

lemma framed_wake_all: "framed (wake_all p ch)"
  by (simp add: framed_def wake_all_def map_procs_def cong: if_cong)

lemma wakeup_wake_all:
  assumes "c_proc (cpus s h) = Some p" and "table_free h s"
  shows "wakeup h (Some ch) s = Ok (wake_all p ch (touch h s))"
proof -
  have "(\<lambda>i. if c_proc (cpus s h) = Some i then id else woken (Some ch)) = (\<lambda>i. if i = p then id else woken (Some ch))"
    using assms(1) by auto
  then show ?thesis using wakeup_map[OF assms(2), of "Some ch"] by (simp add: wake_all_def)
qed

lemma acquired_calm:
  assumes "calm h p s" and "\<forall>q. l \<noteq> PLock q"
  shows "c_proc (cpus (acquired h l s) h) = Some p" "hart_ok h (acquired h l s)" "table_free h (acquired h l s)"
    "touch h (acquired h l s) = acquired h l s"
proof -
  have "0 \<le> noff (cpus s h)" using calmD(2)[OF assms(1)] by (simp add: hart_ok_def)
  then show "c_proc (cpus (acquired h l s) h) = Some p" "hart_ok h (acquired h l s)"
    "touch h (acquired h l s) = acquired h l s"
    using calmD(1)[OF assms(1)] by (simp_all add: hart_ok_def)
  then show "table_free h (acquired h l s)"
    using calmD(3)[OF assms(1)] assms(2) by (auto simp: table_free_def lock_free_def)
qed

lemma holdingsleep_calm:
  assumes "calm h p s"
  shows "holdingsleep h l s =
         Ok (sl_locked (sleeplocks s l) \<noteq> 0 \<and> sl_pid (sleeplocks s l) = pid (procs s p), touch h s)"
  using acquired_calm[OF assms, of "SleepLk l"] calmD[OF assms]
  by (simp add: holdingsleep_def acquire_free myproc_Ok release_acquired)

lemma set_sl_fields [simp]:
  "procs (set_sl l k n s) = procs s" "cpus (set_sl l k n s) = cpus s" "locks (set_sl l k n s) = locks s"
  "sie (set_sl l k n s) = sie s"
  "sleeplocks (set_sl l k n s) = (sleeplocks s)(l := (sleeplocks s l)\<lparr>sl_locked := k, sl_pid := n\<rparr>)"
  by (simp_all add: set_sl_def)

lemma acquiresleep_calm:
  assumes "calm h p s" and "sl_locked (sleeplocks s l) = 0"
  shows "acquiresleep h l s = Ok (set_sl l 1 (pid (procs s p)) (touch h s))"
proof -
  let ?a = "acquired h (SleepLk l) s"
  let ?b = "?a\<lparr>sleeplocks := (sleeplocks ?a)(l := (sleeplocks ?a l)\<lparr>sl_locked := 1\<rparr>)\<rparr>"
  have m: "myproc h ?b = Ok (Some p, ?b)"
    using calmD(1,2)[OF assms(1)] by (subst myproc_Ok) (auto simp: hart_ok_def)
  have e: "?b\<lparr>sleeplocks := (sleeplocks ?b)(l := (sleeplocks ?b l)\<lparr>sl_pid := pid (procs s p)\<rparr>)\<rparr> =
           set_sl l 1 (pid (procs s p)) ?a"
    by (simp add: set_sl_def)
  show ?thesis
    using assms calmD[OF assms(1)] m e release_framed[OF framed_set_sl, of h s "SleepLk l" l 1 "pid (procs s p)"]
    by (simp add: acquiresleep_def completes_def acquiresleep_enter_def acquiresleep_turn_def acquire_free Let_def)
qed

lemma releasesleep_calm:
  assumes "calm h p s"
  shows "releasesleep h l s = Ok (wake_all p (ChSleepLock l) (set_sl l 0 0 (touch h s)))"
proof -
  let ?a = "acquired h (SleepLk l) s"
  let ?b = "set_sl l 0 0 ?a"
  note a = acquired_calm[OF assms, of "SleepLk l"]
  have "table_free h ?b" "c_proc (cpus ?b h) = Some p" "touch h ?b = ?b"
    using a framed_touch[OF framed_set_sl, of l 0 0 h ?a, symmetric] by (simp_all add: table_free_def hart_ok_def lock_free_def)
  then have w: "wakeup h (Some (ChSleepLock l)) ?b = Ok (wake_all p (ChSleepLock l) ?b)"
    using wakeup_wake_all[of ?b h p "ChSleepLock l"] by simp
  have "release h (SleepLk l) (wake_all p (ChSleepLock l) ?b) =
        Ok (wake_all p (ChSleepLock l) (set_sl l 0 0 (touch h s)))"
    using release_framed[OF framed_comp[OF framed_wake_all framed_set_sl] calmD(2)[OF assms] calmD(5)[OF assms]] .
  then show ?thesis
    using w calmD(5)[OF assms]
    by (simp add: releasesleep_def acquire_free Let_def flip: set_sl_def)
qed

section \<open>The list of buffers\<close>

text \<open>\<open>leads f a xs b\<close>: following \<open>f\<close> from \<open>a\<close> visits exactly \<open>xs\<close> and then reaches \<open>b\<close>.\<close>

primrec leads :: "(nat \<Rightarrow> nat) \<Rightarrow> nat \<Rightarrow> nat list \<Rightarrow> nat \<Rightarrow> bool" where
  "leads f a [] b \<longleftrightarrow> f a = b"
| "leads f a (x # xs) b \<longleftrightarrow> f a = x \<and> leads f x xs b"

lemma leads_append: "leads f a (xs @ x # ys) b \<longleftrightarrow> leads f a xs x \<and> leads f x ys b"
  by (induction xs arbitrary: a) auto

lemma leads_snoc: "leads f a (xs @ [x]) b \<longleftrightarrow> leads f a xs x \<and> f x = b"
  by (simp add: leads_append)

lemma leads_cong: "(\<forall>x \<in> set (a # xs). g x = f x) \<Longrightarrow> leads g a xs b = leads f a xs b"
  by (induction xs arbitrary: a) auto

text \<open>Redirecting the last link of a path.\<close>

lemma leads_redirect:
  assumes "leads f a xs b" and "distinct (a # xs)"
  shows "leads (f(last (a # xs) := c)) a xs c"
  using assms
proof (induction xs arbitrary: a)
  case (Cons x xs)
  have "leads (f(last (x # xs) := c)) x xs c" using Cons.prems by (intro Cons.IH) auto
  moreover have "a \<noteq> last (x # xs)" using Cons.prems(2) last_in_set[of "x # xs"] by fastforce
  moreover have "last (a # x # xs) = last (x # xs)" by simp
  ultimately show ?case using Cons.prems by (simp del: last.simps flip: fun_upd_def)
qed simp

lemma leads_last: "leads f a xs b \<Longrightarrow> f (last (a # xs)) = b"
  by (induction xs arbitrary: a) auto

lemma leads_hd: "leads f a xs b \<Longrightarrow> f a = hd (xs @ [b])"
  by (cases xs) auto

text \<open>A walk along the list is a search in the sequence.\<close>

lemma bwalk_leads:
  assumes "leads f a xs NBUF" and "NBUF \<notin> set xs"
  shows "bwalk f P (f a) = Some (find P xs)"
  using assms
proof (induction xs arbitrary: a)
  case Nil
  then show ?case by (simp add: bwalk.simps)
next
  case (Cons x xs)
  then show ?case by (subst bwalk.simps) auto
qed

definition ring :: "nat list \<Rightarrow> (nat \<Rightarrow> buf) \<Rightarrow> bool" where
  "ring bs B \<longleftrightarrow> distinct bs \<and> set bs = {..<NBUF} \<and>
     leads (\<lambda>b. b_next (B b)) NBUF bs NBUF \<and> leads (\<lambda>b. b_prev (B b)) NBUF (rev bs) NBUF"

lemma ringD: "ring bs B \<Longrightarrow> b \<in> set bs \<longleftrightarrow> b < NBUF" "ring bs B \<Longrightarrow> NBUF \<notin> set bs" "ring bs B \<Longrightarrow> distinct bs"
  by (auto simp: ring_def)

lemma ring_cong:
  assumes "\<And>b. b_next (B' b) = b_next (B b)" and "\<And>b. b_prev (B' b) = b_prev (B b)"
  shows "ring bs B' = ring bs B"
  by (simp add: ring_def assms)

lemma ring_walks:
  assumes "ring bs B"
  shows "bwalk (\<lambda>b. b_next (B b)) P (b_next (B NBUF)) = Some (find P bs)"
    and "bwalk (\<lambda>b. b_prev (B b)) P (b_prev (B NBUF)) = Some (find P (rev bs))"
  using assms bwalk_leads[of "\<lambda>b. b_next (B b)" NBUF bs P] bwalk_leads[of "\<lambda>b. b_prev (B b)" NBUF "rev bs" P]
  by (auto simp: ring_def)

text \<open>The pointer updates of the list operations, on the table of buffers.\<close>

definition front :: "nat \<Rightarrow> (nat \<Rightarrow> buf) \<Rightarrow> nat \<Rightarrow> buf" where
  "front b B =
     (let B = B(b := (B b)\<lparr>b_next := b_next (B NBUF)\<rparr>); B = B(b := (B b)\<lparr>b_prev := NBUF\<rparr>);
          B = B(b_next (B NBUF) := (B (b_next (B NBUF)))\<lparr>b_prev := b\<rparr>)
      in B(NBUF := (B NBUF)\<lparr>b_next := b\<rparr>))"

definition unlinked :: "nat \<Rightarrow> (nat \<Rightarrow> buf) \<Rightarrow> nat \<Rightarrow> buf" where
  "unlinked b B =
     (let B = B(b_next (B b) := (B (b_next (B b)))\<lparr>b_prev := b_prev (B b)\<rparr>)
      in B(b_prev (B b) := (B (b_prev (B b)))\<lparr>b_next := b_next (B b)\<rparr>))"

lemma link_front_front: "link_front b s = s\<lparr>bufs := front b (bufs s)\<rparr>"
  by (simp add: link_front_def front_def upd_buf_def Let_def)

lemma unlink_buf_unlinked: "unlink_buf b s = s\<lparr>bufs := unlinked b (bufs s)\<rparr>"
  by (simp add: unlink_buf_def unlinked_def upd_buf_def Let_def)

definition same_key :: "buf \<Rightarrow> buf \<Rightarrow> bool" where
  "same_key x y \<longleftrightarrow> b_valid x = b_valid y \<and> b_dev x = b_dev y \<and> b_blockno x = b_blockno y \<and> b_refcnt x = b_refcnt y \<and>
     b_data x = b_data y"

lemma front_key: "same_key (front b B i) (B i)" "same_key (unlinked b B i) (B i)"
  by (simp_all add: front_def unlinked_def same_key_def Let_def)

definition list_of :: "nat list \<Rightarrow> (nat \<Rightarrow> buf) \<Rightarrow> bool" where
  "list_of bs B \<longleftrightarrow> distinct bs \<and> NBUF \<notin> set bs \<and>
     leads (\<lambda>b. b_next (B b)) NBUF bs NBUF \<and> leads (\<lambda>b. b_prev (B b)) NBUF (rev bs) NBUF"

lemma ring_list_of: "ring bs B \<longleftrightarrow> list_of bs B \<and> set bs = {..<NBUF}"
  by (auto simp: ring_def list_of_def)

lemma front_links:
  assumes "b \<noteq> NBUF"
  shows "(\<lambda>i. b_next (front b B i)) = (\<lambda>i. b_next (B i))(b := b_next (B NBUF), NBUF := b)"
    "(\<lambda>i. b_prev (front b B i)) = (\<lambda>i. b_prev (B i))(b := NBUF, b_next (B NBUF) := b)"
  using assms by (auto simp: front_def Let_def)

lemma last_rev_hd: "last (a # rev xs) = hd (xs @ [a])"
  by (cases xs) auto

lemma list_of_front:
  assumes "list_of bs B" and "b \<notin> set bs" and "b \<noteq> NBUF"
  shows "list_of (b # bs) (front b B)"
proof -
  let ?n = "\<lambda>i. b_next (B i)" and ?p = "\<lambda>i. b_prev (B i)"
  from assms(1) have d: "distinct bs" "NBUF \<notin> set bs" "leads ?n NBUF bs NBUF" "leads ?p NBUF (rev bs) NBUF"
    by (simp_all add: list_of_def)
  have hd: "?n NBUF = hd (bs @ [NBUF])" using leads_hd[OF d(3)] .
  have "leads (?n(b := ?n NBUF, NBUF := b)) b bs NBUF"
  proof (cases bs)
    case (Cons x xs)
    have "leads (?n(b := ?n NBUF, NBUF := b)) x xs NBUF = leads ?n x xs NBUF"
      using d(2) assms(2) Cons by (intro leads_cong) auto
    with d(3) assms(3) Cons show ?thesis by simp
  qed (use assms d in simp)
  then have n: "leads (\<lambda>i. b_next (front b B i)) NBUF (b # bs) NBUF"
    unfolding front_links(1)[OF assms(3)] by simp
  have "leads (?p(hd (bs @ [NBUF]) := b)) NBUF (rev bs) b"
    using leads_redirect[OF d(4), of b] d(1,2) by (simp only: last_rev_hd) simp
  moreover have "leads (?p(b := NBUF, hd (bs @ [NBUF]) := b)) NBUF (rev bs) b =
                 leads (?p(hd (bs @ [NBUF]) := b)) NBUF (rev bs) b"
    using assms by (intro leads_cong) auto
  moreover have "hd (bs @ [NBUF]) \<noteq> b" using assms by (cases bs) auto
  ultimately have "leads (\<lambda>i. b_prev (front b B i)) NBUF (rev (b # bs)) NBUF"
    unfolding front_links(2)[OF assms(3)] hd by (simp add: leads_snoc)
  with n d assms show ?thesis by (simp add: list_of_def)
qed

lemma unlinked_links:
  assumes "b_next (B b) \<noteq> b" and "b_prev (B b) \<noteq> b"
  shows "(\<lambda>i. b_next (unlinked b B i)) = (\<lambda>i. b_next (B i))(b_prev (B b) := b_next (B b))"
    "(\<lambda>i. b_prev (unlinked b B i)) = (\<lambda>i. b_prev (B i))(b_next (B b) := b_prev (B b))"
  using assms by (auto simp: unlinked_def Let_def)

text \<open>Skipping one element of a path.\<close>

lemma leads_skip:
  assumes "leads f a (xs @ b # ys) c" and "distinct (a # xs @ b # ys)"
  shows "leads (f(last (a # xs) := f b)) a (xs @ ys) c"
proof -
  let ?g = "f(last (a # xs) := f b)"
  from assms(1) have l: "leads f a xs b" "leads f b ys c" by (simp_all add: leads_append)
  have r: "leads ?g a xs (f b)" using assms(2) by (intro leads_redirect[OF l(1)]) simp
  show ?thesis
  proof (cases ys)
    case Nil
    with r l(2) show ?thesis by simp
  next
    case (Cons y zs)
    have "last (a # xs) \<in> set (a # xs)" by (rule last_in_set) simp
    then have "leads ?g y zs c = leads f y zs c" using assms(2) Cons by (intro leads_cong) auto
    with r l(2) Cons show ?thesis by (simp add: leads_append)
  qed
qed

lemma list_of_unlinked:
  assumes "list_of (xs @ b # ys) B"
  shows "list_of (xs @ ys) (unlinked b B)"
proof -
  let ?n = "\<lambda>i. b_next (B i)" and ?p = "\<lambda>i. b_prev (B i)"
  from assms have d: "distinct (NBUF # xs @ b # ys)" "distinct (NBUF # rev ys @ b # rev xs)"
    "leads ?n NBUF (xs @ b # ys) NBUF" "leads ?p NBUF (rev ys @ b # rev xs) NBUF"
    by (auto simp: list_of_def)
  have nb: "?n b = hd (ys @ [NBUF])" using d(3) leads_hd[of ?n b ys NBUF] by (simp add: leads_append)
  have pb: "?p b = last (NBUF # xs)"
    using d(4) leads_hd[of ?p b "rev xs" NBUF] last_rev_hd[of NBUF "rev xs"] by (simp add: leads_append)
  have ne: "?n b \<noteq> b" "?p b \<noteq> b"
    using d(1) nb pb last_in_set[of "NBUF # xs"] by (cases ys; auto)+
  have "leads (?n(last (NBUF # xs) := ?n b)) NBUF (xs @ ys) NBUF" using leads_skip[OF d(3,1)] .
  moreover have "leads (?p(last (NBUF # rev ys) := ?p b)) NBUF (rev ys @ rev xs) NBUF" using leads_skip[OF d(4,2)] .
  ultimately show ?thesis
    using d(1) unlinked_links[of B b, OF ne] nb pb by (simp add: list_of_def last_rev_hd del: last.simps)
qed

lemma ring_to_front:
  assumes "ring bs B" and "b < NBUF"
  shows "ring (b # remove1 b bs) (front b (unlinked b B))"
proof -
  from assms have "b \<in> set bs" by (simp add: ringD)
  then obtain xs ys where bs: "bs = xs @ b # ys" "b \<notin> set xs" by (meson split_list_first)
  with ringD(3)[OF assms(1)] have r: "remove1 b bs = xs @ ys" and n: "b \<notin> set (xs @ ys)"
    by (auto simp: remove1_append)
  have "list_of (xs @ ys) (unlinked b B)" using assms(1) bs by (intro list_of_unlinked) (simp add: ring_list_of)
  then have "list_of (b # xs @ ys) (front b (unlinked b B))" using n assms(2) by (intro list_of_front) simp_all
  moreover have "set (b # xs @ ys) = {..<NBUF}" using assms(1) bs by (auto simp: ring_def)
  ultimately show ?thesis by (simp add: ring_list_of r)
qed

section \<open>The operations as equations\<close>

lemma biost_hw [simp]:
  "bufs (acquired h l s) = bufs s" "bufs (touch h s) = bufs s" "bufs (wake_all p ch s) = bufs s"
  "bufs (set_sl i k n s) = bufs s" "disk (acquired h l s) = disk s" "disk (touch h s) = disk s"
  "disk (wake_all p ch s) = disk s" "disk (set_sl i k n s) = disk s" "dtrace (acquired h l s) = dtrace s"
  "dtrace (touch h s) = dtrace s" "dtrace (wake_all p ch s) = dtrace s" "dtrace (set_sl i k n s) = dtrace s"
  "biost.more (acquired h l s) = biost.more s" "biost.more (touch h s) = biost.more s"
  "biost.more (wake_all p ch s) = biost.more s" "biost.more (set_sl i k n s) = biost.more s"
  by (simp_all add: acquired_def push_off_def touch_def Let_def wake_all_def map_procs_def set_sl_def)

definition set_bufs :: "((nat \<Rightarrow> buf) \<Rightarrow> nat \<Rightarrow> buf) \<Rightarrow> 'a biost_scheme \<Rightarrow> 'a biost_scheme" where
  "set_bufs f s = s\<lparr>bufs := f (bufs s)\<rparr>"

lemma framed_set_bufs: "framed (set_bufs f)"
  by (simp add: framed_def set_bufs_def)

lemma upd_buf_set_bufs: "upd_buf b f s = set_bufs (\<lambda>B. B(b := f (B b))) s"
  by (simp add: upd_buf_def set_bufs_def)

lemma set_bufs_fields [simp]:
  "bufs (set_bufs f s) = f (bufs s)" "disk (set_bufs f s) = disk s" "dtrace (set_bufs f s) = dtrace s"
  "procs (set_bufs f s) = procs s" "sleeplocks (set_bufs f s) = sleeplocks s" "cpus (set_bufs f s) = cpus s"
  "locks (set_bufs f s) = locks s" "sie (set_bufs f s) = sie s" "biost.more (set_bufs f s) = biost.more s"
  by (simp_all add: set_bufs_def)

text \<open>The buffer that \<^const>\<open>bget\<close> takes, and the table after it: the cached one, or the unused one that was used
  longest ago.\<close>

definition hit :: "u32 \<Rightarrow> u32 \<Rightarrow> (nat \<Rightarrow> buf) \<Rightarrow> nat \<Rightarrow> bool" where
  "hit dev bno B b \<longleftrightarrow> b_dev (B b) = dev \<and> b_blockno (B b) = bno"

definition pick_buf :: "u32 \<Rightarrow> u32 \<Rightarrow> nat list \<Rightarrow> (nat \<Rightarrow> buf) \<Rightarrow> nat option" where
  "pick_buf dev bno bs B =
     (case find (hit dev bno B) bs of
        Some b \<Rightarrow> Some b
      | None \<Rightarrow> find (\<lambda>b. b_refcnt (B b) = 0) (rev bs))"

definition grab :: "u32 \<Rightarrow> u32 \<Rightarrow> nat \<Rightarrow> (nat \<Rightarrow> buf) \<Rightarrow> nat \<Rightarrow> buf" where
  "grab dev bno b B =
     B(b := if hit dev bno B b then (B b)\<lparr>b_refcnt := b_refcnt (B b) + 1\<rparr>
            else (B b)\<lparr>b_dev := dev, b_blockno := bno, b_valid := False, b_refcnt := 1\<rparr>)"

lemma find_SomeD: "find P xs = Some x \<Longrightarrow> P x" "find P xs = Some x \<Longrightarrow> x \<in> set xs"
  by (auto simp: find_Some_iff)

lemma bget_calm:
  assumes c: "calm h p s" and r: "ring bs (bufs s)" and b: "pick_buf dev bno bs (bufs s) = Some b"
    and u: "sl_locked (sleeplocks s b) = 0"
  shows "bget h dev bno s = Ok (b, set_sl b 1 (pid (procs s p)) (set_bufs (grab dev bno b) (touch h s)))"
proof -
  let ?B = "bufs s"
  let ?P = "\<lambda>b. b_dev (?B b) = dev \<and> b_blockno (?B b) = bno"
  have P: "?P = hit dev bno ?B" by (simp add: hit_def fun_eq_iff)
  have rel: "release h BcacheLock (set_bufs f (acquired h BcacheLock s)) = Ok (set_bufs f (touch h s))" for f
    using release_framed[OF framed_set_bufs calmD(2,4)[OF c]] .
  have sl: "acquiresleep h b (set_bufs f (touch h s)) = Ok (set_sl b 1 (pid (procs s p)) (set_bufs f (touch h s)))" for f
    using acquiresleep_calm[of h p "set_bufs f (touch h s)" b] c u
    by (simp add: calm_framed[OF framed_set_bufs] framed_touch[OF framed_set_bufs, symmetric])
  have a: "acquire h BcacheLock s = Ok (acquired h BcacheLock s)" using calmD(4)[OF c] by (rule acquire_free)
  show ?thesis
  proof (cases "find (hit dev bno ?B) bs")
    case (Some b')
    then have "b' = b" using b by (simp add: pick_buf_def)
    with Some have b': "b' = b" "hit dev bno ?B b" using find_SomeD by fastforce+
    then have g: "set_bufs (grab dev bno b) t = upd_buf b (\<lambda>x. x\<lparr>b_refcnt := b_refcnt x + 1\<rparr>) t"
      if "bufs t = ?B" for t :: "'a biost_scheme"
      using that by (simp add: grab_def upd_buf_def set_bufs_def)
    show ?thesis
      using rel sl Some b'(1) by (simp add: bget_def a ring_walks[OF r] P flip: g)
  next
    case None
    with b have f: "find (\<lambda>b. b_refcnt (?B b) = 0) (rev bs) = Some b" by (simp add: pick_buf_def)
    then have "b \<in> set bs" using find_SomeD(2)[OF f] by simp
    with None have "\<not> hit dev bno ?B b" by (auto simp: find_None_iff)
    then have g: "set_bufs (grab dev bno b) t =
        upd_buf b (\<lambda>x. x\<lparr>b_dev := dev, b_blockno := bno, b_valid := False, b_refcnt := 1\<rparr>) t"
      if "bufs t = ?B" for t :: "'a biost_scheme"
      using that by (simp add: grab_def upd_buf_def set_bufs_def)
    show ?thesis
      using rel sl None f by (simp add: bget_def a ring_walks[OF r] P flip: g)
  qed
qed

text \<open>What \<^const>\<open>bread\<close> leaves in the buffer.\<close>

definition fetched :: "u32 \<Rightarrow> u32 \<Rightarrow> nat \<Rightarrow> (u32 \<Rightarrow> block) \<Rightarrow> (nat \<Rightarrow> buf) \<Rightarrow> nat \<Rightarrow> buf" where
  "fetched dev bno b d B =
     (let B = grab dev bno b B
      in if b_valid (B b) then B else B(b := (B b)\<lparr>b_data := d (b_blockno (B b)), b_valid := True\<rparr>))"

lemma bread_calm:
  assumes "calm h p s" and "ring bs (bufs s)" and "pick_buf dev bno bs (bufs s) = Some b"
    and "sl_locked (sleeplocks s b) = 0"
  shows "bread h dev bno s =
         Ok (b, set_bufs (fetched dev bno b (disk s)) (set_sl b 1 (pid (procs s p)) (touch h s)))"
  unfolding bread_def bget_calm[OF assms]
  by (simp add: fetched_def disk_rw_def upd_buf_def set_bufs_def set_sl_def Let_def touch_def)

lemma bwrite_calm:
  assumes "calm h p s" and "sl_locked (sleeplocks s b) \<noteq> 0" and "sl_pid (sleeplocks s b) = pid (procs s p)"
  shows "bwrite h b s = Ok (disk_rw b True (touch h s))"
  using assms by (simp add: bwrite_def holdingsleep_calm[OF assms(1)])

definition let_go :: "nat \<Rightarrow> (nat \<Rightarrow> buf) \<Rightarrow> nat \<Rightarrow> buf" where
  "let_go b B =
     (let B = B(b := (B b)\<lparr>b_refcnt := b_refcnt (B b) - 1\<rparr>)
      in if b_refcnt (B b) = 0 then front b (unlinked b B) else B)"

lemma brelse_calm:
  assumes c: "calm h p s" and "sl_locked (sleeplocks s b) \<noteq> 0" and "sl_pid (sleeplocks s b) = pid (procs s p)"
  shows "brelse h b s =
         Ok (set_bufs (let_go b) (wake_all p (ChSleepLock b) (set_sl b 0 0 (touch h s))))"
proof -
  let ?t = "wake_all p (ChSleepLock b) (set_sl b 0 0 (touch h s))"
  have fr: "framed (\<lambda>s :: 'a biost_scheme. wake_all p (ChSleepLock b) (set_sl b 0 0 s))"
    by (rule framed_comp[OF framed_wake_all framed_set_sl])
  have ct: "calm h p ?t" "touch h ?t = ?t"
    using c calm_framed[OF fr, of h p "touch h s"] framed_touch[OF fr, of h "touch h s", symmetric] by simp_all
  have g: "(let s = upd_buf b (\<lambda>x. x\<lparr>b_refcnt := b_refcnt x - 1\<rparr>) u;
                s = (if b_refcnt (bufs s b) = 0 then link_front b (unlink_buf b s) else s)
            in release h BcacheLock s) = release h BcacheLock (set_bufs (let_go b) u)"
    for u :: "'a biost_scheme"
  proof -
    have "(let s = upd_buf b (\<lambda>x. x\<lparr>b_refcnt := b_refcnt x - 1\<rparr>) u
           in if b_refcnt (bufs s b) = 0 then link_front b (unlink_buf b s) else s) = set_bufs (let_go b) u"
      by (simp add: let_go_def set_bufs_def upd_buf_def link_front_front unlink_buf_unlinked Let_def)
    then show ?thesis by (simp only: Let_def)
  qed
  have rel: "release h BcacheLock (set_bufs (let_go b) (acquired h BcacheLock ?t)) = Ok (set_bufs (let_go b) ?t)"
    using release_framed[OF framed_set_bufs calmD(2,4)[OF ct(1)]] ct(2) by simp
  have rs: "releasesleep h b (touch h s) = Ok ?t" using releasesleep_calm[of h p "touch h s" b] c by simp
  show ?thesis
    unfolding brelse_def holdingsleep_calm[OF c] g
    using assms by (simp add: rs acquire_free[OF calmD(4)[OF ct(1)]] rel)
qed

lemma bpin_calm:
  assumes "calm h p s"
  shows "bpin h b s = Ok (set_bufs (\<lambda>B. B(b := (B b)\<lparr>b_refcnt := b_refcnt (B b) + 1\<rparr>)) (touch h s))"
    and "bunpin h b s = Ok (set_bufs (\<lambda>B. B(b := (B b)\<lparr>b_refcnt := b_refcnt (B b) - 1\<rparr>)) (touch h s))"
  using release_framed[OF framed_set_bufs calmD(2,4)[OF assms]] calmD(4)[OF assms]
  by (simp_all add: bpin_def bunpin_def acquire_free upd_buf_set_bufs)

end
