(* ===== verification/Bio_Spec.thy ===== *)
theory Bio_Spec
  imports Bio_Laws
begin

text \<open>
  The contract of the buffer cache. Its abstract state is, for each block of one device, the number of references
  \<open>R\<close>, the set \<open>L\<close> of blocks held locked by the running process, the contents \<open>V\<close> that readers see, and the
  disk. The relation \<open>cache\<close> ties the linked list, the buffers and the sleep locks to it, and each operation of
  \<^verbatim>\<open>bio.c\<close> is shown to return and to do what its contract says.
\<close>

section \<open>The relation\<close>

definition holds_at :: "u32 \<Rightarrow> (nat \<Rightarrow> buf) \<Rightarrow> nat \<Rightarrow> u32 \<Rightarrow> bool" where
  "holds_at D B b n \<longleftrightarrow> b < NBUF \<and> b_dev (B b) = D \<and> b_blockno (B b) = n"

definition table_ok :: "u32 \<Rightarrow> (u32 \<Rightarrow> nat) \<Rightarrow> (u32 \<Rightarrow> block) \<Rightarrow> (u32 \<Rightarrow> block) \<Rightarrow> (nat \<Rightarrow> buf) \<Rightarrow> bool" where
  "table_ok D R V d B \<longleftrightarrow>
     (\<forall>a b n. holds_at D B a n \<and> holds_at D B b n \<longrightarrow> a = b) \<and>
     (\<forall>b<NBUF. b_dev (B b) \<noteq> D \<longrightarrow> b_refcnt (B b) = 0) \<and>
     (\<forall>b n. holds_at D B b n \<longrightarrow> b_valid (B b) \<and> unat (b_refcnt (B b)) = R n \<and> b_data (B b) = V n) \<and>
     (\<forall>n. 0 < R n \<longrightarrow> (\<exists>b. holds_at D B b n)) \<and>
     (\<forall>n. R n = 0 \<longrightarrow> V n = d n)"

definition cache ::
  "u32 \<Rightarrow> nat \<Rightarrow> nat \<Rightarrow> (u32 \<Rightarrow> nat) \<Rightarrow> u32 set \<Rightarrow> (u32 \<Rightarrow> block) \<Rightarrow> 'a biost_scheme \<Rightarrow> bool" where
  "cache D h p R L V s \<longleftrightarrow> calm h p s \<and> (\<exists>bs. ring bs (bufs s)) \<and> table_ok D R V (disk s) (bufs s) \<and>
     (\<forall>n\<in>L. 0 < R n) \<and>
     (\<forall>b<NBUF. sl_locked (sleeplocks s b) \<noteq> 0 \<longleftrightarrow> (\<exists>n\<in>L. holds_at D (bufs s) b n)) \<and>
     (\<forall>b<NBUF. sl_locked (sleeplocks s b) \<noteq> 0 \<longrightarrow> sl_pid (sleeplocks s b) = pid (procs s p))"

lemma table_okD:
  assumes "table_ok D R V d B"
  shows "holds_at D B a n \<Longrightarrow> holds_at D B b n \<Longrightarrow> a = b"
    and "b < NBUF \<Longrightarrow> b_dev (B b) \<noteq> D \<Longrightarrow> b_refcnt (B b) = 0"
    and "holds_at D B b n \<Longrightarrow> b_valid (B b)" "holds_at D B b n \<Longrightarrow> unat (b_refcnt (B b)) = R n"
    and "holds_at D B b n \<Longrightarrow> b_data (B b) = V n"
    and "0 < R n \<Longrightarrow> \<exists>b. holds_at D B b n" and "R n = 0 \<Longrightarrow> V n = d n"
  using assms unfolding table_ok_def by blast+

text \<open>What an operation of the cache leaves alone.\<close>

definition beside :: "'a biost_scheme \<Rightarrow> 'a biost_scheme \<Rightarrow> bool" where
  "beside s s' \<longleftrightarrow> locks s' = locks s \<and> panicking s' = panicking s \<and> panicked s' = panicked s \<and>
     biost.more s' = biost.more s"

lemma beside_refl: "beside s s" and beside_trans: "beside s t \<Longrightarrow> beside t u \<Longrightarrow> beside s u"
  by (simp_all add: beside_def)

section \<open>Finding a buffer\<close>

definition room :: "(u32 \<Rightarrow> nat) \<Rightarrow> u32 \<Rightarrow> bool" where
  "room R n \<longleftrightarrow> 0 < R n \<or> card {m. 0 < R m} < NBUF"

lemma unused_buffer:
  assumes t: "table_ok D R V d B" and c: "card {m. 0 < R m} < NBUF"
  shows "\<exists>b<NBUF. b_refcnt (B b) = 0"
proof (rule ccontr)
  assume "\<not> ?thesis"
  then have at: "holds_at D B b (b_blockno (B b))" "b_refcnt (B b) \<noteq> 0" if "b < NBUF" for b
    using that table_okD(2)[OF t, of b] by (auto simp: holds_at_def)
  have "inj_on (\<lambda>b. b_blockno (B b)) {..<NBUF}"
    using at(1) table_okD(1)[OF t] by (auto intro!: inj_onI) metis
  moreover have "(\<lambda>b. b_blockno (B b)) ` {..<NBUF} \<subseteq> {m. 0 < R m}"
  proof clarsimp
    fix b assume "b < NBUF"
    with at have "unat (b_refcnt (B b)) = R (b_blockno (B b))" "b_refcnt (B b) \<noteq> 0" using table_okD(4)[OF t] by blast+
    then show "0 < R (b_blockno (B b))" by (metis gr0I unat_eq_zero)
  qed
  ultimately have "card {..<NBUF} \<le> card {m. 0 < R m}" by (intro card_inj_on_le) auto
  with c show False by simp
qed

lemma pick_buf_room:
  assumes t: "table_ok D R V d B" and r: "ring bs B" and "room R n"
  obtains b where "pick_buf D n bs B = Some b" "b < NBUF" "holds_at D B b n \<or> (b_refcnt (B b) = 0 \<and> (\<forall>a. \<not> holds_at D B a n))"
proof (cases "find (hit D n B) bs")
  case (Some b)
  then have "hit D n B b" "b \<in> set bs" by (auto dest: find_SomeD)
  with ringD(1)[OF r] have "holds_at D B b n" "b < NBUF" by (simp_all add: holds_at_def hit_def)
  with Some show ?thesis by (intro that[of b]) (simp_all add: pick_buf_def)
next
  case None
  then have no: "\<not> holds_at D B a n" for a
    using ringD(1)[OF r, of a] by (auto simp: find_None_iff holds_at_def hit_def)
  then have "R n = 0" using table_okD(6)[OF t, of n] by auto
  with assms(3) unused_buffer[OF t] obtain b0 where "b0 < NBUF" "b_refcnt (B b0) = 0" by (auto simp: room_def)
  then have "find (\<lambda>b. b_refcnt (B b) = 0) (rev bs) \<noteq> None"
    using ringD(1)[OF r] by (auto simp: find_None_iff)
  then obtain b where b: "find (\<lambda>b. b_refcnt (B b) = 0) (rev bs) = Some b" by auto
  then have "b_refcnt (B b) = 0" "b \<in> set (rev bs)" by (auto dest: find_SomeD)
  with None b no ringD(1)[OF r] show ?thesis by (intro that[of b]) (simp_all add: pick_buf_def)
qed

text \<open>With every buffer in use and the block not among them there is none.\<close>

lemma pick_buf_none:
  assumes t: "table_ok D R V d B" and r: "ring bs B" and "R n = 0" and "\<forall>b<NBUF. b_refcnt (B b) \<noteq> 0"
  shows "pick_buf D n bs B = None"
proof -
  have "\<not> hit D n B b" if "b \<in> set bs" for b
  proof
    assume "hit D n B b"
    then have "holds_at D B b n" using that ringD(1)[OF r] by (simp add: holds_at_def hit_def)
    from table_okD(4)[OF t this] assms(3,4) this show False by (auto simp: holds_at_def unat_eq_zero)
  qed
  then have "find (hit D n B) bs = None" by (auto simp: find_None_iff)
  moreover have "find (\<lambda>b. b_refcnt (B b) = 0) (rev bs) = None"
    using assms(4) ringD(1)[OF r] by (auto simp: find_None_iff)
  ultimately show ?thesis by (simp add: pick_buf_def)
qed

section \<open>Reading\<close>

lemma fetched_other: "a \<noteq> b \<Longrightarrow> fetched D n b d B a = B a"
  by (simp add: fetched_def grab_def Let_def)

lemma fetched_links:
  "b_next (fetched D n b d B a) = b_next (B a)" "b_prev (fetched D n b d B a) = b_prev (B a)"
  by (simp_all add: fetched_def grab_def Let_def)

lemma fetched_this:
  assumes t: "table_ok D R V d B" and "b < NBUF"
    and "holds_at D B b n \<or> (b_refcnt (B b) = 0 \<and> (\<forall>a. \<not> holds_at D B a n))" and "Suc (R n) < 2 ^ 32"
  shows "holds_at D (fetched D n b d B) b n" "b_valid (fetched D n b d B b)" "b_data (fetched D n b d B b) = V n"
    "unat (b_refcnt (fetched D n b d B b)) = Suc (R n)"
proof -
  have *: "holds_at D (fetched D n b d B) b n \<and> b_valid (fetched D n b d B b) \<and> b_data (fetched D n b d B b) = V n \<and>
    unat (b_refcnt (fetched D n b d B b)) = Suc (R n)"
  proof (cases "holds_at D B b n")
    case True
    then have "hit D n B b" "b_valid (B b)" "unat (b_refcnt (B b)) = R n" "b_data (B b) = V n"
      using table_okD(3-5)[OF t, of b n] by (auto simp: hit_def holds_at_def)
    moreover from this assms(4) have "unat (b_refcnt (B b) + 1) = Suc (R n)"
      by (simp add: unat_word_ariths)
    ultimately show ?thesis using True by (simp add: fetched_def grab_def holds_at_def hit_def)
  next
    case False
    with assms have "\<not> hit D n B b" "R n = 0" using table_okD(6)[OF t, of n] by (auto simp: hit_def holds_at_def)
    then show ?thesis using assms(2) table_okD(7)[OF t, of n] by (simp add: fetched_def grab_def holds_at_def Let_def)
  qed
  then show "holds_at D (fetched D n b d B) b n" "b_valid (fetched D n b d B b)" "b_data (fetched D n b d B b) = V n"
    "unat (b_refcnt (fetched D n b d B b)) = Suc (R n)" by auto
qed

lemma fetched_table:
  assumes t: "table_ok D R V d B" and "b < NBUF"
    and b: "holds_at D B b n \<or> (b_refcnt (B b) = 0 \<and> (\<forall>a. \<not> holds_at D B a n))" and "Suc (R n) < 2 ^ 32"
  shows "table_ok D (R(n := Suc (R n))) V d (fetched D n b d B)"
    and "0 < R m \<Longrightarrow> holds_at D B a m \<Longrightarrow> holds_at D (fetched D n b d B) a m"
proof -
  let ?B = "fetched D n b d B"
  note this' = fetched_this[OF assms]
  have old: "a \<noteq> b \<Longrightarrow> holds_at D ?B a m = holds_at D B a m" for a m by (simp add: holds_at_def fetched_other)
  have at_b: "holds_at D ?B b m \<Longrightarrow> m = n" for m using this'(1) by (simp add: holds_at_def)
  have at_n: "holds_at D ?B a n \<Longrightarrow> a = b" for a using b old table_okD(1)[OF t] by metis
  have keep: "holds_at D ?B a m" if "0 < R m" "holds_at D B a m" for a m
  proof (cases "a = b")
    case True
    with that b table_okD(4)[OF t, of b m] have "m = n" by (auto simp: holds_at_def)
    with True this'(1) show ?thesis by simp
  qed (use that old in simp)
  then show "0 < R m \<Longrightarrow> holds_at D B a m \<Longrightarrow> holds_at D ?B a m" .
  have "\<forall>m. 0 < (R(n := Suc (R n))) m \<longrightarrow> (\<exists>a. holds_at D ?B a m)"
    using keep this'(1) table_okD(6)[OF t] by (metis fun_upd_apply)
  moreover have "\<forall>m. (R(n := Suc (R n))) m = 0 \<longrightarrow> V m = d m" using table_okD(7)[OF t] by auto
  moreover have "a = a'" if "holds_at D ?B a m" "holds_at D ?B a' m" for a a' m
    using that at_b at_n old table_okD(1)[OF t] by metis
  moreover have "b_refcnt (?B a) = 0" if "a < NBUF" "b_dev (?B a) \<noteq> D" for a
    using that this'(1) table_okD(2)[OF t, of a] by (cases "a = b") (auto simp: holds_at_def fetched_other)
  moreover have "b_valid (?B a) \<and> unat (b_refcnt (?B a)) = (R(n := Suc (R n))) m \<and> b_data (?B a) = V m"
    if "holds_at D ?B a m" for a m
  proof (cases "a = b")
    case True
    with that at_b this' show ?thesis by auto
  next
    case False
    with that at_n have "holds_at D B a m" "m \<noteq> n" using old by auto
    then show ?thesis using table_okD(3-5)[OF t, of a m] False by (simp add: fetched_other)
  qed
  ultimately show "table_ok D (R(n := Suc (R n))) V d ?B" unfolding table_ok_def by blast
qed

lemma cacheD:
  assumes "cache D h p R L V s"
  shows "calm h p s" "table_ok D R V (disk s) (bufs s)" "n \<in> L \<Longrightarrow> 0 < R n"
    "b < NBUF \<Longrightarrow> sl_locked (sleeplocks s b) \<noteq> 0 \<longleftrightarrow> (\<exists>n\<in>L. holds_at D (bufs s) b n)"
    "b < NBUF \<Longrightarrow> sl_locked (sleeplocks s b) \<noteq> 0 \<Longrightarrow> sl_pid (sleeplocks s b) = pid (procs s p)"
  using assms by (auto simp: cache_def)

lemma cacheI:
  assumes "calm h p s" and "ring bs (bufs s)" and "table_ok D R V (disk s) (bufs s)"
    and "\<And>n. n \<in> L \<Longrightarrow> 0 < R n"
    and "\<And>b. b < NBUF \<Longrightarrow> sl_locked (sleeplocks s b) \<noteq> 0 \<longleftrightarrow> (\<exists>n\<in>L. holds_at D (bufs s) b n)"
    and "\<And>b. b < NBUF \<Longrightarrow> sl_locked (sleeplocks s b) \<noteq> 0 \<Longrightarrow> sl_pid (sleeplocks s b) = pid (procs s p)"
  shows "cache D h p R L V s"
  using assms unfolding cache_def by blast

lemma outst_hw [simp]:
  "panicking (touch h s) = panicking s" "panicked (touch h s) = panicked s"
  "panicking (wake_all p ch s) = panicking s" "panicked (wake_all p ch s) = panicked s"
  by (simp_all add: touch_def wake_all_def map_procs_def)

lemma beside_steps:
  "beside s (touch h s)" "beside s (set_bufs f s)" "beside s (set_sl l k n s)" "beside s (wake_all p ch s)"
  "beside s (disk_rw b True s)"
  by (simp_all add: beside_def set_bufs_def set_sl_def wake_all_def map_procs_def disk_rw_def)

lemma bread_spec:
  assumes c: "cache D h p R L V s" and n: "n \<notin> L" and "room R n" and big: "Suc (R n) < 2 ^ 32"
  obtains b s' where "bread h D n s = Ok (b, s')" "cache D h p (R(n := Suc (R n))) (insert n L) V s'"
    "holds_at D (bufs s') b n" "disk s' = disk s" "dtrace s' = dtrace s" "beside s s'"
    "\<And>m a. 0 < R m \<Longrightarrow> holds_at D (bufs s) a m \<Longrightarrow> holds_at D (bufs s') a m"
proof -
  note t = cacheD(2)[OF c]
  obtain bs where r: "ring bs (bufs s)" using c by (auto simp: cache_def)
  obtain b where b: "pick_buf D n bs (bufs s) = Some b" "b < NBUF"
    "holds_at D (bufs s) b n \<or> (b_refcnt (bufs s b) = 0 \<and> (\<forall>a. \<not> holds_at D (bufs s) a n))"
    using pick_buf_room[OF t r \<open>room R n\<close>] by blast
  have free: "sl_locked (sleeplocks s b) = 0"
  proof (rule ccontr)
    assume "sl_locked (sleeplocks s b) \<noteq> 0"
    then obtain m where m: "m \<in> L" "holds_at D (bufs s) b m" using cacheD(4)[OF c b(2)] by blast
    then have "0 < R m" "unat (b_refcnt (bufs s b)) = R m" using cacheD(3)[OF c] table_okD(4)[OF t] by blast+
    with b(3) m n show False by (auto simp: holds_at_def)
  qed
  let ?B = "fetched D n b (disk s) (bufs s)"
  let ?s = "set_bufs (fetched D n b (disk s)) (set_sl b 1 (pid (procs s p)) (touch h s))"
  have eq: "bread h D n s = Ok (b, ?s)" by (rule bread_calm[OF cacheD(1)[OF c] r b(1) free])
  note B = fetched_table[OF t b(2,3) big] and here = fetched_this(1)[OF t b(2,3) big]
  have ring: "ring bs (bufs ?s)" using r ring_cong[of ?B "bufs s" bs] by (simp add: fetched_links)
  have at_n: "holds_at D ?B a n \<Longrightarrow> a = b" for a using table_okD(1)[OF B(1)] here by blast
  have lk: "sl_locked (sleeplocks ?s a) \<noteq> 0 \<longleftrightarrow> (\<exists>m\<in>insert n L. holds_at D (bufs ?s) a m)" if "a < NBUF" for a
  proof (cases "a = b")
    case False
    then have "holds_at D ?B a m = holds_at D (bufs s) a m" for m by (simp add: holds_at_def fetched_other)
    with False at_n cacheD(4)[OF c that] show ?thesis by auto
  qed (use here in auto)
  have pd: "sl_pid (sleeplocks ?s a) = pid (procs ?s p)" if "a < NBUF" "sl_locked (sleeplocks ?s a) \<noteq> 0" for a
    using that cacheD(5)[OF c, of a] by (cases "a = b") simp_all
  have "calm h p ?s"
    using cacheD(1)[OF c] by (simp add: calm_framed[OF framed_set_bufs] calm_framed[OF framed_set_sl])
  then have "cache D h p (R(n := Suc (R n))) (insert n L) V ?s"
    by (rule cacheI[OF _ ring _ _ lk pd]) (use B(1) cacheD(3)[OF c] in auto)
  moreover have "beside s ?s"
    using beside_steps(1)[of s h] by (simp add: beside_def set_bufs_def set_sl_def)
  ultimately show ?thesis using eq here B(2) by (intro that[of b ?s]) simp_all
qed

text \<open>The only buffer of a block that the process holds.\<close>

lemma held_buffer:
  assumes c: "cache D h p R L V s" and "n \<in> L" and at: "holds_at D (bufs s) b n"
  shows "b < NBUF" "sl_locked (sleeplocks s b) \<noteq> 0" "sl_pid (sleeplocks s b) = pid (procs s p)"
    "b_data (bufs s b) = V n" "b_blockno (bufs s b) = n" "unat (b_refcnt (bufs s b)) = R n" "0 < R n"
proof -
  show b: "b < NBUF" "b_blockno (bufs s b) = n" using at by (simp_all add: holds_at_def)
  show l: "sl_locked (sleeplocks s b) \<noteq> 0" using cacheD(4)[OF c b(1)] assms(2) at by blast
  show "sl_pid (sleeplocks s b) = pid (procs s p)" using cacheD(5)[OF c b(1) l] .
  show "b_data (bufs s b) = V n" "unat (b_refcnt (bufs s b)) = R n" "0 < R n"
    using table_okD(4,5)[OF cacheD(2)[OF c] at] cacheD(3)[OF c assms(2)] by simp_all
qed

section \<open>Changing and writing\<close>

lemma cache_set_data:
  assumes c: "cache D h p R L V s" and "n \<in> L" and at: "holds_at D (bufs s) b n"
  shows "cache D h p R L (V(n := x)) (upd_buf b (\<lambda>y. y\<lparr>b_data := x\<rparr>) s)"
    and "holds_at D (bufs (upd_buf b (\<lambda>y. y\<lparr>b_data := x\<rparr>) s)) a m = holds_at D (bufs s) a m"
    and "beside s (upd_buf b (\<lambda>y. y\<lparr>b_data := x\<rparr>) s)"
proof -
  let ?s = "upd_buf b (\<lambda>y. y\<lparr>b_data := x\<rparr>) s"
  note t = cacheD(2)[OF c]
  show at': "holds_at D (bufs ?s) a m = holds_at D (bufs s) a m" for a m by (simp add: holds_at_def upd_buf_def)
  have "table_ok D R (V(n := x)) (disk ?s) (bufs ?s)"
    unfolding table_ok_def at'
    using table_okD[OF t] at held_buffer(7)[OF assms]
    by (auto simp: upd_buf_def holds_at_def)
  moreover have "\<exists>bs. ring bs (bufs ?s)"
    using c ring_cong[of "bufs ?s" "bufs s"] by (auto simp: cache_def upd_buf_def)
  moreover have "calm h p ?s" using cacheD(1)[OF c] by (simp add: upd_buf_set_bufs calm_framed[OF framed_set_bufs])
  ultimately show "cache D h p R L (V(n := x)) ?s"
    using c at' by (simp add: cache_def upd_buf_def)
  show "beside s ?s" by (simp add: beside_def upd_buf_def)
qed

lemma bwrite_spec:
  assumes c: "cache D h p R L V s" and "n \<in> L" and at: "holds_at D (bufs s) b n"
  obtains s' where "bwrite h b s = Ok s'" "cache D h p R L V s'" "bufs s' = bufs s" "disk s' = (disk s)(n := V n)"
    "dtrace s' = dtrace s @ [(n, V n)]" "beside s s'"
proof -
  note hb = held_buffer[OF assms] and t = cacheD(2)[OF c]
  let ?s = "disk_rw b True (touch h s)"
  have "bwrite h b s = Ok ?s" by (rule bwrite_calm[OF cacheD(1)[OF c] hb(2,3)])
  moreover have f: "bufs ?s = bufs s" "disk ?s = (disk s)(n := V n)" "dtrace ?s = dtrace s @ [(n, V n)]"
    "sleeplocks ?s = sleeplocks s" "procs ?s = procs s"
    using hb(4,5) by (simp_all add: disk_rw_def)
  moreover have "table_ok D R V (disk ?s) (bufs ?s)"
    unfolding table_ok_def f(1,2) using table_okD[OF t] hb(7) by auto
  moreover have "calm h p ?s"
    using cacheD(1)[OF c] calm_cong[of ?s "touch h s" h p] by (simp add: disk_rw_def)
  moreover have "beside s ?s" using beside_steps(1)[of s h] by (simp add: beside_def disk_rw_def)
  ultimately show ?thesis using c by (intro that[of ?s]) (simp_all add: cache_def)
qed

section \<open>Letting go\<close>

text \<open>Lowering the reference count of the buffer of block \<open>n\<close>, which may move the buffer on the list.\<close>

definition lowered :: "nat \<Rightarrow> (nat \<Rightarrow> buf) \<Rightarrow> (nat \<Rightarrow> buf) \<Rightarrow> bool" where
  "lowered b B B' \<longleftrightarrow> (\<forall>a. same_key (B' a) (if a = b then (B b)\<lparr>b_refcnt := b_refcnt (B b) - 1\<rparr> else B a))"

lemma lowered_let_go: "lowered b B (let_go b B)"
proof -
  let ?B = "B(b := (B b)\<lparr>b_refcnt := b_refcnt (B b) - 1\<rparr>)"
  have "same_key (front b (unlinked b ?B) a) (?B a)" for a
    using front_key(1)[of b "unlinked b ?B" a] front_key(2)[of b ?B a] by (simp add: same_key_def)
  moreover have "same_key (?B a) (?B a)" for a by (simp add: same_key_def)
  ultimately show ?thesis by (simp add: lowered_def let_go_def Let_def flip: fun_upd_apply)
qed

lemma lowered_table:
  assumes t: "table_ok D R V d B" and at: "holds_at D B b n" and "0 < R n" and "R n = 1 \<longrightarrow> V n = d n"
    and l: "lowered b B B'"
  shows "table_ok D (R(n := R n - 1)) V d B'" and "holds_at D B' a m = holds_at D B a m"
proof -
  from l have k: "b_dev (B' a) = b_dev (B a)" "b_blockno (B' a) = b_blockno (B a)" "b_valid (B' a) = b_valid (B a)"
    "b_data (B' a) = b_data (B a)" "b_refcnt (B' a) = (if a = b then b_refcnt (B b) - 1 else b_refcnt (B a))" for a
    by (auto simp: lowered_def same_key_def)
  show at': "holds_at D B' a m = holds_at D B a m" for a m by (simp add: holds_at_def k)
  have u: "unat (b_refcnt (B b)) = R n" using table_okD(4)[OF t at] .
  with \<open>0 < R n\<close> have "b_refcnt (B b) \<noteq> 0" by auto
  from unat_minus_one[OF this] u have dec: "unat (b_refcnt (B b) - 1) = R n - 1" by simp
  have v: "b_valid (B' a) \<and> unat (b_refcnt (B' a)) = (R(n := R n - 1)) m \<and> b_data (B' a) = V m" if m: "holds_at D B a m" for a m
  proof (cases "a = b")
    case True
    with m at have "m = n" by (simp add: holds_at_def)
    with True dec table_okD(3,5)[OF t at] show ?thesis by (simp add: k)
  next
    case False
    with m table_okD(1)[OF t at] have "m \<noteq> n" by auto
    with False table_okD(3-5)[OF t m] show ?thesis by (simp add: k)
  qed
  have clean: "V m = d m" if "(R(n := R n - 1)) m = 0" for m
  proof (cases "m = n")
    case True
    with that assms(3,4) show ?thesis by (cases "R n") auto
  qed (use that table_okD(7)[OF t] in simp)
  have other: "b_refcnt (B' a) = 0" if "a < NBUF" "b_dev (B' a) \<noteq> D" for a
  proof -
    have "a \<noteq> b" using that(2) at by (auto simp: k holds_at_def)
    then show ?thesis using that table_okD(2)[OF t, of a] by (simp add: k)
  qed
  show "table_ok D (R(n := R n - 1)) V d B'"
    unfolding table_ok_def
  proof (intro conjI allI impI)
    fix a c m assume "holds_at D B' a m \<and> holds_at D B' c m"
    then show "a = c" using at' table_okD(1)[OF t] by blast
  next
    fix m assume "0 < (R(n := R n - 1)) m"
    then show "\<exists>b. holds_at D B' b m" using at' at table_okD(6)[OF t, of m] by (cases "m = n") auto
  qed (use v clean other at' in auto)
qed

lemma ring_let_go:
  assumes "ring bs B" and "b < NBUF"
  shows "\<exists>bs'. ring bs' (let_go b B)"
proof -
  let ?B = "B(b := (B b)\<lparr>b_refcnt := b_refcnt (B b) - 1\<rparr>)"
  have "ring bs ?B" using assms(1) ring_cong[of ?B B bs] by simp
  then show ?thesis using ring_to_front[of bs ?B b] assms(2) unfolding let_go_def Let_def by auto
qed

lemma brelse_spec:
  assumes c: "cache D h p R L V s" and "n \<in> L" and at: "holds_at D (bufs s) b n" and "R n = 1 \<longrightarrow> V n = disk s n"
  obtains s' where "brelse h b s = Ok s'" "cache D h p (R(n := R n - 1)) (L - {n}) V s'" "disk s' = disk s"
    "dtrace s' = dtrace s" "beside s s'" "\<And>a m. holds_at D (bufs s') a m = holds_at D (bufs s) a m"
proof -
  note hb = held_buffer[OF assms(1-3)] and t = cacheD(2)[OF c]
  let ?s = "set_bufs (let_go b) (wake_all p (ChSleepLock b) (set_sl b 0 0 (touch h s)))"
  have eq: "brelse h b s = Ok ?s" by (rule brelse_calm[OF cacheD(1)[OF c] hb(2,3)])
  note B = lowered_table[OF t at hb(7) assms(4) lowered_let_go]
  obtain bs0 where "ring bs0 (bufs s)" using c by (auto simp: cache_def)
  from ring_let_go[OF this hb(1)] obtain bs where r: "ring bs (bufs ?s)" by auto
  have pp: "pid (procs ?s p) = pid (procs s p)" by (simp add: wake_all_def)
  have "calm h p ?s" using cacheD(1)[OF c]
    by (simp add: calm_framed[OF framed_set_bufs] calm_framed[OF framed_wake_all] calm_framed[OF framed_set_sl])
  then have ch: "cache D h p (R(n := R n - 1)) (L - {n}) V ?s"
  proof (rule cacheI[OF _ r])
    show "table_ok D (R(n := R n - 1)) V (disk ?s) (bufs ?s)" using B(1) by simp
    fix m assume "m \<in> L - {n}"
    then show "0 < (R(n := R n - 1)) m" using cacheD(3)[OF c] by simp
  next
    fix a assume a: "a < NBUF"
    have at': "holds_at D (bufs ?s) a m = holds_at D (bufs s) a m" for m using B(2) by simp
    show "sl_locked (sleeplocks ?s a) \<noteq> 0 \<longleftrightarrow> (\<exists>m\<in>L - {n}. holds_at D (bufs ?s) a m)"
    proof (cases "a = b")
      case True
      with at have "\<not> (\<exists>m\<in>L - {n}. holds_at D (bufs s) a m)" by (auto simp: holds_at_def)
      with True show ?thesis unfolding at' by simp
    next
      case False
      then have "\<not> holds_at D (bufs s) a n" using table_okD(1)[OF t at] by blast
      then have "(\<exists>m\<in>L - {n}. holds_at D (bufs s) a m) \<longleftrightarrow> (\<exists>m\<in>L. holds_at D (bufs s) a m)" by blast
      with False cacheD(4)[OF c a] show ?thesis unfolding at' by simp
    qed
  next
    fix a assume "a < NBUF" "sl_locked (sleeplocks ?s a) \<noteq> 0"
    then show "sl_pid (sleeplocks ?s a) = pid (procs ?s p)"
      using cacheD(5)[OF c, of a] pp by (cases "a = b") simp_all
  qed
  have "beside s ?s"
    using beside_steps(1)[of s h] by (simp add: beside_def set_bufs_def set_sl_def wake_all_def map_procs_def)
  then show ?thesis by (rule that[OF eq ch, rotated 2]) (use B(2) in simp_all)
qed

lemma bunpin_spec:
  assumes c: "cache D h p R L V s" and at: "holds_at D (bufs s) b n" and "1 < R n"
  obtains s' where "bunpin h b s = Ok s'" "cache D h p (R(n := R n - 1)) L V s'" "disk s' = disk s"
    "dtrace s' = dtrace s" "beside s s'" "\<And>a m. holds_at D (bufs s') a m = holds_at D (bufs s) a m"
proof -
  note t = cacheD(2)[OF c]
  let ?f = "\<lambda>B :: nat \<Rightarrow> buf. B(b := (B b)\<lparr>b_refcnt := b_refcnt (B b) - 1\<rparr>)"
  let ?s = "set_bufs ?f (touch h s)"
  have eq: "bunpin h b s = Ok ?s" by (rule bpin_calm(2)[OF cacheD(1)[OF c]])
  have low: "lowered b (bufs s) (bufs ?s)" by (simp add: lowered_def same_key_def)
  have "R n = 1 \<longrightarrow> V n = disk s n" using assms(3) by simp
  note B = lowered_table[OF t at _ this low]
  obtain bs where "ring bs (bufs s)" using c by (auto simp: cache_def)
  then have r: "ring bs (bufs ?s)" using ring_cong[of "bufs ?s" "bufs s" bs] by simp
  have "calm h p ?s" using cacheD(1)[OF c] by (simp add: calm_framed[OF framed_set_bufs])
  then have ch: "cache D h p (R(n := R n - 1)) L V ?s"
  proof (rule cacheI[OF _ r])
    show "table_ok D (R(n := R n - 1)) V (disk ?s) (bufs ?s)" using B(1) assms(3) by simp
    show "m \<in> L \<Longrightarrow> 0 < (R(n := R n - 1)) m" for m using cacheD(3)[OF c] assms(3) by simp
    have at': "holds_at D (bufs ?s) a m = holds_at D (bufs s) a m" for a m using B(2) assms(3) by simp
    show "a < NBUF \<Longrightarrow> sl_locked (sleeplocks ?s a) \<noteq> 0 \<longleftrightarrow> (\<exists>m\<in>L. holds_at D (bufs ?s) a m)" for a
      using cacheD(4)[OF c, of a] unfolding at' by simp
    show "a < NBUF \<Longrightarrow> sl_locked (sleeplocks ?s a) \<noteq> 0 \<Longrightarrow> sl_pid (sleeplocks ?s a) = pid (procs ?s p)" for a
      using cacheD(5)[OF c, of a] by simp
  qed
  have "beside s ?s" using beside_steps(1)[of s h] by (simp add: beside_def set_bufs_def)
  moreover have "holds_at D (bufs ?s) a m = holds_at D (bufs s) a m" for a m using B(2) assms(3) by simp
  ultimately show ?thesis by (intro that[OF eq ch]) simp_all
qed

end
