(* ===== verification/Log_Spec.thy ===== *)
theory Log_Spec
  imports Log Bio_Spec
begin

text \<open>
  The write-ahead log over the contract of the buffer cache: what \<^verbatim>\<open>write_log\<close>, \<^verbatim>\<open>write_head\<close> and
  \<^verbatim>\<open>install_trans\<close> write to the disk, in which order, and what \<^verbatim>\<open>recover_from_log\<close> makes of a disk that was
  left at any point of a commit.
\<close>

section \<open>The header block\<close>

lemma get32_put32: "get32 (put32 off w d) off = w"
proof (rule bit_word_eqI)
  fix k assume k: "k < LENGTH(32)"
  then consider "k < 8" | "8 \<le> k" "k < 16" | "16 \<le> k" "k < 24" | "24 \<le> k" "k < 32" by fastforce
  then show "bit (get32 (put32 off w d) off) k = bit w k"
    by cases (simp_all add: get32_def put32_def bit_simps less_diff_conv2)
qed

lemma get32_put32_other:
  "off + 4 \<le> off' \<or> off' + 4 \<le> off \<Longrightarrow> get32 (put32 off' w d) off = get32 d off"
  by (auto simp: get32_def put32_def)

definition head_block :: "i32 \<Rightarrow> (nat \<Rightarrow> u32) \<Rightarrow> block \<Rightarrow> block" where
  "head_block n blk d = fold (\<lambda>i d. put32 (4 + 4 * i) (blk i) d) (upto_int n) (put32 0 n d)"

lemma head_entries:
  "get32 (fold (\<lambda>i d. put32 (4 + 4 * i) (blk i) d) [0..<k] d) 0 = get32 d 0"
  "i < k \<Longrightarrow> get32 (fold (\<lambda>i d. put32 (4 + 4 * i) (blk i) d) [0..<k] d) (4 + 4 * i) = blk i"
proof (induction k)
  case (Suc k)
  { case 1 then show ?case using Suc by (simp add: get32_put32_other) }
  { case 2 then show ?case using Suc by (cases "i = k") (simp_all add: get32_put32 get32_put32_other) }
qed simp_all

lemma head_block_get:
  "get32 (head_block n blk d) 0 = n" "i < nat (sint n) \<Longrightarrow> get32 (head_block n blk d) (4 + 4 * i) = blk i"
  by (simp_all add: head_block_def upto_int_def head_entries get32_put32)

section \<open>Sequences of disk writes\<close>

definition apply_writes :: "(u32 \<times> block) list \<Rightarrow> (u32 \<Rightarrow> block) \<Rightarrow> u32 \<Rightarrow> block" where
  "apply_writes ws d = fold (\<lambda>(n, x) d. d(n := x)) ws d"

lemma apply_writes_simps [simp]:
  "apply_writes [] d = d" "apply_writes ((n, x) # ws) d = apply_writes ws (d(n := x))"
  "apply_writes (ws @ vs) d = apply_writes vs (apply_writes ws d)"
  by (simp_all add: apply_writes_def)

lemma apply_writes_other: "n \<notin> fst ` set ws \<Longrightarrow> apply_writes ws d n = d n"
  by (induction ws arbitrary: d) auto

lemma apply_writes_map:
  assumes "inj_on f {..<k}" and "i < k"
  shows "apply_writes (map (\<lambda>i. (f i, x i)) [0..<k]) d (f i) = x i"
  using assms
proof (induction k)
  case (Suc k)
  show ?case
  proof (cases "i = k")
    case False
    with Suc.prems have "f i \<noteq> f k" by (auto dest: inj_onD)
    moreover have "inj_on f {..<k}" using Suc.prems(1) by (rule inj_on_subset) auto
    ultimately show ?thesis using Suc False by simp
  qed simp
qed simp

section \<open>Steps of the loops\<close>

lemma log_of_more:
  "biost.more s' = biost.more s \<Longrightarrow> log_start s' = log_start s \<and> log_outstanding s' = log_outstanding s \<and>
     log_committing s' = log_committing s \<and> log_dev s' = log_dev s \<and> log_ncommit s' = log_ncommit s \<and>
     lh_n s' = lh_n s \<and> lh_block s' = lh_block s \<and> logst.more s' = logst.more s"
  for s s' :: "'a logst_scheme"
  by (cases s; cases s') (simp add: logst.defs)

lemma beside_log:
  fixes s s' :: "'a logst_scheme"
  assumes "beside s s'"
  shows "log_start s' = log_start s" "log_dev s' = log_dev s" "lh_n s' = lh_n s" "lh_block s' = lh_block s"
  using assms log_of_more[of s' s] by (simp_all add: beside_def)

text \<open>Both loops read a log block \<open>m\<close> and then a home block \<open>n\<close>.\<close>

lemma bread_two:
  fixes s :: "'a logst_scheme"
  assumes c: "cache D h p R {} V s" and ne: "m \<noteq> n" and r: "room R m" "room (R(m := Suc (R m))) n"
    and big: "Suc (R m) < 2 ^ 32" "Suc (R n) < 2 ^ 32"
  obtains a s1 b s2 where "bread h D m s = Ok (a, s1)" "beside s s1" "bread h D n s1 = Ok (b, s2)" "beside s s2"
    "cache D h p (R(m := Suc (R m), n := Suc (R n))) {m, n} V s2" "holds_at D (bufs s2) a m" "holds_at D (bufs s2) b n"
    "disk s2 = disk s" "dtrace s2 = dtrace s" "b_data (bufs s2 a) = V m" "b_data (bufs s2 b) = V n"
proof -
  let ?R = "R(m := Suc (R m))"
  have "m \<notin> {}" by simp
  from bread_spec[OF c this r(1) big(1)] obtain a s1 where
    s1: "bread h D m s = Ok (a, s1)" "cache D h p ?R {m} V s1" "holds_at D (bufs s1) a m"
      "disk s1 = disk s" "dtrace s1 = dtrace s" "beside s s1" by metis
  have n: "n \<notin> {m}" "Suc (?R n) < 2 ^ 32" using ne big(2) by simp_all
  obtain b s2 where
    s2: "bread h D n s1 = Ok (b, s2)" "cache D h p (?R(n := Suc (?R n))) (insert n {m}) V s2" "holds_at D (bufs s2) b n"
      "disk s2 = disk s1" "dtrace s2 = dtrace s1" "beside s1 s2"
      "\<And>k c. 0 < ?R k \<Longrightarrow> holds_at D (bufs s1) c k \<Longrightarrow> holds_at D (bufs s2) c k"
    by (rule bread_spec[OF s1(2) n(1) r(2) n(2)]) blast
  have am: "holds_at D (bufs s2) a m" using s2(7)[OF _ s1(3)] by simp
  have R: "?R(n := Suc (?R n)) = R(m := Suc (R m), n := Suc (R n))" "insert n {m} = {m, n}" using ne by auto
  have data: "b_data (bufs s2 a) = V m" "b_data (bufs s2 b) = V n"
    using held_buffer(4)[OF s2(2) _ am] held_buffer(4)[OF s2(2) _ s2(3)] by simp_all
  show ?thesis
    by (rule that[OF s1(1,6) s2(1) beside_trans[OF s1(6) s2(6)] _ am s2(3) _ _ data])
       (use s1(4,5) s2(2,4,5) in \<open>simp_all only: R\<close>)
qed

text \<open>One turn of \<^const>\<open>write_log\<close>: block \<open>n\<close> of the cache goes to log block \<open>m\<close>.\<close>

lemma write_log_turn:
  fixes s :: "'a logst_scheme"
  assumes c: "cache D h p R {} V s" and ne: "m \<noteq> n" and pin: "0 < R n" and "room R m"
    and big: "Suc (R m) < 2 ^ 32" "Suc (R n) < 2 ^ 32" and D: "log_dev s = D"
    and m: "log_start s + of_nat tail + 1 = m" and n: "lh_block s tail = n"
  shows "\<exists>s'. rbind (bread h (log_dev s) (log_start s + of_nat tail + 1) s) (\<lambda>(to, s).
       rbind (bread h (log_dev s) (lh_block s tail) s) (\<lambda>(from, s).
       let s = upd_buf to (\<lambda>x. x\<lparr>b_data := b_data (bufs s from)\<rparr>) s in
       rbind (bwrite h to s) (\<lambda>s.
       rbind (brelse h from s) (\<lambda>s.
       brelse h to s)))) = Ok s' \<and> cache D h p R {} (V(m := V n)) s' \<and> disk s' = (disk s)(m := V n) \<and>
     dtrace s' = dtrace s @ [(m, V n)] \<and> beside s s'"
proof -
  have "room (R(m := Suc (R m))) n" using pin by (simp add: room_def)
  from bread_two[OF c ne \<open>room R m\<close> this big] obtain t s1 f s2 where
    s2: "bread h D m s = Ok (t, s1)" "beside s s1" "bread h D n s1 = Ok (f, s2)" "beside s s2"
      "cache D h p (R(m := Suc (R m), n := Suc (R n))) {m, n} V s2" "holds_at D (bufs s2) t m" "holds_at D (bufs s2) f n"
      "disk s2 = disk s" "dtrace s2 = dtrace s" "b_data (bufs s2 f) = V n" by metis
  let ?R1 = "R(m := Suc (R m))" and ?R2 = "R(m := Suc (R m), n := Suc (R n))"
  let ?s3 = "upd_buf t (\<lambda>x. x\<lparr>b_data := V n\<rparr>) s2"
  have "m \<in> {m, n}" by simp
  note s3 = cache_set_data[OF s2(5) this s2(6), of "V n"]
  have at3: "holds_at D (bufs ?s3) t m" "holds_at D (bufs ?s3) f n" using s3(2) s2(6,7) by simp_all
  obtain s4 where
    s4: "bwrite h t ?s3 = Ok s4" "cache D h p ?R2 {m, n} (V(m := V n)) s4" "bufs s4 = bufs ?s3"
      "disk s4 = (disk ?s3)(m := (V(m := V n)) m)" "dtrace s4 = dtrace ?s3 @ [(m, (V(m := V n)) m)]" "beside ?s3 s4"
    by (rule bwrite_spec[OF s3(1) \<open>m \<in> {m, n}\<close> at3(1)])
  have d4: "disk s4 = (disk s)(m := V n)" "dtrace s4 = dtrace s @ [(m, V n)]"
    using s4(4,5) s2(8,9) by (simp_all add: upd_buf_def)
  have q: "n \<in> {m, n}" "holds_at D (bufs s4) f n" "?R2 n = 1 \<longrightarrow> (V(m := V n)) n = disk s4 n"
    using at3(2) s4(3) pin by simp_all
  obtain s5 where
    s5: "brelse h f s4 = Ok s5" "cache D h p (?R2(n := ?R2 n - 1)) ({m, n} - {n}) (V(m := V n)) s5" "disk s5 = disk s4"
      "dtrace s5 = dtrace s4" "beside s4 s5" "\<And>a k. holds_at D (bufs s5) a k = holds_at D (bufs s4) a k"
    by (rule brelse_spec[OF s4(2) q]) blast
  have "?R2(n := ?R2 n - 1) = ?R1" "{m, n} - {n} = {m}" using ne by auto
  with s5(2) have c5: "cache D h p ?R1 {m} (V(m := V n)) s5" by simp
  have q: "m \<in> {m}" "holds_at D (bufs s5) t m" "?R1 m = 1 \<longrightarrow> (V(m := V n)) m = disk s5 m"
    using s5(3,6) s4(3) d4(1) at3(1) by simp_all
  obtain s6 where
    s6: "brelse h t s5 = Ok s6" "cache D h p (?R1(m := ?R1 m - 1)) ({m} - {m}) (V(m := V n)) s6" "disk s6 = disk s5"
      "dtrace s6 = dtrace s5" "beside s5 s6"
    by (rule brelse_spec[OF c5 q])
  have "?R1(m := ?R1 m - 1) = R" by auto
  with s6(2) have c6: "cache D h p R {} (V(m := V n)) s6" by simp
  have b: "beside s s6" using s2(4) s3(3) s4(6) s5(5) s6(5) by (blast intro: beside_trans)
  have "log_dev s1 = D" "lh_block s1 tail = n" using beside_log[OF s2(2)] D n by simp_all
  then show ?thesis
    using s2(1,3,10) s4(1) s5(1,3,4) s6(1,3,4) c6 b d4 by (simp add: D m n)
qed

section \<open>The recovery message\<close>

definition add_out :: "u8 list \<Rightarrow> 'a outst_scheme \<Rightarrow> 'a outst_scheme" where
  "add_out cs s = s\<lparr>uout := uout s @ cs\<rparr>"

lemma add_out_fields [simp]:
  "disk (add_out cs s) = disk s" "dtrace (add_out cs s) = dtrace s"
  by (simp_all add: add_out_def)

lemma framed_add_out: "framed (add_out cs)"
  by (simp add: framed_def add_out_def)

lemma uartputc_sync_ok:
  assumes "hart_ok h s" and "\<not> panicking s" and "\<not> panicked s"
  shows "uartputc_sync h c s = Ok (touch h (add_out [c] s))"
proof -
  have e: "(push_off h s)\<lparr>uout := uout (push_off h s) @ [c]\<rparr> = push_off h (add_out [c] s)"
    by (simp add: push_off_def add_out_def Let_def)
  have p: "panicking (push_off h t) = panicking t" "panicked (push_off h t) = panicked t" for t :: "'a outst_scheme"
    by (simp_all add: push_off_def Let_def)
  have "hart_ok h (add_out [c] s)" using assms(1) by (simp add: hart_ok_def add_out_def)
  with assms e p show ?thesis
    by (simp add: uartputc_sync_def Let_def pop_push_off) (simp add: add_out_def)
qed

lemma consputc_ok:
  assumes "hart_ok h s" and "\<not> panicking s" and "\<not> panicked s"
  shows "\<exists>cs. consputc h c s = Ok (touch h (add_out cs s))"
proof -
  have again: "uartputc_sync h d (touch h (add_out cs s)) = Ok (touch h (add_out (cs @ [d]) s))" for d cs
    using uartputc_sync_ok[of h "touch h (add_out cs s)" d] assms
    by (simp add: framed_touch[OF framed_add_out] hart_ok_def add_out_def) (simp add: touch_def)
  show ?thesis
    using uartputc_sync_ok[OF assms] again by (auto simp: consputc_def)
qed

lemma putchars_ok:
  assumes "hart_ok h s" and "\<not> panicking s" and "\<not> panicked s" and "touch h s = s"
  shows "\<exists>cs. putchars h xs s = Ok (add_out cs s)"
  using assms
proof (induction xs arbitrary: s)
  case Nil
  then show ?case by (auto simp: putchars_def add_out_def intro: exI[of _ "[]"])
next
  case (Cons x xs)
  from consputc_ok[OF Cons.prems(1-3)] obtain cs where "consputc h x s = Ok (touch h (add_out cs s))" by blast
  moreover have t: "touch h (add_out cs s) = add_out cs s" using framed_touch[OF framed_add_out, of cs h s] Cons.prems(4) by simp
  moreover have "\<exists>ds. putchars h xs (add_out cs s) = Ok (add_out ds (add_out cs s))"
    using Cons.prems t by (intro Cons.IH) (simp_all add: hart_ok_def add_out_def)
  ultimately show ?case by (auto simp: putchars_def add_out_def)
qed

lemma printk_ok:
  assumes "hart_ok h s" and "\<not> panicking s" and "\<not> panicked s" and pr: "lock_free PrLock s"
    and f: "format fmt ap = Some xs"
  shows "\<exists>cs. printk h fmt ap s = Ok (add_out cs (touch h s))"
proof -
  let ?a = "acquired h PrLock s"
  have n: "0 \<le> noff (cpus s h)" using assms(1) by (simp add: hart_ok_def)
  have k: "hart_ok h ?a" "touch h ?a = ?a" "\<not> panicking ?a" "\<not> panicked ?a"
    using n assms(2,3) by (simp_all add: hart_ok_def) (simp_all add: acquired_def push_off_def Let_def)
  from putchars_ok[OF k(1,3,4,2)] obtain cs where cs: "putchars h xs ?a = Ok (add_out cs ?a)" by blast
  have "release h PrLock (add_out cs ?a) = Ok (add_out cs (touch h s))"
    by (rule release_framed[OF framed_add_out assms(1) pr])
  moreover have "\<not> panicking (add_out cs ?a)" using k(3) by (simp add: add_out_def)
  ultimately show ?thesis using assms(2) cs by (auto simp: printk_def acquire_free[OF pr] f)
qed

lemma recovery_format:
  "\<exists>xs. format (''recovering tail %d dst %d'' @ [CHR 0x0A]) [VWord a, VWord b] = Some xs"
  by (simp add: conversion_def)

lemma cache_add_out: "cache D h p R L V (add_out cs s) = cache D h p R L V s"
  using calm_framed[OF framed_add_out, of h p cs s] by (simp add: cache_def) (simp add: add_out_def)

lemma cache_touch: "cache D h p R L V (touch h s) = cache D h p R L V s"
  by (simp add: cache_def)

section \<open>Installing\<close>

text \<open>The part of a turn of \<^const>\<open>install_trans\<close> after the message: log block \<open>m\<close> goes to its home \<open>n\<close>.\<close>

lemma install_turn:
  fixes s :: "'a logst_scheme"
  assumes c: "cache D h p R {} V s" and ne: "m \<noteq> n" and r: "room R m" "room (R(m := Suc (R m))) n"
    and pin: "recovering \<or> 0 < R n"
    and big: "Suc (R m) < 2 ^ 32" "Suc (R n) < 2 ^ 32" and D: "log_dev s = D"
    and m: "log_start s + of_nat tail + 1 = m" and n: "lh_block s tail = n"
  shows "\<exists>s'. rbind (bread h (log_dev s) (log_start s + of_nat tail + 1) s) (\<lambda>(lbuf, s).
       rbind (bread h (log_dev s) (lh_block s tail) s) (\<lambda>(dbuf, s).
       let s = upd_buf dbuf (\<lambda>x. x\<lparr>b_data := b_data (bufs s lbuf)\<rparr>) s in
       rbind (bwrite h dbuf s) (\<lambda>s.
       rbind (if \<not> recovering then bunpin h dbuf s else Ok s) (\<lambda>s.
       rbind (brelse h lbuf s) (\<lambda>s.
       brelse h dbuf s))))) = Ok s' \<and>
     cache D h p (if recovering then R else R(n := R n - 1)) {} (V(n := V m)) s' \<and> disk s' = (disk s)(n := V m) \<and>
     dtrace s' = dtrace s @ [(n, V m)] \<and> beside s s'"
proof -
  from bread_two[OF c ne r big] obtain a s1 b s2 where
    s2: "bread h D m s = Ok (a, s1)" "beside s s1" "bread h D n s1 = Ok (b, s2)" "beside s s2"
      "cache D h p (R(m := Suc (R m), n := Suc (R n))) {m, n} V s2" "holds_at D (bufs s2) a m" "holds_at D (bufs s2) b n"
      "disk s2 = disk s" "dtrace s2 = dtrace s" "b_data (bufs s2 a) = V m" by metis
  let ?R2 = "R(m := Suc (R m), n := Suc (R n))" and ?V = "V(n := V m)"
  let ?s3 = "upd_buf b (\<lambda>x. x\<lparr>b_data := V m\<rparr>) s2"
  have nL: "n \<in> {m, n}" by simp
  note s3 = cache_set_data[OF s2(5) nL s2(7), of "V m"]
  have at3: "holds_at D (bufs ?s3) a m" "holds_at D (bufs ?s3) b n" using s3(2) s2(6,7) by simp_all
  obtain s4 where
    s4: "bwrite h b ?s3 = Ok s4" "cache D h p ?R2 {m, n} ?V s4" "bufs s4 = bufs ?s3"
      "disk s4 = (disk ?s3)(n := ?V n)" "dtrace s4 = dtrace ?s3 @ [(n, ?V n)]" "beside ?s3 s4"
    by (rule bwrite_spec[OF s3(1) nL at3(2)])
  have d4: "disk s4 = (disk s)(n := V m)" "dtrace s4 = dtrace s @ [(n, V m)]"
    using s4(4,5) s2(8,9) by (simp_all add: upd_buf_def)
  define R4 where "R4 = (if recovering then ?R2 else ?R2(n := ?R2 n - 1))"
  obtain s5 where s5: "(if \<not> recovering then bunpin h b s4 else Ok s4) = Ok s5" "cache D h p R4 {m, n} ?V s5"
    "disk s5 = disk s4" "dtrace s5 = dtrace s4" "beside s4 s5" "holds_at D (bufs s5) a m" "holds_at D (bufs s5) b n"
  proof (cases recovering)
    case True
    show ?thesis by (rule that[of s4]) (use True s4(2,3) at3 in \<open>simp_all add: beside_refl R4_def\<close>)
  next
    case False
    with pin have two: "1 < ?R2 n" by simp
    have at4: "holds_at D (bufs s4) b n" "holds_at D (bufs s4) a m" using s4(3) at3 by simp_all
    obtain s5 where s5: "bunpin h b s4 = Ok s5" "cache D h p (?R2(n := ?R2 n - 1)) {m, n} ?V s5"
      "disk s5 = disk s4" "dtrace s5 = dtrace s4" "beside s4 s5"
      "\<And>a k. holds_at D (bufs s5) a k = holds_at D (bufs s4) a k"
      by (rule bunpin_spec[OF s4(2) at4(1) two]) blast
    show ?thesis by (rule that[of s5]) (use False s5 at4 in \<open>simp_all add: R4_def\<close>)
  qed
  have R4: "R4 m = Suc (R m)" using ne by (simp add: R4_def)
  have q: "m \<in> {m, n}" "holds_at D (bufs s5) a m" "R4 m = 1 \<longrightarrow> ?V m = disk s5 m"
    using s5(3,6) R4 table_okD(7)[OF cacheD(2)[OF c], of m] ne d4(1) by simp_all
  obtain s6 where
    s6: "brelse h a s5 = Ok s6" "cache D h p (R4(m := R4 m - 1)) ({m, n} - {m}) ?V s6" "disk s6 = disk s5"
      "dtrace s6 = dtrace s5" "beside s5 s6" "\<And>a k. holds_at D (bufs s6) a k = holds_at D (bufs s5) a k"
    by (rule brelse_spec[OF s5(2) q]) blast
  define R6 where "R6 = R4(m := R4 m - 1)"
  have c6: "cache D h p R6 ({m, n} - {m}) ?V s6" using s6(2) by (simp only: R6_def)
  have nm: "n \<in> {m, n} - {m}" using ne by simp
  have at6: "holds_at D (bufs s6) b n" using s6(6) s5(7) by simp
  have cl6: "R6 n = 1 \<longrightarrow> ?V n = disk s6 n" using s5(3) s6(3) d4(1) by simp
  obtain s7 where
    s7: "brelse h b s6 = Ok s7" "cache D h p (R6(n := R6 n - 1)) ({m, n} - {m} - {n}) ?V s7" "disk s7 = disk s6"
      "dtrace s7 = dtrace s6" "beside s6 s7"
    by (rule brelse_spec[OF c6 nm at6 cl6])
  have R7: "R6(n := R6 n - 1) = (if recovering then R else R(n := R n - 1))"
    using ne by (cases recovering) (simp_all add: fun_eq_iff R6_def R4_def)
  have "{m, n} - {m} - {n} = {}" by blast
  from s7(2)[unfolded R7 this] have c7: "cache D h p (if recovering then R else R(n := R n - 1)) {} ?V s7" .
  have b: "beside s s7" using s2(4) s3(3) s4(6) s5(5) s6(5) s7(5) by (blast intro: beside_trans)
  have "log_dev s1 = D" "lh_block s1 tail = n" using beside_log[OF s2(2)] D n by simp_all
  then show ?thesis
    using s2(1,3,10) s4(1) s5(1,3,4) s6(1,3,4) s7(1,3,4) c7 b d4 by (simp add: D m n)
qed

section \<open>The header\<close>

lemma write_head_spec:
  fixes s :: "'a logst_scheme"
  assumes c: "cache D h p R {} V s" and "room R st" and "R st = 0" and "log_dev s = D" and "log_start s = st"
  shows "\<exists>s'. write_head h s = Ok s' \<and> cache D h p R {} (V(st := head_block (lh_n s) (lh_block s) (V st))) s' \<and>
     disk s' = (disk s)(st := head_block (lh_n s) (lh_block s) (V st)) \<and>
     dtrace s' = dtrace s @ [(st, head_block (lh_n s) (lh_block s) (V st))] \<and> beside s s'"
proof -
  let ?H = "head_block (lh_n s) (lh_block s) (V st)"
  have e: "st \<notin> {}" "Suc (R st) < 2 ^ 32" using assms(3) by simp_all
  obtain b s1 where
    s1: "bread h D st s = Ok (b, s1)" "cache D h p (R(st := Suc (R st))) (insert st {}) V s1" "holds_at D (bufs s1) b st"
      "disk s1 = disk s" "dtrace s1 = dtrace s" "beside s s1"
    by (rule bread_spec[OF c e(1) assms(2) e(2)])
  have L: "st \<in> insert st {}" by simp
  have data: "b_data (bufs s1 b) = V st" using held_buffer(4)[OF s1(2) L s1(3)] .
  let ?s2 = "upd_buf b (\<lambda>x. x\<lparr>b_data := ?H\<rparr>) s1"
  note s2 = cache_set_data[OF s1(2) L s1(3), of ?H]
  have at2: "holds_at D (bufs ?s2) b st" using s2(2) s1(3) by simp
  obtain s3 where
    s3: "bwrite h b ?s2 = Ok s3" "cache D h p (R(st := Suc (R st))) (insert st {}) (V(st := ?H)) s3" "bufs s3 = bufs ?s2"
      "disk s3 = (disk ?s2)(st := (V(st := ?H)) st)" "dtrace s3 = dtrace ?s2 @ [(st, (V(st := ?H)) st)]" "beside ?s2 s3"
    by (rule bwrite_spec[OF s2(1) L at2])
  have q: "holds_at D (bufs s3) b st" "(R(st := Suc (R st))) st = 1 \<longrightarrow> (V(st := ?H)) st = disk s3 st"
    using at2 s3(3,4) by simp_all
  obtain s4 where
    s4: "brelse h b s3 = Ok s4" "cache D h p (R(st := Suc (R st), st := (R(st := Suc (R st))) st - 1)) (insert st {} - {st}) (V(st := ?H)) s4"
      "disk s4 = disk s3" "dtrace s4 = dtrace s3" "beside s3 s4"
    by (rule brelse_spec[OF s3(2) L q])
  have "R(st := Suc (R st), st := (R(st := Suc (R st))) st - 1) = R" "insert st {} - {st} = {}" by auto
  from s4(2)[unfolded this] have c4: "cache D h p R {} (V(st := ?H)) s4" .
  have same: "lh_n s1 = lh_n s" "lh_block s1 = lh_block s" using beside_log[OF s1(6)] by simp_all
  have "upd_buf b (\<lambda>x. x\<lparr>b_data := fold (\<lambda>i d. put32 (4 + 4 * i) (lh_block s1 i) d) (upto_int (lh_n s1))
                 (put32 0 (lh_n s1) (b_data x))\<rparr>) s1 = ?s2"
    by (simp add: upd_buf_def data same head_block_def)
  moreover have "beside s s4" using s1(6) s2(3) s3(6) s4(5) by (blast intro: beside_trans)
  moreover have "disk ?s2 = disk s" "dtrace ?s2 = dtrace s" using s1(4,5) by (simp_all add: upd_buf_def)
  ultimately show ?thesis
    using s1(1) s3(1,4,5) s4(1,3,4) c4 by (simp add: write_head_def assms(4,5) Let_def)
qed

text \<open>The in-memory header is part of what extends the cache; changing it does not concern the cache.\<close>

lemma cache_lh [simp]:
  "cache D h p R L V (s\<lparr>lh_n := k\<rparr>) = cache D h p R L V s"
  "cache D h p R L V (s\<lparr>lh_block := f\<rparr>) = cache D h p R L V s"
  by (simp_all add: cache_def calm_def table_free_def hart_ok_def lock_free_def)

section \<open>Loops\<close>

definition log_area :: "u32 \<Rightarrow> u32 set" where
  "log_area st = {st + of_nat i | i. i \<le> LOGBLOCKS}"

definition log_home :: "u32 \<Rightarrow> nat \<Rightarrow> u32" where
  "log_home st i = st + of_nat i + 1"

lemma log_home_area: "i < LOGBLOCKS \<Longrightarrow> log_home st i \<in> log_area st" "st \<in> log_area st"
  by (auto simp: log_area_def log_home_def intro: exI[of _ "Suc i"] exI[of _ 0])

lemma log_home_inj: "inj_on (log_home st) {..<LOGBLOCKS}"
proof (rule inj_onI)
  fix i j assume "i \<in> {..<LOGBLOCKS}" "j \<in> {..<LOGBLOCKS}" "log_home st i = log_home st j"
  then have "(of_nat i :: u32) = of_nat j" "i < 30" "j < 30" by (simp_all add: log_home_def LOGBLOCKS_def)
  then have "unat (of_nat i :: u32) = unat (of_nat j :: u32)" "i < 2 ^ 32" "j < 2 ^ 32" by simp_all
  then show "i = j" by (simp add: unat_of_nat)
qed

lemma log_home_not_start: "i < LOGBLOCKS \<Longrightarrow> log_home st i \<noteq> st"
proof
  assume "i < LOGBLOCKS" "log_home st i = st"
  then have "(of_nat (Suc i) :: u32) = 0" "Suc i < 2 ^ 32" by (simp_all add: log_home_def LOGBLOCKS_def add.commute)
  then have "unat (of_nat (Suc i) :: u32) = 0" by (metis unat_0)
  with \<open>Suc i < 2 ^ 32\<close> show False by (simp add: unat_of_nat del: of_nat_Suc)
qed

text \<open>What \<^const>\<open>write_log\<close> writes.\<close>

lemma write_log_loop:
  fixes s :: "'a logst_scheme"
  assumes c: "cache D h p R {} V s" and D: "log_dev s = D" and st: "log_start s = st" and k: "k \<le> LOGBLOCKS"
    and blk: "\<forall>i<k. lh_block s i \<notin> log_area st \<and> R (lh_block s i) = 1"
    and area: "\<forall>n\<in>log_area st. R n = 0" and free: "card {n. 0 < R n} < NBUF"
  shows "\<exists>s'. rfold (\<lambda>tail s.
       rbind (bread h (log_dev s) (log_start s + of_nat tail + 1) s) (\<lambda>(to, s).
       rbind (bread h (log_dev s) (lh_block s tail) s) (\<lambda>(from, s).
       let s = upd_buf to (\<lambda>x. x\<lparr>b_data := b_data (bufs s from)\<rparr>) s in
       rbind (bwrite h to s) (\<lambda>s.
       rbind (brelse h from s) (\<lambda>s.
       brelse h to s))))) [0..<k] s = Ok s' \<and>
     (let ws = map (\<lambda>i. (log_home st i, V (lh_block s i))) [0..<k]
      in cache D h p R {} (apply_writes ws V) s' \<and> disk s' = apply_writes ws (disk s) \<and>
         dtrace s' = dtrace s @ ws) \<and> beside s s'"
  using k blk
proof (induction k)
  case 0
  then show ?case using c by (simp add: beside_refl)
next
  case (Suc k)
  let ?f = "\<lambda>tail s :: 'a logst_scheme.
       rbind (bread h (log_dev s) (log_start s + of_nat tail + 1) s) (\<lambda>(to, s).
       rbind (bread h (log_dev s) (lh_block s tail) s) (\<lambda>(from, s).
       let s = upd_buf to (\<lambda>x. x\<lparr>b_data := b_data (bufs s from)\<rparr>) s in
       rbind (bwrite h to s) (\<lambda>s.
       rbind (brelse h from s) (\<lambda>s.
       brelse h to s))))"
  let ?ws = "\<lambda>k. map (\<lambda>i. (log_home st i, V (lh_block s i))) [0..<k]"
  from Suc obtain t where t: "rfold ?f [0..<k] s = Ok t" "cache D h p R {} (apply_writes (?ws k) V) t"
    "disk t = apply_writes (?ws k) (disk s)" "dtrace t = dtrace s @ ?ws k" "beside s t" by (auto simp: Let_def)
  let ?m = "log_home st k" and ?n = "lh_block s k"
  have mn: "?m \<in> log_area st" "?n \<notin> log_area st" "R ?n = 1" "R ?m = 0"
    using Suc.prems log_home_area(1)[of k st] area by auto
  have v: "apply_writes (?ws k) V ?n = V ?n"
    using mn(2) log_home_area(1) Suc.prems(1) by (intro apply_writes_other) auto
  have pre: "?m \<noteq> ?n" "0 < R ?n" "room R ?m" "Suc (R ?m) < 2 ^ 32" "Suc (R ?n) < 2 ^ 32"
    using mn free by (auto simp: room_def)
  have "log_dev t = D" "log_start t + of_nat k + 1 = ?m" "lh_block t k = ?n"
    using beside_log[OF t(5)] D st by (simp_all add: log_home_def)
  from write_log_turn[OF t(2) pre this] obtain u where
    u: "?f k t = Ok u" "cache D h p R {} ((apply_writes (?ws k) V)(?m := V ?n)) u" "disk u = (disk t)(?m := V ?n)"
      "dtrace u = dtrace t @ [(?m, V ?n)]" "beside t u" using v by auto
  show ?case
    using t u beside_trans[OF t(5) u(5)] by (simp add: rfold_append Let_def)
qed

text \<open>The references after \<open>k\<close> turns of \<^const>\<open>install_trans\<close>: outside recovery each turn gives up one.\<close>

definition unpinned :: "bool \<Rightarrow> (nat \<Rightarrow> u32) \<Rightarrow> nat \<Rightarrow> (u32 \<Rightarrow> nat) \<Rightarrow> u32 \<Rightarrow> nat" where
  "unpinned recovering blk k R = (if recovering then R else (\<lambda>n. if n \<in> blk ` {..<k} then 0 else R n))"

definition out_ok :: "'a outst_scheme \<Rightarrow> bool" where
  "out_ok s \<longleftrightarrow> lock_free PrLock s \<and> \<not> panicking s \<and> \<not> panicked s"

lemma beside_out: "beside s t \<Longrightarrow> out_ok t = out_ok s"
  by (simp add: beside_def out_ok_def lock_free_def)

text \<open>When the log may be installed: the home blocks are pinned once each, or the machine recovers with an
  unused cache.\<close>

definition installable :: "bool \<Rightarrow> nat \<Rightarrow> (u32 \<Rightarrow> nat) \<Rightarrow> 'a logst_scheme \<Rightarrow> bool" where
  "installable recovering k R s \<longleftrightarrow> k \<le> LOGBLOCKS \<and> (\<forall>i<k. lh_block s i \<notin> log_area (log_start s)) \<and>
     (if recovering then R = (\<lambda>_. 0) \<and> out_ok s
      else inj_on (lh_block s) {..<k} \<and> (\<forall>i<k. R (lh_block s i) = 1) \<and> card {n. 0 < R n} < NBUF \<and>
           (\<forall>n\<in>log_area (log_start s). R n = 0))"

lemma installable_Suc: "installable r (Suc k) R s \<Longrightarrow> installable r k R s"
  by (auto simp: installable_def intro: inj_on_subset)

lemma installable_room:
  assumes i: "installable r (Suc k) R s"
  defines "m \<equiv> log_home (log_start s) k" and "n \<equiv> lh_block s k" and "Q \<equiv> unpinned r (lh_block s) k R"
  shows "m \<noteq> n" "Q m = 0" "room Q m" "room (Q(m := Suc (Q m))) n" "r \<or> 0 < Q n" "Suc (Q n) < 2 ^ 32"
    "unpinned r (lh_block s) (Suc k) R = (if r then Q else Q(n := Q n - 1))"
proof -
  have mn: "m \<in> log_area (log_start s)" "n \<notin> log_area (log_start s)"
    using i log_home_area(1)[of k] by (auto simp: installable_def m_def n_def)
  then show "m \<noteq> n" by auto
  have sub: "{j. 0 < Q j} \<subseteq> {j. 0 < R j}" by (auto simp: Q_def unpinned_def split: if_splits)
  have "card {j. 0 < R j} < NBUF" using i by (auto simp: installable_def NBUF_def split: if_splits)
  with card_mono[OF _ sub] have lt: "card {j. 0 < Q j} < NBUF" by simp
  then show "room Q m" by (simp add: room_def)
  show m0: "Q m = 0" using i mn(1) by (auto simp: installable_def Q_def unpinned_def split: if_splits)
  have n1: "Q n = (if r then 0 else 1)"
  proof (cases r)
    case False
    with i have "inj_on (lh_block s) {..<Suc k}" "R n = 1" by (auto simp: installable_def n_def)
    then have "n \<notin> lh_block s ` {..<k}" "R n = 1" by (auto simp: n_def dest: inj_onD)
    with False show ?thesis by (simp add: Q_def unpinned_def)
  qed (use i in \<open>simp add: installable_def Q_def unpinned_def\<close>)
  then show "r \<or> 0 < Q n" "Suc (Q n) < 2 ^ 32" by (auto split: if_splits)
  show "room (Q(m := Suc (Q m))) n"
  proof (cases r)
    case True
    then have "{j. 0 < (Q(m := Suc (Q m))) j} = {m}" using i by (auto simp: installable_def Q_def unpinned_def)
    then show ?thesis by (simp add: room_def NBUF_def)
  qed (use n1 \<open>m \<noteq> n\<close> in \<open>simp add: room_def\<close>)
  show "unpinned r (lh_block s) (Suc k) R = (if r then Q else Q(n := Q n - 1))"
    using n1 by (auto simp: Q_def unpinned_def n_def fun_eq_iff lessThan_Suc)
qed

lemma message_ok:
  assumes "calm h p s" and "out_ok s"
  shows "\<exists>cs. printk h (''recovering tail %d dst %d'' @ [CHR 0x0A]) [VWord a, VWord b] s = Ok (add_out cs (touch h s))"
  using recovery_format[of a b] printk_ok calmD(2)[OF assms(1)] assms(2) by (metis out_ok_def)

lemma beside_add_out: "beside s (add_out cs (touch h s))"
  using beside_steps(1)[of s h] by (simp add: beside_def add_out_def)

lemma install_loop:
  fixes s :: "'a logst_scheme"
  assumes c: "cache D h p R {} V s" and D: "log_dev s = D" and i: "installable r k R s"
  defines "st \<equiv> log_start s"
  shows "\<exists>s'. rfold (\<lambda>tail s.
       rbind (if r
              then printk h (''recovering tail %d dst %d'' @ [CHR 0x0A])
                     [VWord (of_nat tail), VWord (scast (lh_block s tail))] s
              else Ok s) (\<lambda>s.
       rbind (bread h (log_dev s) (log_start s + of_nat tail + 1) s) (\<lambda>(lbuf, s).
       rbind (bread h (log_dev s) (lh_block s tail) s) (\<lambda>(dbuf, s).
       let s = upd_buf dbuf (\<lambda>x. x\<lparr>b_data := b_data (bufs s lbuf)\<rparr>) s in
       rbind (bwrite h dbuf s) (\<lambda>s.
       rbind (if \<not> r then bunpin h dbuf s else Ok s) (\<lambda>s.
       rbind (brelse h lbuf s) (\<lambda>s.
       brelse h dbuf s))))))) [0..<k] s = Ok s' \<and>
     (let ws = map (\<lambda>i. (lh_block s i, V (log_home st i))) [0..<k]
      in cache D h p (unpinned r (lh_block s) k R) {} (apply_writes ws V) s' \<and> disk s' = apply_writes ws (disk s) \<and>
         dtrace s' = dtrace s @ ws) \<and> beside s s'"
  using i
proof (induction k)
  case 0
  then show ?case using c by (auto simp: beside_refl unpinned_def)
next
  case (Suc k)
  let ?g = "\<lambda>tail s :: 'a logst_scheme.
       rbind (bread h (log_dev s) (log_start s + of_nat tail + 1) s) (\<lambda>(lbuf, s).
       rbind (bread h (log_dev s) (lh_block s tail) s) (\<lambda>(dbuf, s).
       let s = upd_buf dbuf (\<lambda>x. x\<lparr>b_data := b_data (bufs s lbuf)\<rparr>) s in
       rbind (bwrite h dbuf s) (\<lambda>s.
       rbind (if \<not> r then bunpin h dbuf s else Ok s) (\<lambda>s.
       rbind (brelse h lbuf s) (\<lambda>s.
       brelse h dbuf s)))))"
  let ?f = "\<lambda>tail s. rbind (if r
              then printk h (''recovering tail %d dst %d'' @ [CHR 0x0A])
                     [VWord (of_nat tail), VWord (scast (lh_block s tail))] s
              else Ok s) (?g tail)"
  let ?ws = "\<lambda>k. map (\<lambda>i. (lh_block s i, V (log_home st i))) [0..<k]" and ?Q = "unpinned r (lh_block s) k R"
  from Suc.IH[OF installable_Suc[OF Suc.prems]] obtain t where t: "rfold ?f [0..<k] s = Ok t"
    "cache D h p ?Q {} (apply_writes (?ws k) V) t"
    "disk t = apply_writes (?ws k) (disk s)" "dtrace t = dtrace s @ ?ws k" "beside s t" by (auto simp: Let_def)
  obtain t' where t': "(if r then printk h (''recovering tail %d dst %d'' @ [CHR 0x0A])
                     [VWord (of_nat k), VWord (scast (lh_block t k))] t else Ok t) = Ok t'"
    "cache D h p ?Q {} (apply_writes (?ws k) V) t'" "disk t' = disk t" "dtrace t' = dtrace t" "beside s t'"
  proof (cases r)
    case True
    with Suc.prems have "out_ok t" using beside_out[OF t(5)] by (simp add: installable_def)
    from message_ok[OF cacheD(1)[OF t(2)] this] obtain cs where
      "printk h (''recovering tail %d dst %d'' @ [CHR 0x0A]) [VWord (of_nat k), VWord (scast (lh_block t k))] t =
       Ok (add_out cs (touch h t))" by blast
    then show ?thesis
      using True t(2) beside_trans[OF t(5) beside_add_out]
      by (intro that[of "add_out cs (touch h t)"]) (simp_all add: cache_add_out cache_touch)
  qed (use that[of t] t in simp)
  let ?m = "log_home st k" and ?n = "lh_block s k"
  note pre = installable_room[OF Suc.prems, folded st_def]
  have v: "apply_writes (?ws k) V ?m = V ?m"
  proof (rule apply_writes_other)
    have "?m \<in> log_area st" using Suc.prems log_home_area(1)[of k st] by (simp add: installable_def)
    then show "?m \<notin> fst ` set (?ws k)" using Suc.prems by (auto simp: installable_def st_def)
  qed
  have lg: "log_dev t' = D" "log_start t' + of_nat k + 1 = ?m" "lh_block t' k = ?n"
    using beside_log[OF t'(5)] D by (simp_all add: log_home_def st_def)
  have "Suc (?Q ?m) < 2 ^ 32" using pre(2) by simp
  from install_turn[OF t'(2) pre(1,3,4,5) this pre(6) lg, unfolded v] obtain u where
    u': "?g k t' = Ok u \<and> cache D h p (if r then ?Q else ?Q(?n := ?Q ?n - 1)) {} ((apply_writes (?ws k) V)(?n := V ?m)) u
      \<and> disk u = (disk t')(?n := V ?m) \<and> dtrace u = dtrace t' @ [(?n, V ?m)] \<and> beside t' u" ..
  note u = u'[THEN conjunct1] u'[THEN conjunct2, THEN conjunct1] u'[THEN conjunct2, THEN conjunct2, THEN conjunct1]
    u'[THEN conjunct2, THEN conjunct2, THEN conjunct2, THEN conjunct1]
    u'[THEN conjunct2, THEN conjunct2, THEN conjunct2, THEN conjunct2]
  have fk: "?f k t = Ok u" unfolding t'(1) using u(1) by simp
  show ?case
    unfolding pre(7)
    using t(1,3,4) fk u(2-4) t'(3,4) beside_trans[OF t'(5) u(5)] by (simp add: rfold_append Let_def)
qed

section \<open>Recovery\<close>

text \<open>What recovery makes of a disk: it copies the blocks that the header names and clears the header.\<close>

definition redo :: "u32 \<Rightarrow> (u32 \<Rightarrow> block) \<Rightarrow> u32 \<Rightarrow> block" where
  "redo st d =
     (let ws = map (\<lambda>i. (get32 (d st) (4 + 4 * i), d (log_home st i))) (upto_int (get32 (d st) 0));
          d' = apply_writes ws d
      in d'(st := put32 0 0 (d' st)))"

text \<open>A header that recovery can use.\<close>

definition head_ok :: "u32 \<Rightarrow> block \<Rightarrow> bool" where
  "head_ok st d \<longleftrightarrow> sint (get32 d 0) \<le> int LOGBLOCKS \<and>
     (\<forall>i<nat (sint (get32 d 0)). get32 d (4 + 4 * i) \<notin> log_area st)"

lemma fold_upd_upto: "fold (\<lambda>i t. t(i := f i)) [0..<k] g i = (if i < k then f i else g i)"
  by (induction k) auto

lemma cache_more [simp]:
  "disk (s\<lparr>lh_n := k\<rparr>) = disk s" "dtrace (s\<lparr>lh_n := k\<rparr>) = dtrace s" for s :: "'a logst_scheme"
  by simp_all

lemma read_head_spec:
  fixes s :: "'a logst_scheme"
  assumes c: "cache D h p (\<lambda>_. 0) {} V s" and D: "log_dev s = D" and st: "log_start s = st"
    and hd: "sint (get32 (V st) 0) \<le> int LOGBLOCKS"
  shows "\<exists>s'. read_head h s = Ok s' \<and> cache D h p (\<lambda>_. 0) {} V s' \<and> disk s' = disk s \<and> dtrace s' = dtrace s \<and>
     log_dev s' = D \<and> log_start s' = st \<and> out_ok s' = out_ok s \<and> lh_n s' = get32 (V st) 0 \<and>
     (\<forall>i<nat (sint (get32 (V st) 0)). lh_block s' i = get32 (V st) (4 + 4 * i))"
proof -
  let ?R = "\<lambda>_ :: u32. 0 :: nat" and ?n = "get32 (V st) 0"
  have e: "st \<notin> {}" "room ?R st" "Suc (?R st) < 2 ^ 32" by (simp_all add: room_def NBUF_def)
  obtain b s1 where
    s1: "bread h D st s = Ok (b, s1)" "cache D h p (?R(st := Suc (?R st))) (insert st {}) V s1" "holds_at D (bufs s1) b st"
      "disk s1 = disk s" "dtrace s1 = dtrace s" "beside s s1"
    by (rule bread_spec[OF c e])
  have L: "st \<in> insert st {}" by simp
  have data: "b_data (bufs s1 b) = V st" using held_buffer(4)[OF s1(2) L s1(3)] .
  let ?blk = "fold (\<lambda>i t. t(i := get32 (V st) (4 + 4 * i))) (upto_int ?n) (lh_block s1)"
  let ?s2 = "s1\<lparr>lh_n := ?n, lh_block := ?blk\<rparr>"
  have c2: "cache D h p (?R(st := Suc (?R st))) (insert st {}) V ?s2" using s1(2) by simp
  have at2: "holds_at D (bufs ?s2) b st" using s1(3) by simp
  have q: "(?R(st := Suc (?R st))) st = 1 \<longrightarrow> V st = disk ?s2 st" using table_okD(7)[OF cacheD(2)[OF c], of st] s1(4) by simp
  obtain s3 where
    s3: "brelse h b ?s2 = Ok s3" "cache D h p (?R(st := Suc (?R st), st := (?R(st := Suc (?R st))) st - 1)) (insert st {} - {st}) V s3"
      "disk s3 = disk ?s2" "dtrace s3 = dtrace ?s2" "beside ?s2 s3"
    by (rule brelse_spec[OF c2 L at2 q])
  have "?R(st := Suc (?R st), st := (?R(st := Suc (?R st))) st - 1) = ?R" "insert st {} - {st} = {}" by auto
  from s3(2)[unfolded this] have c3: "cache D h p ?R {} V s3" .
  have l1: "log_dev s1 = D" "log_start s1 = st" using beside_log[OF s1(6)] D st by simp_all
  have l3: "log_dev s3 = D" "log_start s3 = st" "lh_n s3 = ?n" "lh_block s3 = ?blk" using beside_log[OF s3(5)] l1 by simp_all
  have o: "out_ok s3 = out_ok s" using beside_out[OF s3(5)] beside_out[OF s1(6)] by (simp add: out_ok_def lock_free_def)
  have "read_head h s = Ok s3"
    using s1(1) s3(1) hd by (simp add: read_head_def D st Let_def data)
  with c3 l3 o s1(4,5) s3(3,4) show ?thesis
    by (intro exI[of _ s3]) (simp add: upto_int_def fold_upd_upto)
qed

lemma put32_zero_head: "head_block 0 blk d = put32 0 0 d"
  by (simp add: head_block_def upto_int_def)

lemma room_zero: "room (\<lambda>_. 0) n"
  by (simp add: room_def NBUF_def)

text \<open>\<^const>\<open>recover_from_log\<close> returns and implements \<^const>\<open>redo\<close>.\<close>

lemma recover_redo:
  fixes s :: "'a logst_scheme"
  assumes c: "cache D h p (\<lambda>_. 0) {} (disk s) s" and D: "log_dev s = D" and st: "log_start s = st" and "out_ok s"
    and hd: "head_ok st (disk s st)"
  shows "\<exists>s'. recover_from_log h s = Ok s' \<and> disk s' = redo st (disk s) \<and> cache D h p (\<lambda>_. 0) {} (disk s') s' \<and>
     lh_n s' = 0"
proof -
  let ?n = "get32 (disk s st) 0" and ?R = "\<lambda>_ :: u32. 0 :: nat"
  have le: "sint ?n \<le> int LOGBLOCKS" using hd by (simp add: head_ok_def)
  from read_head_spec[OF c D st le] obtain t where
    t: "read_head h s = Ok t" "cache D h p ?R {} (disk s) t" "disk t = disk s" "log_dev t = D" "log_start t = st"
      "out_ok t" "lh_n t = ?n" "\<forall>i<nat (sint ?n). lh_block t i = get32 (disk s st) (4 + 4 * i)"
    using assms(4) by blast
  have "installable True (nat (sint ?n)) ?R t"
    using hd t(5,6,8) by (auto simp: installable_def head_ok_def)
  from install_loop[OF t(2,4) this] obtain u where
    u: "install_trans h True t = Ok u" "beside t u"
      "let ws = map (\<lambda>i. (lh_block t i, disk s (log_home st i))) [0..<nat (sint ?n)]
       in cache D h p ?R {} (apply_writes ws (disk s)) u \<and> disk u = apply_writes ws (disk t)"
    unfolding install_trans_def t(7) upto_int_def t(5) by (auto simp: Let_def unpinned_def)
  let ?ws = "map (\<lambda>i. (get32 (disk s st) (4 + 4 * i), disk s (log_home st i))) [0..<nat (sint ?n)]"
  have ws: "map (\<lambda>i. (lh_block t i, disk s (log_home st i))) [0..<nat (sint ?n)] = ?ws" using t(8) by simp
  from u(3) have cu: "cache D h p ?R {} (apply_writes ?ws (disk s)) u" "disk u = apply_writes ?ws (disk s)"
    unfolding ws t(3) by (simp_all add: Let_def)
  let ?v = "u\<lparr>lh_n := 0\<rparr>"
  have "cache D h p ?R {} (disk u) ?v" "log_dev ?v = D" "log_start ?v = st"
    using cu beside_log[OF u(2)] t(4,5) by simp_all
  from write_head_spec[OF this(1) room_zero _ this(2,3)] obtain w where
    w: "write_head h ?v = Ok w" "cache D h p ?R {} ((disk u)(st := put32 0 0 (disk u st))) w"
      "disk w = (disk u)(st := put32 0 0 (disk u st))" "beside ?v w" by (auto simp: put32_zero_head)
  have "lh_n w = 0" using beside_log(3)[OF w(4)] by simp
  moreover have "redo st (disk s) = disk w"
    using w(3) cu(2) by (simp add: redo_def Let_def upto_int_def)
  ultimately show ?thesis
    using t(1) u(1) w(1,2,3) by (intro exI[of _ w]) (simp add: recover_from_log_def)
qed

end
