(* ===== verification/Log_Props.thy ===== *)
theory Log_Props
  imports Log_Spec Proc_Props
begin

text \<open>
  Transactions are atomic: wherever a commit is cut off, recovery finds all of its writes or none. And the limit
  of the log is not the limit of the cache: a commit of a full log finds no buffer.
\<close>

section \<open>The writes of a commit\<close>

definition log_len :: "'a logst_scheme \<Rightarrow> nat" where
  "log_len s = nat (sint (lh_n s))"

definition pins :: "'a logst_scheme \<Rightarrow> u32 \<Rightarrow> nat" where
  "pins s m = (if m \<in> lh_block s ` {..<log_len s} then 1 else 0)"

text \<open>A transaction that waits for its commit: its blocks are different, outside the log, and pinned in the cache; the
  cache shows the contents \<open>V\<close>; the header on the disk is clear.\<close>

definition commit_ready :: "nat \<Rightarrow> nat \<Rightarrow> (u32 \<Rightarrow> block) \<Rightarrow> 'a logst_scheme \<Rightarrow> bool" where
  "commit_ready h p V s \<longleftrightarrow>
     0 < sint (lh_n s) \<and> log_len s < NBUF \<and> inj_on (lh_block s) {..<log_len s} \<and>
     (\<forall>i<log_len s. lh_block s i \<notin> log_area (log_start s)) \<and>
     cache (log_dev s) h p (pins s) {} V s \<and> get32 (disk s (log_start s)) 0 = 0"

definition log_writes :: "u32 \<Rightarrow> nat \<Rightarrow> (nat \<Rightarrow> u32) \<Rightarrow> (u32 \<Rightarrow> block) \<Rightarrow> (u32 \<times> block) list" where
  "log_writes st n blk V = map (\<lambda>i. (log_home st i, V (blk i))) [0..<n]"

definition home_writes :: "nat \<Rightarrow> (nat \<Rightarrow> u32) \<Rightarrow> (u32 \<Rightarrow> block) \<Rightarrow> (u32 \<times> block) list" where
  "home_writes n blk V = map (\<lambda>i. (blk i, V (blk i))) [0..<n]"

definition commit_writes :: "u32 \<Rightarrow> i32 \<Rightarrow> (nat \<Rightarrow> u32) \<Rightarrow> (u32 \<Rightarrow> block) \<Rightarrow> block \<Rightarrow> (u32 \<times> block) list" where
  "commit_writes st n blk V old =
     log_writes st (nat (sint n)) blk V @ [(st, head_block n blk old)] @ home_writes (nat (sint n)) blk V @
     [(st, put32 0 0 (head_block n blk old))]"

lemma pins_card: "card {m. 0 < pins s m} \<le> log_len s"
proof -
  have "{m. 0 < pins s m} \<subseteq> lh_block s ` {..<log_len s}" by (auto simp: pins_def split: if_splits)
  then have "card {m. 0 < pins s m} \<le> card (lh_block s ` {..<log_len s})" by (intro card_mono) auto
  also have "\<dots> \<le> log_len s" using card_image_le[of "{..<log_len s}" "lh_block s"] by simp
  finally show ?thesis .
qed

lemma log_writes_other:
  assumes "m \<notin> log_area st \<or> m = st" and "n \<le> LOGBLOCKS"
  shows "m \<notin> fst ` set (log_writes st n blk V)"
proof
  assume "m \<in> fst ` set (log_writes st n blk V)"
  then obtain i where "i < n" "m = log_home st i" by (auto simp: log_writes_def)
  with assms log_home_area(1)[of i st] log_home_not_start[of i st] show False by simp
qed

lemma log_writes_home: "n \<le> LOGBLOCKS \<Longrightarrow> i < n \<Longrightarrow> apply_writes (log_writes st n blk V) d (log_home st i) = V (blk i)"
  unfolding log_writes_def
  by (rule apply_writes_map) (auto intro: inj_on_subset[OF log_home_inj])

lemma commit_spec:
  assumes r: "commit_ready h p V s"
  shows "\<exists>s'. commit h s = Ok s' \<and>
     dtrace s' = dtrace s @ commit_writes (log_start s) (lh_n s) (lh_block s) V (disk s (log_start s)) \<and>
     disk s' = apply_writes (commit_writes (log_start s) (lh_n s) (lh_block s) V (disk s (log_start s))) (disk s) \<and>
     lh_n s' = 0 \<and> (\<exists>V'. cache (log_dev s) h p (\<lambda>_. 0) {} V' s')"
proof -
  let ?D = "log_dev s" and ?st = "log_start s" and ?n = "log_len s" and ?blk = "lh_block s"
  from r have pos: "0 < sint (lh_n s)" and n: "?n < NBUF" "?n \<le> LOGBLOCKS" and inj: "inj_on ?blk {..<?n}"
    and out: "\<forall>i<?n. ?blk i \<notin> log_area ?st" and c: "cache ?D h p (pins s) {} V s"
    by (auto simp: commit_ready_def NBUF_def LOGBLOCKS_def)
  have free: "card {m. 0 < pins s m} < NBUF" using pins_card[of s] n(1) by simp
  have area: "\<forall>m\<in>log_area ?st. pins s m = 0" using out by (auto simp: pins_def)
  have pin: "\<forall>i<?n. ?blk i \<notin> log_area ?st \<and> pins s (?blk i) = 1" using out by (auto simp: pins_def)
  have st0: "pins s ?st = 0" using area log_home_area(2) by blast
  have Vst: "V ?st = disk s ?st" using table_okD(7)[OF cacheD(2)[OF c] st0] .
  let ?w1 = "log_writes ?st ?n ?blk V"
  from write_log_loop[OF c refl refl n(2) pin area free] obtain s1 where
    s1: "write_log h s = Ok s1" "cache ?D h p (pins s) {} (apply_writes ?w1 V) s1"
      "disk s1 = apply_writes ?w1 (disk s)" "dtrace s1 = dtrace s @ ?w1" "beside s s1"
    by (auto simp: Let_def write_log_def upto_int_def log_writes_def log_len_def)
  note l1 = beside_log[OF s1(5)]
  have "apply_writes ?w1 V ?st = disk s ?st"
    using apply_writes_other[OF log_writes_other[OF disjI2[OF refl] n(2)]] Vst by simp
  let ?H = "head_block (lh_n s) ?blk (disk s ?st)"
  have "room (pins s) ?st" using free by (simp add: room_def)
  from write_head_spec[OF s1(2) this st0 l1(2,1)] \<open>apply_writes ?w1 V ?st = disk s ?st\<close> obtain s2 where
    s2: "write_head h s1 = Ok s2" "cache ?D h p (pins s) {} ((apply_writes ?w1 V)(?st := ?H)) s2"
      "disk s2 = (disk s1)(?st := ?H)" "dtrace s2 = dtrace s1 @ [(?st, ?H)]" "beside s1 s2"
    by (auto simp: l1)
  note l2 = beside_log[OF beside_trans[OF s1(5) s2(5)]]
  have "installable False ?n (pins s) s2"
    using n(2) inj pin free area by (auto simp: installable_def l2)
  from install_loop[OF s2(2) l2(2) this] obtain s3 where
    s3: "install_trans h False s2 = Ok s3" "beside s2 s3"
      "let ws = map (\<lambda>i. (?blk i, ((apply_writes ?w1 V)(?st := ?H)) (log_home ?st i))) [0..<?n]
       in cache ?D h p (unpinned False ?blk ?n (pins s)) {} (apply_writes ws ((apply_writes ?w1 V)(?st := ?H))) s3 \<and>
          disk s3 = apply_writes ws (disk s2) \<and> dtrace s3 = dtrace s2 @ ws"
    by (auto simp: Let_def install_trans_def upto_int_def log_len_def l2)
  let ?w3 = "home_writes ?n ?blk V"
  have ws: "map (\<lambda>i. (?blk i, ((apply_writes ?w1 V)(?st := ?H)) (log_home ?st i))) [0..<?n] = ?w3"
    using log_writes_home[OF n(2)] log_home_not_start n(2) by (auto simp: home_writes_def)
  have R3: "unpinned False ?blk ?n (pins s) = (\<lambda>_. 0)" by (auto simp: unpinned_def pins_def fun_eq_iff)
  from s3(3) have c3: "cache ?D h p (\<lambda>_. 0) {} (apply_writes ?w3 ((apply_writes ?w1 V)(?st := ?H))) s3"
    and d3: "disk s3 = apply_writes ?w3 (disk s2)" "dtrace s3 = dtrace s2 @ ?w3"
    unfolding ws R3 by (simp_all add: Let_def)
  have stw: "?st \<notin> fst ` set ?w3" using out log_home_area(2)[of ?st] by (auto simp: home_writes_def)
  have V3: "apply_writes ?w3 ((apply_writes ?w1 V)(?st := ?H)) ?st = ?H" using apply_writes_other[OF stw] by simp
  let ?s4 = "s3\<lparr>lh_n := 0\<rparr>"
  note l3 = beside_log[OF beside_trans[OF beside_trans[OF s1(5) s2(5)] s3(2)]]
  have "cache ?D h p (\<lambda>_. 0) {} (apply_writes ?w3 ((apply_writes ?w1 V)(?st := ?H))) ?s4" "log_dev ?s4 = ?D" "log_start ?s4 = ?st"
    using c3 l3 by simp_all
  from write_head_spec[OF this(1) room_zero _ this(2,3)] V3 obtain s5 where
    s5: "write_head h ?s4 = Ok s5" "cache ?D h p (\<lambda>_. 0) {} ((apply_writes ?w3 ((apply_writes ?w1 V)(?st := ?H)))(?st := put32 0 0 ?H)) s5"
      "disk s5 = (disk s3)(?st := put32 0 0 ?H)" "dtrace s5 = dtrace s3 @ [(?st, put32 0 0 ?H)]" "beside ?s4 s5"
    by (auto simp: put32_zero_head)
  have "commit h s = Ok s5"
    using pos s1(1) s2(1) s3(1) s5(1) by (simp add: commit_def word_sless_alt)
  moreover have "lh_n s5 = 0" using beside_log(3)[OF s5(5)] by simp
  moreover have "dtrace s5 = dtrace s @ commit_writes ?st (lh_n s) ?blk V (disk s ?st)"
    using s1(4) s2(4) d3(2) s5(4) by (simp add: commit_writes_def log_len_def)
  moreover have "disk s5 = apply_writes (commit_writes ?st (lh_n s) ?blk V (disk s ?st)) (disk s)"
    using s1(3) s2(3) d3(1) s5(3) by (simp add: commit_writes_def log_len_def)
  ultimately show ?thesis using s5(2) by blast
qed

section \<open>Crashes\<close>

text \<open>The disk after the first \<open>k\<close> writes of a commit.\<close>

definition crashed :: "nat \<Rightarrow> (u32 \<times> block) list \<Rightarrow> (u32 \<Rightarrow> block) \<Rightarrow> u32 \<Rightarrow> block" where
  "crashed k ws d = apply_writes (take k ws) d"

lemma home_writes_apply:
  assumes "inj_on blk {..<n}"
  shows "apply_writes (home_writes n blk V) d m = (if m \<in> blk ` {..<n} then V m else d m)"
proof (cases "m \<in> blk ` {..<n}")
  case True
  then obtain i where "i < n" "m = blk i" by auto
  with apply_writes_map[OF assms, of i "\<lambda>i. V (blk i)" d] True show ?thesis by (simp add: home_writes_def)
qed (auto simp: home_writes_def intro!: apply_writes_other)

lemma redo_clear:
  assumes "get32 (d st) 0 = 0"
  shows "head_ok st (d st)" "m \<notin> log_area st \<Longrightarrow> redo st d m = d m"
  using assms log_home_area(2)[of st] by (auto simp: head_ok_def redo_def Let_def upto_int_def)

lemma redo_full:
  assumes n: "0 \<le> sint n" "nat (sint n) \<le> LOGBLOCKS" and hd: "d st = head_block n blk old"
    and inj: "inj_on blk {..<nat (sint n)}" and out: "\<forall>i<nat (sint n). blk i \<notin> log_area st"
    and lg: "\<forall>i<nat (sint n). d (log_home st i) = V (blk i)"
  shows "head_ok st (d st)"
    "m \<notin> log_area st \<Longrightarrow> redo st d m = (if m \<in> blk ` {..<nat (sint n)} then V m else d m)"
proof -
  show "head_ok st (d st)" using n out by (auto simp: head_ok_def hd head_block_get)
  assume m: "m \<notin> log_area st"
  have "map (\<lambda>i. (get32 (d st) (4 + 4 * i), d (log_home st i))) (upto_int (get32 (d st) 0)) =
        home_writes (nat (sint n)) blk V"
    using lg by (simp add: hd head_block_get upto_int_def home_writes_def)
  with m log_home_area(2)[of st] home_writes_apply[OF inj, of V d m]
  show "redo st d m = (if m \<in> blk ` {..<nat (sint n)} then V m else d m)"
    by (auto simp: redo_def Let_def)
qed

lemma crash_redo:
  assumes n: "0 < sint n" "nat (sint n) \<le> LOGBLOCKS" and clear: "get32 (d st) 0 = 0"
    and inj: "inj_on blk {..<nat (sint n)}" and out: "\<forall>i<nat (sint n). blk i \<notin> log_area st"
    and k: "k \<le> length (commit_writes st n blk V (d st))"
  defines "e \<equiv> crashed k (commit_writes st n blk V (d st)) d"
  shows "head_ok st (e st) \<and> (\<forall>m. m \<notin> log_area st \<longrightarrow>
     redo st e m = (if nat (sint n) < k \<and> m \<in> blk ` {..<nat (sint n)} then V m else d m))"
proof -
  let ?n = "nat (sint n)" and ?H = "head_block n blk (d st)"
  let ?w1 = "log_writes st ?n blk V" and ?w3 = "home_writes ?n blk V"
  have len: "length ?w1 = ?n" "length ?w3 = ?n" by (simp_all add: log_writes_def home_writes_def)
  have k_le: "k \<le> 2 * ?n + 2" using k len by (simp add: commit_writes_def)
  let ?d1 = "apply_writes ?w1 d"
  have d1: "?d1 st = d st" "m \<notin> log_area st \<Longrightarrow> ?d1 m = d m" "i < ?n \<Longrightarrow> ?d1 (log_home st i) = V (blk i)" for m i
    using apply_writes_other[OF log_writes_other[OF _ n(2)]] log_writes_home[OF n(2)] by simp_all
  have sub3: "fst ` set (take j ?w3) \<subseteq> blk ` {..<?n}" for j
  proof -
    have "fst ` set (take j ?w3) \<subseteq> fst ` set ?w3" by (intro image_mono set_take_subset)
    also have "\<dots> = blk ` {..<?n}" by (auto simp: home_writes_def image_image)
    finally show ?thesis .
  qed
  have no3: "m \<notin> fst ` set (take j ?w3)" if "m \<in> log_area st" for m j
  proof
    assume "m \<in> fst ` set (take j ?w3)"
    from subsetD[OF sub3 this] obtain i where "i < ?n" "m = blk i" by (elim imageE) simp
    with out that show False by simp
  qed
  have "k \<le> ?n \<or> (k = ?n + 1 + (k - ?n - 1) \<and> k - ?n - 1 \<le> ?n) \<or> k = 2 * ?n + 2" using k_le by arith
  then consider "k \<le> ?n" | j where "k = ?n + 1 + j" "j \<le> ?n" | "k = 2 * ?n + 2" by blast
  then show ?thesis
  proof cases
    case 1
    then have e: "e = apply_writes (take k ?w1) d" by (simp add: e_def crashed_def commit_writes_def len)
    have sub1: "fst ` set (take k ?w1) \<subseteq> fst ` set ?w1" by (intro image_mono set_take_subset)
    have same: "e m = d m" if "m \<notin> log_area st \<or> m = st" for m
      unfolding e by (rule apply_writes_other) (use log_writes_other[OF that n(2), of blk V] sub1 in blast)
    then have "get32 (e st) 0 = 0" using clear by simp
    note z = redo_clear[of e st, OF this]
    show ?thesis using z(1) z(2) same 1 by (metis not_le)
  next
    case (2 j)
    then have e: "e = apply_writes (take j ?w3) (?d1(st := ?H))" by (simp add: e_def crashed_def commit_writes_def len)
    have "e st = ?H" unfolding e using apply_writes_other[OF no3[OF log_home_area(2)]] by simp
    moreover have "e (log_home st i) = V (blk i)" if "i < ?n" for i
      unfolding e using apply_writes_other[OF no3[OF log_home_area(1)]] that n(2) d1(3) log_home_not_start by simp
    moreover have "e m = d m" if "m \<notin> log_area st" "m \<notin> blk ` {..<?n}" for m
    proof -
      have "m \<notin> fst ` set (take j ?w3)" using that(2) sub3[of j] by blast
      then show ?thesis unfolding e using apply_writes_other that(1) d1(2) log_home_area(2)[of st] by auto
    qed
    ultimately have hd: "e st = ?H" "\<forall>i<?n. e (log_home st i) = V (blk i)"
      and other: "\<And>m. m \<notin> log_area st \<Longrightarrow> m \<notin> blk ` {..<?n} \<Longrightarrow> e m = d m" by blast+
    have pos: "0 \<le> sint n" using n(1) by simp
    note z = redo_full[of n e st blk "d st" V, OF pos n(2) hd(1) inj out hd(2)]
    have "?n < k" using 2 by simp
    with z other show ?thesis by simp
  next
    case 3
    then have e: "e = (apply_writes ?w3 (?d1(st := ?H)))(st := put32 0 0 ?H)"
      by (simp add: e_def crashed_def commit_writes_def len)
    have "get32 (e st) 0 = 0" by (simp add: e get32_put32)
    note z = redo_clear[of e st, OF this]
    have "e m = (if m \<in> blk ` {..<?n} then V m else d m)" if "m \<notin> log_area st" for m
    proof -
      have "m \<noteq> st" using that log_home_area(2)[of st] by auto
      then show ?thesis using home_writes_apply[OF inj, of V "?d1(st := ?H)" m] d1(2)[OF that] by (simp add: e)
    qed
    moreover have "?n < k" using 3 by simp
    ultimately show ?thesis using z by simp
  qed
qed

text \<open>A machine that boots after the crash with the disk \<open>d\<close>: an unused cache and a working console.\<close>

definition rebooted :: "nat \<Rightarrow> nat \<Rightarrow> u32 \<Rightarrow> u32 \<Rightarrow> (u32 \<Rightarrow> block) \<Rightarrow> 'a logst_scheme \<Rightarrow> bool" where
  "rebooted g q dev st d r \<longleftrightarrow> disk r = d \<and> cache dev g q (\<lambda>_. 0) {} d r \<and> log_dev r = dev \<and> log_start r = st \<and> out_ok r"

section \<open>A machine for the witnesses\<close>

text \<open>Hart 0 runs process 0; \<open>k\<close> blocks, from 100 on, wait for their commit; the log starts at block 2.\<close>

definition demo_bufs :: "nat \<Rightarrow> nat \<Rightarrow> buf" where
  "demo_bufs k b = \<lparr>b_valid = b < k, b_dev = if b < k then 1 else 0, b_blockno = 100 + of_nat b,
     b_refcnt = if b < k then 1 else 0, b_prev = if b = 0 then 30 else b - 1, b_next = if b = 30 then 0 else b + 1,
     b_data = \<lambda>_. 7\<rparr>"

definition demo_log :: "nat \<Rightarrow> logst" where
  "demo_log k = \<lparr>cpus = \<lambda>_. \<lparr>c_proc = Some 0, noff = 0, intena = False\<rparr>, sie = \<lambda>_. False,
     locks = \<lambda>_. \<lparr>lk_name = [], locked = 0, lk_cpu = None\<rparr>, mem = \<lambda>_. 0, freelist = 0, kend = 0,
     procs = \<lambda>_. blank_proc, initproc = None, nextpid = 1, ticks = 0, forkret_sym = 0, trampoline_sym = 0,
     uout = [], uin = [], utx_idle = True, panicking = False, panicked = False,
     tx_busy = False, cons_buf = \<lambda>_. 0, cons_r = 0, cons_w = 0, cons_e = 0,
     sleeplocks = \<lambda>_. \<lparr>sl_name = [], sl_locked = 0, sl_pid = 0\<rparr>,
     bufs = demo_bufs k, disk = \<lambda>_ _. 0, dtrace = [],
     log_start = 2, log_outstanding = 0, log_committing = True, log_dev = 1, log_ncommit = 0,
     lh_n = of_nat k, lh_block = \<lambda>i. 100 + of_nat i\<rparr>"

definition demo_view :: "nat \<Rightarrow> u32 \<Rightarrow> block" where
  "demo_view k n = (if n \<in> (\<lambda>i. 100 + of_nat i) ` {..<k} then (\<lambda>_. 7) else (\<lambda>_. 0))"

lemma demo_inj: "k \<le> 30 \<Longrightarrow> inj_on (\<lambda>i. 100 + of_nat i :: u32) {..<k}"
proof (rule inj_onI)
  fix i j assume "k \<le> 30" "i \<in> {..<k}" "j \<in> {..<k}" "(100 + of_nat i :: u32) = 100 + of_nat j"
  then have "unat (of_nat i :: u32) = unat (of_nat j :: u32)" "i < 2 ^ 32" "j < 2 ^ 32" by simp_all
  then show "i = j" by (simp add: unat_of_nat)
qed

lemma demo_outside: "i < 30 \<Longrightarrow> (100 + of_nat i :: u32) \<notin> log_area 2"
proof
  assume i: "i < 30" and "(100 + of_nat i :: u32) \<in> log_area 2"
  then obtain j where j: "(100 + of_nat i :: u32) = 2 + of_nat j" "j \<le> 30" by (auto simp: log_area_def LOGBLOCKS_def)
  then have "unat (of_nat (100 + i) :: u32) = unat (of_nat (2 + j) :: u32)" by (simp only: of_nat_add of_nat_numeral)
  then show False using i j(2) by (simp only: unat_of_nat) simp
qed

lemma demo_len: "k \<le> 30 \<Longrightarrow> log_len (demo_log k) = k"
proof -
  assume "k \<le> 30"
  then have "sint (of_int (int k) :: i32) = int k" by (intro sint_of_int_i32) simp_all
  then show ?thesis by (simp add: log_len_def demo_log_def)
qed

lemma demo_leads:
  "k \<le> 29 \<Longrightarrow> leads (\<lambda>b. b_next (demo_bufs n b)) k [Suc k..<30] 30"
  "k \<le> 29 \<Longrightarrow> leads (\<lambda>b. b_prev (demo_bufs n b)) (Suc k) (rev [0..<Suc k]) 30"
proof -
  show "k \<le> 29 \<Longrightarrow> leads (\<lambda>b. b_next (demo_bufs n b)) k [Suc k..<30] 30"
  proof (induction "29 - k" arbitrary: k)
    case (Suc x)
    then have "[Suc k..<30] = Suc k # [Suc (Suc k)..<30]" by (simp add: upt_conv_Cons)
    moreover have "leads (\<lambda>b. b_next (demo_bufs n b)) (Suc k) [Suc (Suc k)..<30] 30" using Suc by simp
    ultimately show ?case using Suc.prems by (simp add: demo_bufs_def)
  qed (simp add: demo_bufs_def)
  show "k \<le> 29 \<Longrightarrow> leads (\<lambda>b. b_prev (demo_bufs n b)) (Suc k) (rev [0..<Suc k]) 30"
    by (induction k) (simp_all add: demo_bufs_def)
qed

lemma demo_ring: "ring [0..<30] (demo_bufs k)"
proof -
  have "[0..<30] = 0 # [Suc 0..<30]" by (simp add: upt_conv_Cons)
  then have "leads (\<lambda>b. b_next (demo_bufs k b)) 30 [0..<30] 30"
    using demo_leads(1)[of 0 k] by (simp only: leads.simps) (simp add: demo_bufs_def)
  moreover have "b_prev (demo_bufs k 30) = 29" by (simp add: demo_bufs_def)
  then have "leads (\<lambda>b. b_prev (demo_bufs k b)) 30 (rev [0..<30]) 30" using demo_leads(2)[of 29 k] by simp
  ultimately show ?thesis unfolding ring_def NBUF_def by (auto simp only: distinct_upt set_upt atLeast0LessThan)
qed

lemma demo_holds: "k \<le> 30 \<Longrightarrow> holds_at 1 (demo_bufs k) b n \<longleftrightarrow> b < k \<and> n = 100 + of_nat b"
  by (auto simp: holds_at_def demo_bufs_def NBUF_def)

lemma demo_pins: "k \<le> 30 \<Longrightarrow> pins (demo_log k) n = (if n \<in> (\<lambda>i. 100 + of_nat i) ` {..<k} then 1 else 0)"
  unfolding pins_def by (simp add: demo_len) (simp add: demo_log_def)

lemma demo_table:
  assumes k: "k \<le> 30" and d: "\<And>n. pins (demo_log k) n = 0 \<Longrightarrow> V n = d n" "\<And>n. pins (demo_log k) n \<noteq> 0 \<Longrightarrow> V n = (\<lambda>_. 7)"
  shows "table_ok 1 (pins (demo_log k)) V d (demo_bufs k)"
  unfolding table_ok_def demo_holds[OF k]
proof (intro conjI allI impI)
  fix a b and n :: u32 assume "(a < k \<and> n = 100 + of_nat a) \<and> b < k \<and> n = 100 + of_nat b"
  then show "a = b" using demo_inj[OF k] by (auto dest: inj_onD)
qed (use d in \<open>auto simp: demo_pins[OF k] demo_bufs_def split: if_splits\<close>)

lemma demo_cache:
  assumes k: "k \<le> 30" and d: "\<And>n. pins (demo_log k) n = 0 \<Longrightarrow> V n = d n" "\<And>n. pins (demo_log k) n \<noteq> 0 \<Longrightarrow> V n = (\<lambda>_. 7)"
  shows "cache 1 0 0 (pins (demo_log k)) {} V (demo_log k\<lparr>disk := d\<rparr>)"
proof (rule cacheI[where bs = "[0..<30]"])
  show "ring [0..<30] (bufs (demo_log k\<lparr>disk := d\<rparr>))" using demo_ring by (simp add: demo_log_def)
  show "table_ok 1 (pins (demo_log k)) V (disk (demo_log k\<lparr>disk := d\<rparr>)) (bufs (demo_log k\<lparr>disk := d\<rparr>))"
    using demo_table[OF k d] by (simp add: demo_log_def)
  show "calm 0 0 (demo_log k\<lparr>disk := d\<rparr>)" by (simp add: calm_def table_free_def hart_ok_def lock_free_def demo_log_def)
qed (simp_all add: demo_log_def)

lemma demo_view_cache: "k \<le> 30 \<Longrightarrow> cache 1 0 0 (pins (demo_log k)) {} (demo_view k) (demo_log k)"
proof -
  assume k: "k \<le> 30"
  have "demo_log k\<lparr>disk := \<lambda>_ _. 0\<rparr> = demo_log k" by (simp add: demo_log_def)
  moreover have "cache 1 0 0 (pins (demo_log k)) {} (demo_view k) (demo_log k\<lparr>disk := \<lambda>_ _. 0\<rparr>)"
    by (rule demo_cache[OF k]) (auto simp: demo_view_def demo_pins[OF k] split: if_splits)
  ultimately show ?thesis by simp
qed

lemma demo_reboot: "rebooted 0 0 1 2 d (demo_log 0\<lparr>disk := d\<rparr>)"
proof -
  have "pins (demo_log 0) = (\<lambda>_. 0)" by (rule ext) (simp add: demo_pins)
  then show ?thesis using demo_cache[of 0 d d] by (simp add: rebooted_def) (simp add: demo_log_def out_ok_def lock_free_def)
qed

text \<open>
  C2 (safety): transactions are atomic. \<^verbatim>\<open>commit\<close> returns, and if the machine stops after any number \<open>k\<close> of its disk
  writes and boots again, \<^verbatim>\<open>recover_from_log\<close> returns and leaves every block outside the log either as it was before the
  transaction (when at most the copies to the log were written) or with all of its changes (once the header was
  written), never a mixture.\<close>

theorem commit_crash_atomic:
  fixes s :: "'a logst_scheme"
  assumes "commit_ready h p V s"
  shows "\<exists>s' ws. commit h s = Ok s' \<and> dtrace s' = dtrace s @ ws \<and> disk s' = apply_writes ws (disk s) \<and>
     (\<forall>k g q. \<forall>r :: 'a logst_scheme. k \<le> length ws \<and> rebooted g q (log_dev s) (log_start s) (crashed k ws (disk s)) r \<longrightarrow>
        (\<exists>r'. recover_from_log g r = Ok r' \<and>
           (\<forall>m. m \<notin> log_area (log_start s) \<longrightarrow>
              disk r' m = (if k \<le> log_len s then disk s m else V m))))"
proof -
  let ?st = "log_start s" and ?blk = "lh_block s"
  let ?ws = "commit_writes ?st (lh_n s) ?blk V (disk s ?st)"
  from assms have c: "0 < sint (lh_n s)" "nat (sint (lh_n s)) \<le> LOGBLOCKS" "get32 (disk s ?st) 0 = 0"
    "inj_on ?blk {..<nat (sint (lh_n s))}" "\<forall>i<nat (sint (lh_n s)). ?blk i \<notin> log_area ?st"
    and ch: "cache (log_dev s) h p (pins s) {} V s"
    by (auto simp: commit_ready_def log_len_def NBUF_def LOGBLOCKS_def)
  have V: "V m = disk s m" if "m \<notin> ?blk ` {..<nat (sint (lh_n s))}" for m
    using table_okD(7)[OF cacheD(2)[OF ch], of m] that by (simp add: pins_def log_len_def)
  have "\<exists>r'. recover_from_log g r = Ok r' \<and>
          (\<forall>m. m \<notin> log_area ?st \<longrightarrow> disk r' m = (if k \<le> log_len s then disk s m else V m))"
    if k: "k \<le> length ?ws" and r: "rebooted g q (log_dev s) ?st (crashed k ?ws (disk s)) r" for k g q and r :: "'a logst_scheme"
  proof -
    let ?e = "crashed k ?ws (disk s)"
    note e = crash_redo[of "lh_n s" "disk s" ?st ?blk k V, OF c k]
    from r have "cache (log_dev s) g q (\<lambda>_. 0) {} (disk r) r" "log_dev r = log_dev s" "log_start r = ?st" "out_ok r"
      and d: "disk r = ?e" by (simp_all add: rebooted_def)
    from recover_redo[OF this(1-4)] e d obtain r' where r': "recover_from_log g r = Ok r'" "disk r' = redo ?st ?e" by auto
    moreover have "redo ?st ?e m = (if k \<le> log_len s then disk s m else V m)" if "m \<notin> log_area ?st" for m
      using e that V[of m] by (auto simp: log_len_def)
    ultimately show ?thesis by auto
  qed
  then have "\<forall>k g q. \<forall>r :: 'a logst_scheme. k \<le> length ?ws \<and> rebooted g q (log_dev s) ?st (crashed k ?ws (disk s)) r \<longrightarrow>
     (\<exists>r'. recover_from_log g r = Ok r' \<and>
        (\<forall>m. m \<notin> log_area ?st \<longrightarrow> disk r' m = (if k \<le> log_len s then disk s m else V m)))"
    by blast
  moreover obtain s' where "commit h s = Ok s'" "dtrace s' = dtrace s @ ?ws" "disk s' = apply_writes ?ws (disk s)"
    using commit_spec[OF assms] by blast
  ultimately show ?thesis by (intro exI[of _ s'] exI[of _ ?ws]) simp
qed

theorem commit_crash_atomic_witness:
  "\<exists>s' ws r'. commit 0 (demo_log 1) = Ok s' \<and> dtrace s' = ws \<and>
     recover_from_log 0 (demo_log 0\<lparr>disk := crashed 2 ws (\<lambda>_ _. 0)\<rparr>) = Ok r' \<and> disk r' 100 = (\<lambda>_. 7)"
proof -
  have f: "log_len (demo_log 1) = 1" "log_start (demo_log 1) = 2" "log_dev (demo_log 1) = 1" "disk (demo_log 1) = (\<lambda>_ _. 0)"
    "dtrace (demo_log 1) = []" "lh_n (demo_log 1) = 1" "lh_block (demo_log 1) = (\<lambda>i. 100 + of_nat i)"
    by (rule demo_len) (simp_all add: demo_log_def)
  have r: "commit_ready 0 0 (demo_view 1) (demo_log 1)"
    unfolding commit_ready_def f using demo_view_cache[of 1] demo_outside[of 0] by (simp add: NBUF_def get32_def inj_on_def)
  have l: "(100 :: u32) \<notin> log_area 2" using demo_outside[of 0] by simp
  from commit_crash_atomic[OF r, unfolded f] obtain s' ws where w: "commit 0 (demo_log 1) = Ok s'" "dtrace s' = [] @ ws" and
    a: "\<And>k g q (r :: logst). k \<le> length ws \<and> rebooted g q 1 2 (crashed k ws (\<lambda>_ _. 0)) r \<Longrightarrow>
        \<exists>r'. recover_from_log g r = Ok r' \<and> (\<forall>m. m \<notin> log_area 2 \<longrightarrow> disk r' m = (if k \<le> 1 then \<lambda>_. 0 else demo_view 1 m))"
    by blast
  from commit_spec[OF r, unfolded f] w have "2 \<le> length ws" by (auto simp: commit_writes_def)
  from a[OF conjI[OF this demo_reboot]] obtain r' where
    "recover_from_log 0 (demo_log 0\<lparr>disk := crashed 2 ws (\<lambda>_ _. 0)\<rparr>) = Ok r'" "disk r' 100 = (\<lambda>_. 7)"
    using l by (auto simp: demo_view_def)
  with w show ?thesis by auto
qed

section \<open>A full log\<close>

lemma all_referenced:
  assumes t: "table_ok D R V d B" and c: "NBUF \<le> card {m. 0 < R m}" and "b < NBUF"
  shows "b_refcnt (B b) \<noteq> 0"
proof -
  let ?S = "{b. b < NBUF \<and> (\<exists>n. 0 < R n \<and> holds_at D B b n)}"
  have "{m. 0 < R m} \<subseteq> (\<lambda>b. b_blockno (B b)) ` ?S"
  proof
    fix m assume "m \<in> {m. 0 < R m}"
    with table_okD(6)[OF t, of m] obtain b where b: "0 < R m" "holds_at D B b m" by auto
    then have "b \<in> ?S" "b_blockno (B b) = m" by (auto simp: holds_at_def)
    then show "m \<in> (\<lambda>b. b_blockno (B b)) ` ?S" by auto
  qed
  then have "card {m. 0 < R m} \<le> card ?S" by (intro surj_card_le) auto
  with c have "card ?S \<ge> card {..<NBUF}" by simp
  then have "?S = {..<NBUF}" by (intro card_seteq) auto
  with assms(3) obtain n where n: "0 < R n" "holds_at D B b n" by auto
  from table_okD(4)[OF t n(2)] n(1) show ?thesis by auto
qed

lemma bget_exhausted:
  assumes c: "calm h p s" and r: "ring bs (bufs s)" and "pick_buf dev bno bs (bufs s) = None"
  shows "bget h dev bno s = Panic ''bget: no buffers''"
proof -
  have P: "(\<lambda>b. b_dev (bufs s b) = dev \<and> b_blockno (bufs s b) = bno) = hit dev bno (bufs s)"
    by (simp add: hit_def fun_eq_iff)
  have "find (hit dev bno (bufs s)) bs = None" "find (\<lambda>b. b_refcnt (bufs s b) = 0) (rev bs) = None"
    using assms(3) by (auto simp: pick_buf_def split: option.splits)
  then show ?thesis
    by (simp add: bget_def acquire_free[OF calmD(4)[OF c]] ring_walks[OF r] P)
qed

text \<open>
  C17 (error): the log may hold as many blocks as the cache has buffers, and it keeps each of them pinned. When a
  transaction has filled the log, which \<^verbatim>\<open>log_write\<close> allows, no buffer is left for the log block that
  \<^verbatim>\<open>write_log\<close> reads first, and the commit panics.\<close>

theorem full_log_commit_panics:
  assumes "lh_n s = of_nat LOGBLOCKS" and "inj_on (lh_block s) {..<LOGBLOCKS}"
    and "\<forall>i<LOGBLOCKS. lh_block s i \<notin> log_area (log_start s)" and "cache (log_dev s) h p (pins s) {} V s"
  shows "commit h s = Panic ''bget: no buffers''"
proof -
  let ?m = "log_home (log_start s) 0"
  have len: "log_len s = LOGBLOCKS" "0 <s lh_n s" using assms(1) by (simp_all add: log_len_def LOGBLOCKS_def word_sless_alt)
  obtain bs where r: "ring bs (bufs s)" using assms(4) by (auto simp: cache_def)
  have "{m. 0 < pins s m} = lh_block s ` {..<LOGBLOCKS}" by (auto simp: pins_def len)
  then have card: "NBUF \<le> card {m. 0 < pins s m}"
    using card_image[OF assms(2)] by (simp add: NBUF_def LOGBLOCKS_def)
  have "pins s ?m = 0" using assms(3) log_home_area(1)[of 0 "log_start s"] by (auto simp: pins_def len LOGBLOCKS_def)
  then have "pick_buf (log_dev s) ?m bs (bufs s) = None"
    using pick_buf_none[OF cacheD(2)[OF assms(4)] r] all_referenced[OF cacheD(2)[OF assms(4)] card] by blast
  then have "bread h (log_dev s) ?m s = Panic ''bget: no buffers''"
    using bget_exhausted[OF cacheD(1)[OF assms(4)] r] by (simp add: bread_def)
  moreover have "upto_int (lh_n s) = 0 # [1..<LOGBLOCKS]"
    using len by (simp add: upto_int_def log_len_def LOGBLOCKS_def upt_conv_Cons)
  ultimately show ?thesis
    using len(2) by (simp add: commit_def write_log_def log_home_def)
qed

theorem full_log_commit_panics_witness: "commit 0 (demo_log 30) = Panic ''bget: no buffers''"
proof (rule full_log_commit_panics)
  show "lh_n (demo_log 30) = of_nat LOGBLOCKS" by (simp add: demo_log_def LOGBLOCKS_def)
  show "inj_on (lh_block (demo_log 30)) {..<LOGBLOCKS}" using demo_inj[of 30] by (simp add: demo_log_def LOGBLOCKS_def)
  show "\<forall>i<LOGBLOCKS. lh_block (demo_log 30) i \<notin> log_area (log_start (demo_log 30))"
    using demo_outside by (simp add: demo_log_def LOGBLOCKS_def)
  have "log_dev (demo_log 30) = 1" by (simp add: demo_log_def)
  then show "cache (log_dev (demo_log 30)) 0 0 (pins (demo_log 30)) {} (demo_view 30) (demo_log 30)"
    using demo_view_cache[of 30] by simp
qed

end
