(* ===== verification/Fs.thy ===== *)
theory Fs
  imports Log
begin

text \<open>
  The file system, \<^verbatim>\<open>kernel/fs.c\<close>: disk blocks, inodes, file contents, directories and paths. A pointer
  to an entry of the inode table is its index; the sleep lock of entry \<open>i\<close> is sleep lock \<open>NBUF + i\<close>.

  A path is the list of the bytes before its terminator. The name buffer of a path element holds up to
  \<open>DIRSIZ\<close> bytes; a list of at most 14 bytes stands for it.
\<close>

section \<open>State\<close>

abbreviation (input) BSIZE :: u32 where "BSIZE \<equiv> 1024"
abbreviation (input) BPB :: nat where "BPB \<equiv> 8192"
abbreviation (input) NDIRECT :: nat where "NDIRECT \<equiv> 12"
abbreviation (input) NINDIRECT :: nat where "NINDIRECT \<equiv> 256"
abbreviation (input) MAXFILE :: u32 where "MAXFILE \<equiv> 268"
abbreviation (input) DIRSIZ :: nat where "DIRSIZ \<equiv> 14"
abbreviation (input) FSMAGIC :: u32 where "FSMAGIC \<equiv> 0x10203040"
abbreviation (input) T_DIR :: u16 where "T_DIR \<equiv> 1"
abbreviation (input) T_FILE :: u16 where "T_FILE \<equiv> 2"
abbreviation (input) T_DEVICE :: u16 where "T_DEVICE \<equiv> 3"

record superblock =
  sb_magic :: u32
  sb_size :: u32
  sb_nblocks :: u32
  sb_ninodes :: u32
  sb_nlog :: u32
  sb_logstart :: u32
  sb_inodestart :: u32
  sb_bmapstart :: u32

record inode =
  i_dev :: u32
  i_inum :: u32
  i_ref :: i32
  i_valid :: bool
  i_type :: u16
  i_major :: u16
  i_minor :: u16
  i_nlink :: u16
  i_size :: u32
  i_addrs :: "nat \<Rightarrow> u32"

record fsst = logst +
  sb :: superblock
  inodes :: "nat \<Rightarrow> inode"

definition upd_inode :: "nat \<Rightarrow> (inode \<Rightarrow> inode) \<Rightarrow> 'a fsst_scheme \<Rightarrow> 'a fsst_scheme" where
  "upd_inode i f s = s\<lparr>inodes := (inodes s)(i := f (inodes s i))\<rparr>"

definition upd_data :: "nat \<Rightarrow> (block \<Rightarrow> block) \<Rightarrow> 'a biost_scheme \<Rightarrow> 'a biost_scheme" where
  "upd_data b f s = upd_buf b (\<lambda>x. x\<lparr>b_data := f (b_data x)\<rparr>) s"

section \<open>Half-words and byte ranges of a block\<close>

definition get16 :: "block \<Rightarrow> nat \<Rightarrow> u16" where
  "get16 d off = ucast (d off) OR push_bit 8 (ucast (d (off + 1)))"

definition put16 :: "nat \<Rightarrow> u16 \<Rightarrow> block \<Rightarrow> block" where
  "put16 off w d = d(off := ucast w, off + 1 := ucast (drop_bit 8 w))"

definition block_bytes :: "block \<Rightarrow> nat \<Rightarrow> nat \<Rightarrow> u8 list" where
  "block_bytes d off n = map (\<lambda>i. d (off + i)) [0..<n]"

primrec put_block :: "nat \<Rightarrow> u8 list \<Rightarrow> block \<Rightarrow> block" where
  "put_block off [] d = d"
| "put_block off (b # bs) d = put_block (off + 1) bs (d(off := b))"

section \<open>Super block and free map\<close>

definition IBLOCK :: "u32 \<Rightarrow> superblock \<Rightarrow> u32" where
  "IBLOCK i q = i div 16 + sb_inodestart q"

definition BBLOCK :: "u32 \<Rightarrow> superblock \<Rightarrow> u32" where
  "BBLOCK b q = b div 8192 + sb_bmapstart q"

definition readsb :: "nat \<Rightarrow> u32 \<Rightarrow> 'a fsst_scheme \<Rightarrow> 'a fsst_scheme res" where
  "readsb h dev s =
     rbind (bread h dev 1 s) (\<lambda>(bp, s).
     let d = b_data (bufs s bp)
     in brelse h bp (s\<lparr>sb := \<lparr>sb_magic = get32 d 0, sb_size = get32 d 4, sb_nblocks = get32 d 8,
          sb_ninodes = get32 d 12, sb_nlog = get32 d 16, sb_logstart = get32 d 20,
          sb_inodestart = get32 d 24, sb_bmapstart = get32 d 28\<rparr>\<rparr>))"

definition bzero :: "nat \<Rightarrow> u32 \<Rightarrow> u32 \<Rightarrow> 'a fsst_scheme \<Rightarrow> 'a fsst_scheme res" where
  "bzero h dev bno s =
     rbind (bread h dev bno s) (\<lambda>(bp, s).
     let s = upd_data bp (\<lambda>_ _. 0) s
     in rbind (log_write h bp s) (\<lambda>s. brelse h bp s))"

text \<open>The bit of block \<open>bi\<close> in a free-map block, and the first clear bit among the first \<open>n\<close>.\<close>

definition map_bit :: "block \<Rightarrow> nat \<Rightarrow> bool" where
  "map_bit d bi \<longleftrightarrow> d (bi div 8) AND push_bit (bi mod 8) 1 \<noteq> 0"

definition set_bit_of :: "nat \<Rightarrow> block \<Rightarrow> block" where
  "set_bit_of bi d = d(bi div 8 := d (bi div 8) OR push_bit (bi mod 8) 1)"

definition clear_bit_of :: "nat \<Rightarrow> block \<Rightarrow> block" where
  "clear_bit_of bi d = d(bi div 8 := d (bi div 8) AND NOT (push_bit (bi mod 8) 1))"

definition balloc :: "nat \<Rightarrow> u32 \<Rightarrow> 'a fsst_scheme \<Rightarrow> (u32 \<times> 'a fsst_scheme) res" where
  "balloc h dev s =
     rbind (rsearch (\<lambda>k s.
              let b = BPB * k
              in rbind (bread h dev (BBLOCK (of_nat b) (sb s)) s) (\<lambda>(bp, s).
                 case find (\<lambda>bi. \<not> map_bit (b_data (bufs s bp)) bi)
                        [0..<min BPB (unat (sb_size (sb s)) - b)] of
                   Some bi \<Rightarrow>
                     rbind (log_write h bp (upd_data bp (set_bit_of bi) s)) (\<lambda>s.
                     rbind (brelse h bp s) (\<lambda>s.
                     rbind (bzero h dev (of_nat (b + bi)) s) (\<lambda>s.
                     Ok (Some (of_nat (b + bi)), s))))
                 | None \<Rightarrow> rbind (brelse h bp s) (\<lambda>s. Ok (None, s))))
            [0..<(unat (sb_size (sb s)) + (BPB - 1)) div BPB] s)
       (\<lambda>(r, s). case r of
          Some b \<Rightarrow> Ok (b, s)
        | None \<Rightarrow> rbind (printk h (''balloc: out of blocks'' @ [CHR 0x0A]) [] s) (\<lambda>s. Ok (0, s)))"

definition bfree :: "nat \<Rightarrow> u32 \<Rightarrow> u32 \<Rightarrow> 'a fsst_scheme \<Rightarrow> 'a fsst_scheme res" where
  "bfree h dev b s =
     rbind (bread h dev (BBLOCK b (sb s)) s) (\<lambda>(bp, s).
     let bi = unat (b mod 8192)
     in if \<not> map_bit (b_data (bufs s bp)) bi then Panic ''freeing free block''
        else rbind (log_write h bp (upd_data bp (clear_bit_of bi) s)) (\<lambda>s. brelse h bp s))"

section \<open>Inodes\<close>

definition NINODE_lock :: "nat \<Rightarrow> nat" where
  "NINODE_lock i = NBUF + i"

definition iinit :: "'a fsst_scheme \<Rightarrow> 'a fsst_scheme" where
  "iinit s = fold (\<lambda>i s. initsleeplock (NINODE_lock i) ''inode'' s) [0..<NINODE]
               (initlock ItableLock ''itable'' s)"

text \<open>The loop of \<^verbatim>\<open>iget\<close>: the entry that holds the inode, and otherwise the first free one.\<close>

definition iget :: "nat \<Rightarrow> u32 \<Rightarrow> u32 \<Rightarrow> 'a fsst_scheme \<Rightarrow> (nat \<times> 'a fsst_scheme) res" where
  "iget h dev inum s =
     rbind (acquire h ItableLock s) (\<lambda>s.
     case find (\<lambda>i. 0 <s i_ref (inodes s i) \<and> i_dev (inodes s i) = dev \<and> i_inum (inodes s i) = inum)
            [0..<NINODE] of
       Some i \<Rightarrow>
         rbind (release h ItableLock (upd_inode i (\<lambda>x. x\<lparr>i_ref := i_ref x + 1\<rparr>) s)) (\<lambda>s. Ok (i, s))
     | None \<Rightarrow>
         (case find (\<lambda>i. i_ref (inodes s i) = 0) [0..<NINODE] of
            None \<Rightarrow> Panic ''iget: no inodes''
          | Some i \<Rightarrow>
              rbind (release h ItableLock (upd_inode i
                       (\<lambda>x. x\<lparr>i_dev := dev, i_inum := inum, i_ref := 1, i_valid := False\<rparr>) s))
                (\<lambda>s. Ok (i, s))))"

text \<open>Inode \<open>inum\<close> is 64 bytes in its block.\<close>

definition dinode_off :: "u32 \<Rightarrow> nat" where
  "dinode_off inum = 64 * unat (inum mod 16)"

definition put_dinode :: "nat \<Rightarrow> inode \<Rightarrow> block \<Rightarrow> block" where
  "put_dinode off ip d =
     fold (\<lambda>k d. put32 (off + 12 + 4 * k) (i_addrs ip k) d) [0..<13]
       (put32 (off + 8) (i_size ip) (put16 (off + 6) (i_nlink ip) (put16 (off + 4) (i_minor ip)
         (put16 (off + 2) (i_major ip) (put16 off (i_type ip) d)))))"

definition get_dinode :: "nat \<Rightarrow> block \<Rightarrow> inode \<Rightarrow> inode" where
  "get_dinode off d ip =
     ip\<lparr>i_type := get16 d off, i_major := get16 d (off + 2), i_minor := get16 d (off + 4),
        i_nlink := get16 d (off + 6), i_size := get32 d (off + 8),
        i_addrs := (\<lambda>k. if k < 13 then get32 d (off + 12 + 4 * k) else i_addrs ip k)\<rparr>"

definition ialloc :: "nat \<Rightarrow> u32 \<Rightarrow> u16 \<Rightarrow> 'a fsst_scheme \<Rightarrow> (nat option \<times> 'a fsst_scheme) res" where
  "ialloc h dev type s =
     rbind (rsearch (\<lambda>inum s.
              rbind (bread h dev (IBLOCK (of_nat inum) (sb s)) s) (\<lambda>(bp, s).
              let off = dinode_off (of_nat inum)
              in if get16 (b_data (bufs s bp)) off = 0
                 then let s = upd_data bp (\<lambda>d. put16 off type (put_block off (replicate 64 0) d)) s
                      in rbind (log_write h bp s) (\<lambda>s.
                         rbind (brelse h bp s) (\<lambda>s.
                         rbind (iget h dev (of_nat inum) s) (\<lambda>(ip, s). Ok (Some ip, s))))
                 else rbind (brelse h bp s) (\<lambda>s. Ok (None, s))))
            [1..<unat (sb_ninodes (sb s))] s)
       (\<lambda>(r, s). case r of
          Some ip \<Rightarrow> Ok (Some ip, s)
        | None \<Rightarrow> rbind (printk h (''ialloc: no inodes'' @ [CHR 0x0A]) [] s) (\<lambda>s. Ok (None, s)))"

definition iupdate :: "nat \<Rightarrow> nat \<Rightarrow> 'a fsst_scheme \<Rightarrow> 'a fsst_scheme res" where
  "iupdate h ip s =
     rbind (bread h (i_dev (inodes s ip)) (IBLOCK (i_inum (inodes s ip)) (sb s)) s) (\<lambda>(bp, s).
     let s = upd_data bp (put_dinode (dinode_off (i_inum (inodes s ip))) (inodes s ip)) s
     in rbind (log_write h bp s) (\<lambda>s. brelse h bp s))"

definition idup :: "nat \<Rightarrow> nat \<Rightarrow> 'a fsst_scheme \<Rightarrow> (nat \<times> 'a fsst_scheme) res" where
  "idup h ip s =
     rbind (acquire h ItableLock s) (\<lambda>s.
     rbind (release h ItableLock (upd_inode ip (\<lambda>x. x\<lparr>i_ref := i_ref x + 1\<rparr>) s)) (\<lambda>s. Ok (ip, s)))"

definition ilock :: "nat \<Rightarrow> nat option \<Rightarrow> 'a fsst_scheme \<Rightarrow> 'a fsst_scheme res" where
  "ilock h mip s =
     (case mip of
        None \<Rightarrow> Panic ''ilock''
      | Some ip \<Rightarrow>
          if i_ref (inodes s ip) <s 1 then Panic ''ilock''
          else rbind (acquiresleep h (NINODE_lock ip) s) (\<lambda>s.
            if \<not> i_valid (inodes s ip)
            then rbind (bread h (i_dev (inodes s ip)) (IBLOCK (i_inum (inodes s ip)) (sb s)) s)
                   (\<lambda>(bp, s).
                 let s = upd_inode ip
                           (get_dinode (dinode_off (i_inum (inodes s ip))) (b_data (bufs s bp))) s
                 in rbind (brelse h bp s) (\<lambda>s.
                    let s = upd_inode ip (\<lambda>x. x\<lparr>i_valid := True\<rparr>) s
                    in if i_type (inodes s ip) = 0 then Panic ''ilock: no type'' else Ok s))
            else Ok s))"

definition iunlock :: "nat \<Rightarrow> nat option \<Rightarrow> 'a fsst_scheme \<Rightarrow> 'a fsst_scheme res" where
  "iunlock h mip s =
     (case mip of
        None \<Rightarrow> Panic ''iunlock''
      | Some ip \<Rightarrow>
          rbind (holdingsleep h (NINODE_lock ip) s) (\<lambda>(r, s).
            if \<not> r \<or> i_ref (inodes s ip) <s 1 then Panic ''iunlock''
            else releasesleep h (NINODE_lock ip) s))"

section \<open>Truncation and reference counts\<close>

definition itrunc :: "nat \<Rightarrow> nat \<Rightarrow> 'a fsst_scheme \<Rightarrow> 'a fsst_scheme res" where
  "itrunc h ip s =
     rbind (rfold (\<lambda>i s.
              if i_addrs (inodes s ip) i \<noteq> 0
              then rbind (bfree h (i_dev (inodes s ip)) (i_addrs (inodes s ip) i) s) (\<lambda>s.
                   Ok (upd_inode ip (\<lambda>x. x\<lparr>i_addrs := (i_addrs x)(i := 0)\<rparr>) s))
              else Ok s) [0..<NDIRECT] s) (\<lambda>s.
     rbind (if i_addrs (inodes s ip) NDIRECT \<noteq> 0
            then rbind (bread h (i_dev (inodes s ip)) (i_addrs (inodes s ip) NDIRECT) s) (\<lambda>(bp, s).
                 rbind (rfold (\<lambda>j s.
                          if get32 (b_data (bufs s bp)) (4 * j) \<noteq> 0
                          then bfree h (i_dev (inodes s ip)) (get32 (b_data (bufs s bp)) (4 * j)) s
                          else Ok s) [0..<NINDIRECT] s) (\<lambda>s.
                 rbind (brelse h bp s) (\<lambda>s.
                 rbind (bfree h (i_dev (inodes s ip)) (i_addrs (inodes s ip) NDIRECT) s) (\<lambda>s.
                 Ok (upd_inode ip (\<lambda>x. x\<lparr>i_addrs := (i_addrs x)(NDIRECT := 0)\<rparr>) s)))))
            else Ok s) (\<lambda>s.
     iupdate h ip (upd_inode ip (\<lambda>x. x\<lparr>i_size := 0\<rparr>) s)))"

definition iput :: "nat \<Rightarrow> nat \<Rightarrow> 'a fsst_scheme \<Rightarrow> 'a fsst_scheme res" where
  "iput h ip s =
     rbind (acquire h ItableLock s) (\<lambda>s.
     rbind (if i_ref (inodes s ip) = 1 \<and> i_valid (inodes s ip) \<and> i_nlink (inodes s ip) = 0
            then rbind (acquiresleep h (NINODE_lock ip) s) (\<lambda>s.
                 rbind (release h ItableLock s) (\<lambda>s.
                 rbind (itrunc h ip s) (\<lambda>s.
                 rbind (iupdate h ip (upd_inode ip (\<lambda>x. x\<lparr>i_type := 0\<rparr>) s)) (\<lambda>s.
                 rbind (releasesleep h (NINODE_lock ip) (upd_inode ip (\<lambda>x. x\<lparr>i_valid := False\<rparr>) s))
                   (\<lambda>s. acquire h ItableLock s)))))
            else Ok s) (\<lambda>s.
     release h ItableLock (upd_inode ip (\<lambda>x. x\<lparr>i_ref := i_ref x - 1\<rparr>) s)))"

definition iunlockput :: "nat \<Rightarrow> nat \<Rightarrow> 'a fsst_scheme \<Rightarrow> 'a fsst_scheme res" where
  "iunlockput h ip s = rbind (iunlock h (Some ip) s) (\<lambda>s. iput h ip s)"

definition ireclaim :: "nat \<Rightarrow> u32 \<Rightarrow> 'a fsst_scheme \<Rightarrow> 'a fsst_scheme res" where
  "ireclaim h dev s =
     rfold (\<lambda>inum s.
       rbind (bread h dev (IBLOCK (of_nat inum) (sb s)) s) (\<lambda>(bp, s).
       let off = dinode_off (of_nat inum); d = b_data (bufs s bp)
       in rbind (if get16 d off \<noteq> 0 \<and> get16 d (off + 6) = 0
                 then rbind (printk h (''ireclaim: orphaned inode %d'' @ [CHR 0x0A])
                               [VWord (of_nat inum)] s) (\<lambda>s.
                      rbind (iget h dev (of_nat inum) s) (\<lambda>(ip, s). Ok (Some ip, s)))
                 else Ok (None, s)) (\<lambda>(mip, s).
          rbind (brelse h bp s) (\<lambda>s.
          case mip of
            None \<Rightarrow> Ok s
          | Some ip \<Rightarrow>
              rbind (begin_op h s) (\<lambda>s.
              rbind (ilock h (Some ip) s) (\<lambda>s.
              rbind (iunlock h (Some ip) s) (\<lambda>s.
              rbind (iput h ip s) (\<lambda>s. end_op h s)))))))) [1..<unat (sb_ninodes (sb s))] s"

definition fsinit :: "nat \<Rightarrow> u32 \<Rightarrow> 'a fsst_scheme \<Rightarrow> 'a fsst_scheme res" where
  "fsinit h dev s =
     rbind (readsb h dev s) (\<lambda>s.
       if sb_magic (sb s) \<noteq> FSMAGIC then Panic ''invalid file system''
       else rbind (initlog h dev (sb_logstart (sb s)) s) (\<lambda>s. ireclaim h dev s))"

section \<open>File contents\<close>

definition bmap :: "nat \<Rightarrow> nat \<Rightarrow> u32 \<Rightarrow> 'a fsst_scheme \<Rightarrow> (u32 \<times> 'a fsst_scheme) res" where
  "bmap h ip bn s =
     (let slot = (\<lambda>k s. if i_addrs (inodes s ip) k = 0
                        then rbind (balloc h (i_dev (inodes s ip)) s) (\<lambda>(addr, s).
                             if addr = 0 then Ok (0, s)
                             else Ok (addr, upd_inode ip (\<lambda>x. x\<lparr>i_addrs := (i_addrs x)(k := addr)\<rparr>) s))
                        else Ok (i_addrs (inodes s ip) k, s))
      in if bn < 12 then slot (unat bn) s
         else let bn = bn - 12
              in if bn < 256
                 then rbind (slot NDIRECT s) (\<lambda>(addr, s).
                      if addr = 0 then Ok (0, s)
                      else rbind (bread h (i_dev (inodes s ip)) addr s) (\<lambda>(bp, s).
                           let addr = get32 (b_data (bufs s bp)) (4 * unat bn)
                           in rbind (if addr = 0
                                     then rbind (balloc h (i_dev (inodes s ip)) s) (\<lambda>(addr, s).
                                          if addr \<noteq> 0
                                          then rbind (log_write h bp
                                                        (upd_data bp (put32 (4 * unat bn) addr) s))
                                                 (\<lambda>s. Ok (addr, s))
                                          else Ok (addr, s))
                                     else Ok (addr, s)) (\<lambda>(addr, s).
                              rbind (brelse h bp s) (\<lambda>s. Ok (addr, s)))))
                 else Panic ''bmap: out of range'')"

record stat =
  st_dev :: u32
  st_ino :: u32
  st_type :: u16
  st_nlink :: u16
  st_size :: u64

definition stati :: "nat \<Rightarrow> 'a fsst_scheme \<Rightarrow> stat" where
  "stati ip s = \<lparr>st_dev = i_dev (inodes s ip), st_ino = i_inum (inodes s ip),
     st_type = i_type (inodes s ip), st_nlink = i_nlink (inodes s ip),
     st_size = ucast (i_size (inodes s ip))\<rparr>"

text \<open>The size of the next piece of a transfer: not past the request, not past the block.\<close>

definition piece :: "u32 \<Rightarrow> u32 \<Rightarrow> u32 \<Rightarrow> u32" where
  "piece n tot off = (if n - tot < BSIZE - off mod BSIZE then n - tot else BSIZE - off mod BSIZE)"

lemma piece_bounds:
  assumes "tot < n"
  shows "0 < piece n tot off" "piece n tot off \<le> n - tot" "piece n tot off \<le> BSIZE - off mod BSIZE"
proof -
  have "off mod BSIZE < BSIZE" by (rule word_mod_less_divisor) simp
  then have "0 < BSIZE - off mod BSIZE" by (simp add: word_neq_0_conv[symmetric])
  moreover have "0 < n - tot" using assms by (simp add: word_neq_0_conv[symmetric])
  ultimately show "0 < piece n tot off" "piece n tot off \<le> n - tot"
    "piece n tot off \<le> BSIZE - off mod BSIZE"
    by (auto simp: piece_def)
qed

lemma piece_measure:
  assumes "tot < n"
  shows "unat (n - (tot + piece n tot off)) < unat (n - tot)"
proof -
  have "unat (n - tot - piece n tot off) = unat (n - tot) - unat (piece n tot off)"
    by (rule unat_sub) (rule piece_bounds(2)[OF assms])
  moreover have "0 < unat (piece n tot off)" "0 < unat (n - tot)"
    using piece_bounds(1)[OF assms, of off] piece_bounds(2)[OF assms, of off]
    by (auto simp: unat_gt_0 word_neq_0_conv)
  ultimately show ?thesis by (simp add: algebra_simps)
qed

text \<open>The result of a read is the count and what a kernel destination has received.\<close>

function readi_loop ::
  "nat \<Rightarrow> nat \<Rightarrow> bool \<Rightarrow> u64 \<Rightarrow> u32 \<Rightarrow> u32 \<Rightarrow> u32 \<Rightarrow> u8 list \<Rightarrow> 'a fsst_scheme \<Rightarrow>
   (i32 \<times> u8 list \<times> 'a fsst_scheme) res" where
  "readi_loop h ip user_dst dst off n tot acc s =
     (if tot < n
      then rbind (bmap h ip (off div BSIZE) s) (\<lambda>(addr, s).
        if addr = 0 then Ok (tot, acc, s)
        else rbind (bread h (i_dev (inodes s ip)) addr s) (\<lambda>(bp, s).
          let m = piece n tot off
          in rbind (either_copyout h user_dst dst
                      (block_bytes (b_data (bufs s bp)) (unat (off mod BSIZE)) (unat m)) s)
               (\<lambda>(r, kb, s).
             rbind (brelse h bp s) (\<lambda>s.
               if r = - 1 then Ok (- 1, acc, s)
               else readi_loop h ip user_dst (dst + ucast m) (off + m) n (tot + m) (acc @ kb) s))))
      else Ok (tot, acc, s))"
  by pat_completeness auto
termination
  by (relation "measure (\<lambda>(h, ip, u, dst, off, n, tot, acc, s). unat (n - tot))")
     (auto simp: piece_measure)

declare readi_loop.simps [simp del]

definition readi ::
  "nat \<Rightarrow> nat \<Rightarrow> bool \<Rightarrow> u64 \<Rightarrow> u32 \<Rightarrow> u32 \<Rightarrow> 'a fsst_scheme \<Rightarrow>
   (i32 \<times> u8 list \<times> 'a fsst_scheme) res" where
  "readi h ip user_dst dst off n s =
     (let size = i_size (inodes s ip)
      in if size < off \<or> off + n < off then Ok (0, [], s)
         else let n = (if size < off + n then size - off else n)
              in readi_loop h ip user_dst dst off n 0 [] s)"

text \<open>\<open>kbuf\<close> is the source of a write from the kernel. The bytes that \<^verbatim>\<open>either_copyin\<close> has already copied
  when it fails stay in the buffer.\<close>

function writei_loop ::
  "nat \<Rightarrow> nat \<Rightarrow> bool \<Rightarrow> u64 \<Rightarrow> u8 list \<Rightarrow> u32 \<Rightarrow> u32 \<Rightarrow> u32 \<Rightarrow> 'a fsst_scheme \<Rightarrow>
   (u32 \<times> u32 \<times> 'a fsst_scheme) res" where
  "writei_loop h ip user_src src kbuf off n tot s =
     (if tot < n
      then rbind (bmap h ip (off div BSIZE) s) (\<lambda>(addr, s).
        if addr = 0 then Ok (tot, off, s)
        else rbind (bread h (i_dev (inodes s ip)) addr s) (\<lambda>(bp, s).
          let m = piece n tot off
          in rbind (either_copyin h user_src src (drop (unat tot) kbuf) (unat m) s) (\<lambda>(r, bs, s).
             let s = upd_data bp (put_block (unat (off mod BSIZE)) bs) s
             in if r = - 1 then rbind (brelse h bp s) (\<lambda>s. Ok (tot, off, s))
                else rbind (log_write h bp s) (\<lambda>s.
                     rbind (brelse h bp s) (\<lambda>s.
                     writei_loop h ip user_src (src + ucast m) kbuf (off + m) n (tot + m) s)))))
      else Ok (tot, off, s))"
  by pat_completeness auto
termination
  by (relation "measure (\<lambda>(h, ip, u, src, kb, off, n, tot, s). unat (n - tot))")
     (auto simp: piece_measure)

declare writei_loop.simps [simp del]

definition writei ::
  "nat \<Rightarrow> nat \<Rightarrow> bool \<Rightarrow> u64 \<Rightarrow> u8 list \<Rightarrow> u32 \<Rightarrow> u32 \<Rightarrow> 'a fsst_scheme \<Rightarrow>
   (i32 \<times> 'a fsst_scheme) res" where
  "writei h ip user_src src kbuf off n s =
     (if i_size (inodes s ip) < off \<or> off + n < off then Ok (- 1, s)
      else if MAXFILE * BSIZE < off + n then Ok (- 1, s)
      else rbind (writei_loop h ip user_src src kbuf off n 0 s) (\<lambda>(tot, off, s).
           let s = (if i_size (inodes s ip) < off then upd_inode ip (\<lambda>x. x\<lparr>i_size := off\<rparr>) s else s)
           in rbind (iupdate h ip s) (\<lambda>s. Ok (tot, s))))"

section \<open>Directories\<close>

text \<open>\<^verbatim>\<open>struct dirent\<close>: two bytes of inode number and 14 of name.\<close>

definition dirent_inum :: "u8 list \<Rightarrow> u16" where
  "dirent_inum de = ucast (de ! 0) OR push_bit 8 (ucast (de ! 1))"

definition dirent_name :: "u8 list \<Rightarrow> u8 list" where
  "dirent_name de = takeWhile (\<lambda>b. b \<noteq> 0) (take DIRSIZ (drop 2 de))"

definition dirent_bytes :: "u16 \<Rightarrow> u8 list \<Rightarrow> u8 list" where
  "dirent_bytes inum name =
     [ucast inum, ucast (drop_bit 8 inum)] @
     take DIRSIZ (takeWhile (\<lambda>b. b \<noteq> 0) name @ replicate DIRSIZ 0)"

text \<open>\<^verbatim>\<open>namecmp(s, t) == 0\<close>: the first 14 bytes of two strings agree.\<close>

definition namecmp_eq :: "u8 list \<Rightarrow> u8 list \<Rightarrow> bool" where
  "namecmp_eq s t \<longleftrightarrow> take DIRSIZ s = take DIRSIZ t"

lemma readi_full_offset:
  assumes "readi h ip u dst off n s = Ok (r, bs, s')" and "r = n" and "0 < n"
  shows "off \<le> off + n"
  using assms by (auto simp: readi_def Let_def split: if_splits)

text \<open>A directory scan moves on only after it has read a whole entry, so its offset does not wrap.\<close>

definition dir_room :: "u32 \<Rightarrow> nat" where
  "dir_room off = 4294967296 - unat off"

lemma dirent_step:
  assumes "readi h ip u dst off 16 s = Ok (16, bs, s')"
  shows "dir_room (off + 16) < dir_room off"
proof -
  have "unat off \<le> unat (off + 16)"
    using readi_full_offset[OF assms] by (simp add: word_le_nat_alt)
  then have "unat (off + 16) = unat off + 16"
    using unat_u32_less[of off] by (simp add: unat_plus_if' split: if_splits)
  then show ?thesis using unat_u32_less[of "off + 16"] by (simp add: dir_room_def)
qed

function dirlookup_loop ::
  "nat \<Rightarrow> nat \<Rightarrow> u8 list \<Rightarrow> u32 \<Rightarrow> 'a fsst_scheme \<Rightarrow> ((u32 \<times> u16) option \<times> 'a fsst_scheme) res" where
  "dirlookup_loop h dp name off s =
     (if off < i_size (inodes s dp)
      then rbind (readi h dp False 0 off 16 s) (\<lambda>(r, de, s).
        if r \<noteq> 16 then Panic ''dirlookup read''
        else if dirent_inum de = 0 then dirlookup_loop h dp name (off + 16) s
        else if namecmp_eq name (dirent_name de) then Ok (Some (off, dirent_inum de), s)
        else dirlookup_loop h dp name (off + 16) s)
      else Ok (None, s))"
  by pat_completeness auto
termination
  by (relation "measure (\<lambda>(h, dp, name, off, s). dir_room off)") (auto simp: dirent_step)

declare dirlookup_loop.simps [simp del]

text \<open>The result is the entry of the inode table and the offset of the directory entry.\<close>

definition dirlookup ::
  "nat \<Rightarrow> nat \<Rightarrow> u8 list \<Rightarrow> 'a fsst_scheme \<Rightarrow> ((nat \<times> u32) option \<times> 'a fsst_scheme) res" where
  "dirlookup h dp name s =
     (if i_type (inodes s dp) \<noteq> T_DIR then Panic ''dirlookup not DIR''
      else rbind (dirlookup_loop h dp name 0 s) (\<lambda>(r, s).
        case r of
          None \<Rightarrow> Ok (None, s)
        | Some (off, inum) \<Rightarrow>
            rbind (iget h (i_dev (inodes s dp)) (ucast inum) s) (\<lambda>(ip, s). Ok (Some (ip, off), s))))"

text \<open>The first empty entry, or the end of the directory.\<close>

function dirlink_slot :: "nat \<Rightarrow> nat \<Rightarrow> u32 \<Rightarrow> 'a fsst_scheme \<Rightarrow> (u32 \<times> 'a fsst_scheme) res" where
  "dirlink_slot h dp off s =
     (if off < i_size (inodes s dp)
      then rbind (readi h dp False 0 off 16 s) (\<lambda>(r, de, s).
        if r \<noteq> 16 then Panic ''dirlink read''
        else if dirent_inum de = 0 then Ok (off, s)
        else dirlink_slot h dp (off + 16) s)
      else Ok (off, s))"
  by pat_completeness auto
termination
  by (relation "measure (\<lambda>(h, dp, off, s). dir_room off)") (auto simp: dirent_step)

declare dirlink_slot.simps [simp del]

definition dirlink ::
  "nat \<Rightarrow> nat \<Rightarrow> u8 list \<Rightarrow> u32 \<Rightarrow> 'a fsst_scheme \<Rightarrow> (i32 \<times> 'a fsst_scheme) res" where
  "dirlink h dp name inum s =
     rbind (dirlookup h dp name s) (\<lambda>(r, s).
       case r of
         Some (ip, _) \<Rightarrow> rbind (iput h ip s) (\<lambda>s. Ok (- 1, s))
       | None \<Rightarrow>
           rbind (dirlink_slot h dp 0 s) (\<lambda>(off, s).
           rbind (writei h dp False 0 (dirent_bytes (ucast inum) name) off 16 s) (\<lambda>(r, s).
             if r \<noteq> 16 then Ok (- 1, s) else Ok (0, s))))"

section \<open>Paths\<close>

definition skipelem :: "u8 list \<Rightarrow> (u8 list \<times> u8 list) option" where
  "skipelem path =
     (let path = dropWhile (\<lambda>b. b = 47) path
      in if path = [] then None
         else Some (take DIRSIZ (takeWhile (\<lambda>b. b \<noteq> 47) path),
                    dropWhile (\<lambda>b. b = 47) (dropWhile (\<lambda>b. b \<noteq> 47) path)))"

lemma skipelem_shorter:
  assumes "skipelem path = Some (name, rest)"
  shows "length rest < length path"
proof -
  obtain c cs where p: "dropWhile (\<lambda>b. b = 47) path = c # cs"
    and rest: "rest = dropWhile (\<lambda>b. b = 47) (dropWhile (\<lambda>b. b \<noteq> 47) (c # cs))"
    using assms by (cases "dropWhile (\<lambda>b. b = 47) path") (simp_all add: skipelem_def)
  have "c \<noteq> 47" using p hd_dropWhile[of "\<lambda>b. b = 47" path] by simp
  then have "rest = dropWhile (\<lambda>b. b = 47) (dropWhile (\<lambda>b. b \<noteq> 47) cs)" using rest by simp
  then have "length rest \<le> length cs"
    using length_dropWhile_le le_trans by metis
  moreover have "length (c # cs) \<le> length path" using p length_dropWhile_le by metis
  ultimately show ?thesis by simp
qed

abbreviation (input) ROOTDEV :: u32 where "ROOTDEV \<equiv> 1"
abbreviation (input) ROOTINO :: u32 where "ROOTINO \<equiv> 1"

function namex_loop ::
  "nat \<Rightarrow> u8 list \<Rightarrow> bool \<Rightarrow> u8 list \<Rightarrow> nat \<Rightarrow> 'a fsst_scheme \<Rightarrow>
   (nat option \<times> u8 list \<times> 'a fsst_scheme) res" where
  "namex_loop h path par name ip s =
     (case skipelem path of
        None \<Rightarrow> if par then rbind (iput h ip s) (\<lambda>s. Ok (None, name, s)) else Ok (Some ip, name, s)
      | Some (name, path') \<Rightarrow>
          rbind (ilock h (Some ip) s) (\<lambda>s.
            if i_type (inodes s ip) \<noteq> T_DIR
            then rbind (iunlockput h ip s) (\<lambda>s. Ok (None, name, s))
            else if par \<and> path' = []
            then rbind (iunlock h (Some ip) s) (\<lambda>s. Ok (Some ip, name, s))
            else rbind (dirlookup h ip name s) (\<lambda>(r, s).
              case r of
                None \<Rightarrow> rbind (iunlockput h ip s) (\<lambda>s. Ok (None, name, s))
              | Some (next, _) \<Rightarrow>
                  rbind (iunlockput h ip s) (\<lambda>s. namex_loop h path' par name next s))))"
  by pat_completeness auto
termination
  by (relation "measure (\<lambda>(h, path, par, name, ip, s). length path)") (auto dest: skipelem_shorter)

declare namex_loop.simps [simp del]

definition namex ::
  "nat \<Rightarrow> u8 list \<Rightarrow> bool \<Rightarrow> 'a fsst_scheme \<Rightarrow> (nat option \<times> u8 list \<times> 'a fsst_scheme) res" where
  "namex h path par s =
     rbind (if take 1 path = [47] then iget h ROOTDEV ROOTINO s
            else rbind (myproc h s) (\<lambda>(mp, s).
                 rbind (deref mp) (\<lambda>p.
                 rbind (deref (cwd (procs s p))) (\<lambda>ip. idup h ip s)))) (\<lambda>(ip, s).
     namex_loop h path par [] ip s)"

definition namei :: "nat \<Rightarrow> u8 list \<Rightarrow> 'a fsst_scheme \<Rightarrow> (nat option \<times> 'a fsst_scheme) res" where
  "namei h path s = rbind (namex h path False s) (\<lambda>(ip, _, s). Ok (ip, s))"

definition nameiparent ::
  "nat \<Rightarrow> u8 list \<Rightarrow> 'a fsst_scheme \<Rightarrow> (nat option \<times> u8 list \<times> 'a fsst_scheme) res" where
  "nameiparent h path s = namex h path True s"

end
