(* ===== verification/Pipe.thy ===== *)
theory Pipe
  imports Fs
begin

text \<open>
  Pipes, \<^verbatim>\<open>kernel/pipe.c\<close>: a ring of 512 bytes with counters of the bytes read and written. The
  structure lives in a page of its own; \<open>pipes\<close> gives the structure in the page at an address. The two
  ends sleep on the addresses of the two counters.
\<close>

record pipe =
  p_data :: "nat \<Rightarrow> u8"
  nread :: u32
  nwrite :: u32
  readopen :: bool
  writeopen :: bool

record pipest = fsst +
  pipes :: "u64 \<Rightarrow> pipe"

abbreviation (input) PIPESIZE :: u32 where "PIPESIZE \<equiv> 512"

definition slot512 :: "u32 \<Rightarrow> nat" where
  "slot512 i = unat (i mod PIPESIZE)"

definition upd_pipe :: "u64 \<Rightarrow> (pipe \<Rightarrow> pipe) \<Rightarrow> 'a pipest_scheme \<Rightarrow> 'a pipest_scheme" where
  "upd_pipe pi f s = s\<lparr>pipes := (pipes s)(pi := f (pipes s pi))\<rparr>"

text \<open>Storing one byte and taking one byte.\<close>

definition pipe_put :: "u8 \<Rightarrow> pipe \<Rightarrow> pipe" where
  "pipe_put ch q = q\<lparr>p_data := (p_data q)(slot512 (nwrite q) := ch), nwrite := nwrite q + 1\<rparr>"

definition pipe_get :: "pipe \<Rightarrow> u8 \<times> pipe" where
  "pipe_get q = (p_data q (slot512 (nread q)), q\<lparr>nread := nread q + 1\<rparr>)"

definition pipeclose :: "nat \<Rightarrow> u64 \<Rightarrow> bool \<Rightarrow> 'a pipest_scheme \<Rightarrow> 'a pipest_scheme res" where
  "pipeclose h pi writable s =
     rbind (acquire h (PipeLock pi) s) (\<lambda>s.
     rbind (if writable
            then wakeup h (Some (ChPipeRead pi)) (upd_pipe pi (\<lambda>q. q\<lparr>writeopen := False\<rparr>) s)
            else wakeup h (Some (ChPipeWrite pi)) (upd_pipe pi (\<lambda>q. q\<lparr>readopen := False\<rparr>) s)) (\<lambda>s.
     if \<not> readopen (pipes s pi) \<and> \<not> writeopen (pipes s pi)
     then rbind (release h (PipeLock pi) s) (\<lambda>s. kfree h pi s)
     else release h (PipeLock pi) s))"

section \<open>Writing\<close>

definition pipewrite_done ::
  "nat \<Rightarrow> u64 \<Rightarrow> nat \<Rightarrow> 'a pipest_scheme \<Rightarrow> ((bool \<times> nat, i32) blocking \<times> 'a pipest_scheme) res" where
  "pipewrite_done h pi i s =
     rbind (wakeup h (Some (ChPipeRead pi)) s) (\<lambda>s.
     rbind (release h (PipeLock pi) s) (\<lambda>s. Ok (Return (of_nat i), s)))"

text \<open>The loop from byte \<open>i\<close> on, with the pipe's lock held; \<open>p\<close> is the calling process. The count \<open>i\<close> and
  the saved interrupt state survive a sleep.\<close>

function pipewrite_loop ::
  "nat \<Rightarrow> nat \<Rightarrow> u64 \<Rightarrow> u64 \<Rightarrow> i32 \<Rightarrow> nat \<Rightarrow> 'a pipest_scheme \<Rightarrow>
   ((bool \<times> nat, i32) blocking \<times> 'a pipest_scheme) res" where
  "pipewrite_loop h p pi addr n i s =
     (if int i < sint n
      then rbind (if \<not> readopen (pipes s pi) then Ok (1, s) else get_killed h p s) (\<lambda>(k, s).
        if k \<noteq> 0 then rbind (release h (PipeLock pi) s) (\<lambda>s. Ok (Return (- 1), s))
        else if nwrite (pipes s pi) = nread (pipes s pi) + PIPESIZE
        then rbind (wakeup h (Some (ChPipeRead pi)) s) (\<lambda>s.
             rbind (sleep_enter h (ChPipeWrite pi) (PipeLock pi) s) (\<lambda>(ie, s). Ok (Sleeping (ie, i), s)))
        else rbind (copyin h (pagetable (procs s p)) (addr + of_nat i) 1 s) (\<lambda>(r, bs, s).
             if r = - 1 then pipewrite_done h pi i s
             else pipewrite_loop h p pi addr n (Suc i) (upd_pipe pi (pipe_put (hd bs)) s)))
      else pipewrite_done h pi i s)"
  by pat_completeness auto
termination
  by (relation "measure (\<lambda>(h, p, pi, addr, n, i, s). nat (sint n) - i)") auto

declare pipewrite_loop.simps [simp del]

definition pipewrite ::
  "nat \<Rightarrow> u64 \<Rightarrow> u64 \<Rightarrow> i32 \<Rightarrow> 'a pipest_scheme \<Rightarrow> ((bool \<times> nat, i32) blocking \<times> 'a pipest_scheme) res"
where
  "pipewrite h pi addr n s =
     rbind (myproc h s) (\<lambda>(mp, s).
     rbind (acquire h (PipeLock pi) s) (\<lambda>s.
     rbind (deref mp) (\<lambda>p. pipewrite_loop h p pi addr n 0 s)))"

definition pipewrite_return ::
  "nat \<Rightarrow> nat \<Rightarrow> bool \<times> nat \<Rightarrow> u64 \<Rightarrow> u64 \<Rightarrow> i32 \<Rightarrow> 'a pipest_scheme \<Rightarrow>
   ((bool \<times> nat, i32) blocking \<times> 'a pipest_scheme) res" where
  "pipewrite_return h p k pi addr n s =
     rbind (sleep_return h p (fst k) (PipeLock pi) s) (\<lambda>s. pipewrite_loop h p pi addr n (snd k) s)"

section \<open>Reading\<close>

definition piperead_done ::
  "nat \<Rightarrow> u64 \<Rightarrow> i32 \<Rightarrow> 'a pipest_scheme \<Rightarrow> ((bool, i32) blocking \<times> 'a pipest_scheme) res" where
  "piperead_done h pi r s =
     rbind (wakeup h (Some (ChPipeWrite pi)) s) (\<lambda>s.
     rbind (release h (PipeLock pi) s) (\<lambda>s. Ok (Return r, s)))"

function piperead_copy ::
  "nat \<Rightarrow> nat \<Rightarrow> u64 \<Rightarrow> u64 \<Rightarrow> i32 \<Rightarrow> nat \<Rightarrow> 'a pipest_scheme \<Rightarrow>
   ((bool, i32) blocking \<times> 'a pipest_scheme) res" where
  "piperead_copy h p pi addr n i s =
     (if int i < sint n
      then if nread (pipes s pi) = nwrite (pipes s pi) then piperead_done h pi (of_nat i) s
           else case pipe_get (pipes s pi) of (ch, q) \<Rightarrow>
             rbind (copyout h (pagetable (procs s p)) (addr + of_nat i) [ch] s) (\<lambda>(r, s).
               if r = - 1 then piperead_done h pi (if i = 0 then - 1 else of_nat i) s
               else piperead_copy h p pi addr n (Suc i) (upd_pipe pi (\<lambda>_. q) s))
      else piperead_done h pi (of_nat i) s)"
  by pat_completeness auto
termination
  by (relation "measure (\<lambda>(h, p, pi, addr, n, i, s). nat (sint n) - i)") auto

declare piperead_copy.simps [simp del]

definition piperead_turn ::
  "nat \<Rightarrow> nat \<Rightarrow> u64 \<Rightarrow> u64 \<Rightarrow> i32 \<Rightarrow> 'a pipest_scheme \<Rightarrow> ((bool, i32) blocking \<times> 'a pipest_scheme) res"
where
  "piperead_turn h p pi addr n s =
     (if nread (pipes s pi) = nwrite (pipes s pi) \<and> writeopen (pipes s pi)
      then rbind (get_killed h p s) (\<lambda>(k, s).
        if k \<noteq> 0 then rbind (release h (PipeLock pi) s) (\<lambda>s. Ok (Return (- 1), s))
        else rbind (sleep_enter h (ChPipeRead pi) (PipeLock pi) s) (\<lambda>(ie, s). Ok (Sleeping ie, s)))
      else piperead_copy h p pi addr n 0 s)"

definition piperead ::
  "nat \<Rightarrow> u64 \<Rightarrow> u64 \<Rightarrow> i32 \<Rightarrow> 'a pipest_scheme \<Rightarrow> ((bool, i32) blocking \<times> 'a pipest_scheme) res" where
  "piperead h pi addr n s =
     rbind (myproc h s) (\<lambda>(mp, s).
     rbind (acquire h (PipeLock pi) s) (\<lambda>s.
     rbind (deref mp) (\<lambda>p. piperead_turn h p pi addr n s)))"

definition piperead_return ::
  "nat \<Rightarrow> nat \<Rightarrow> bool \<Rightarrow> u64 \<Rightarrow> u64 \<Rightarrow> i32 \<Rightarrow> 'a pipest_scheme \<Rightarrow>
   ((bool, i32) blocking \<times> 'a pipest_scheme) res" where
  "piperead_return h p ie pi addr n s =
     rbind (sleep_return h p ie (PipeLock pi) s) (\<lambda>s. piperead_turn h p pi addr n s)"

end
