(* ===== verification/File.thy ===== *)
theory File
  imports Pipe
begin

text \<open>
  Open files, \<^verbatim>\<open>kernel/file.c\<close>, and \<^verbatim>\<open>pipealloc\<close> of \<^verbatim>\<open>kernel/pipe.c\<close>, which makes a pair of them. A
  pointer to an open file is its index in \<^verbatim>\<open>ftable\<close>. The only device with a driver is the console,
  so the table \<^verbatim>\<open>devsw\<close> has one entry, at \<^verbatim>\<open>CONSOLE\<close>, set by \<^verbatim>\<open>consoleinit\<close>.
\<close>

section \<open>State\<close>

datatype ftype = FD_NONE | FD_PIPE | FD_INODE | FD_DEVICE

record xfile =
  f_type :: ftype
  f_ref :: i32
  f_readable :: bool
  f_writable :: bool
  f_pipe :: u64
  f_ip :: "nat option"
  f_off :: u32
  f_major :: u16

record filest = pipest +
  files :: "nat \<Rightarrow> xfile"

definition upd_file :: "nat \<Rightarrow> (xfile \<Rightarrow> xfile) \<Rightarrow> 'a filest_scheme \<Rightarrow> 'a filest_scheme" where
  "upd_file f g s = s\<lparr>files := (files s)(f := g (files s f))\<rparr>"

abbreviation (input) CONSOLE :: u16 where "CONSOLE \<equiv> 1"

section \<open>Reference counts\<close>

definition fileinit :: "'a filest_scheme \<Rightarrow> 'a filest_scheme" where
  "fileinit s = initlock FtableLock ''ftable'' s"

definition filealloc :: "nat \<Rightarrow> 'a filest_scheme \<Rightarrow> (nat option \<times> 'a filest_scheme) res" where
  "filealloc h s =
     rbind (acquire h FtableLock s) (\<lambda>s.
     case find (\<lambda>f. f_ref (files s f) = 0) [0..<NFILE] of
       Some f \<Rightarrow> rbind (release h FtableLock (upd_file f (\<lambda>x. x\<lparr>f_ref := 1\<rparr>) s)) (\<lambda>s. Ok (Some f, s))
     | None \<Rightarrow> rbind (release h FtableLock s) (\<lambda>s. Ok (None, s)))"

definition filedup :: "nat \<Rightarrow> nat \<Rightarrow> 'a filest_scheme \<Rightarrow> (nat \<times> 'a filest_scheme) res" where
  "filedup h f s =
     rbind (acquire h FtableLock s) (\<lambda>s.
       if f_ref (files s f) <s 1 then Panic ''filedup''
       else rbind (release h FtableLock (upd_file f (\<lambda>x. x\<lparr>f_ref := f_ref x + 1\<rparr>) s))
              (\<lambda>s. Ok (f, s)))"

definition fileclose :: "nat \<Rightarrow> nat \<Rightarrow> 'a filest_scheme \<Rightarrow> 'a filest_scheme res" where
  "fileclose h f s =
     rbind (acquire h FtableLock s) (\<lambda>s.
       if f_ref (files s f) <s 1 then Panic ''fileclose''
       else let s = upd_file f (\<lambda>x. x\<lparr>f_ref := f_ref x - 1\<rparr>) s
            in if 0 <s f_ref (files s f) then release h FtableLock s
               else let ff = files s f; s = upd_file f (\<lambda>x. x\<lparr>f_ref := 0, f_type := FD_NONE\<rparr>) s
                    in rbind (release h FtableLock s) (\<lambda>s.
                       if f_type ff = FD_PIPE then pipeclose h (f_pipe ff) (f_writable ff) s
                       else if f_type ff = FD_INODE \<or> f_type ff = FD_DEVICE
                       then rbind (begin_op h s) (\<lambda>s.
                            rbind (deref (f_ip ff)) (\<lambda>ip.
                            rbind (iput h ip s) (\<lambda>s. end_op h s)))
                       else Ok s))"

text \<open>\<^verbatim>\<open>struct stat\<close> is 24 bytes with 4 bytes of padding before the size; \<open>stk\<close> is what the stack
  held.\<close>

definition stat_bytes :: "stat \<Rightarrow> u8 list \<Rightarrow> u8 list" where
  "stat_bytes st stk =
     fold (\<lambda>(off, bs). put_at off bs)
       [(0, bytes32 (st_dev st)), (4, bytes32 (st_ino st)),
        (8, [ucast (st_type st), ucast (drop_bit 8 (st_type st))]),
        (10, [ucast (st_nlink st), ucast (drop_bit 8 (st_nlink st))]),
        (16, bytes64 (st_size st))] stk"

definition filestat ::
  "nat \<Rightarrow> u8 list \<Rightarrow> nat \<Rightarrow> u64 \<Rightarrow> 'a filest_scheme \<Rightarrow> (i32 \<times> 'a filest_scheme) res" where
  "filestat h stk f addr s =
     rbind (myproc h s) (\<lambda>(mp, s).
       if f_type (files s f) = FD_INODE \<or> f_type (files s f) = FD_DEVICE
       then rbind (ilock h (f_ip (files s f)) s) (\<lambda>s.
            rbind (deref (f_ip (files s f))) (\<lambda>ip.
            let st = stati ip s
            in rbind (iunlock h (f_ip (files s f)) s) (\<lambda>s.
               rbind (deref mp) (\<lambda>p.
               rbind (copyout h (pagetable (procs s p)) addr (stat_bytes st stk) s) (\<lambda>(r, s).
                 if r <s 0 then Ok (- 1, s) else Ok (0, s))))))
       else Ok (- 1, s))"

section \<open>Reading and writing\<close>

text \<open>The local variables of a read or write that sleeps in a pipe or in the console driver.\<close>

datatype rd_locals = PipeRd bool | ConsRd "bool \<times> nat \<times> u64 \<times> u8 list"
datatype wr_locals = PipeWr "bool \<times> nat" | ConsWr "(bool \<times> u8 list) \<times> nat"

definition map_blocking :: "('k \<Rightarrow> 'l) \<Rightarrow> ('r \<Rightarrow> 't) \<Rightarrow> (('k, 'r) blocking \<times> 's) res \<Rightarrow> (('l, 't) blocking \<times> 's) res"
  where
  "map_blocking f g m =
     rbind m (\<lambda>(b, s). Ok (case b of Sleeping k \<Rightarrow> Sleeping (f k) | Return r \<Rightarrow> Return (g r), s))"

definition fileread ::
  "nat \<Rightarrow> nat \<Rightarrow> u64 \<Rightarrow> i32 \<Rightarrow> 'a filest_scheme \<Rightarrow> ((rd_locals, i32) blocking \<times> 'a filest_scheme) res"
where
  "fileread h f addr n s =
     (if \<not> f_readable (files s f) then Ok (Return (- 1), s)
      else case f_type (files s f) of
        FD_PIPE \<Rightarrow> map_blocking PipeRd id (piperead h (f_pipe (files s f)) addr n s)
      | FD_DEVICE \<Rightarrow>
          if f_major (files s f) \<noteq> CONSOLE then Ok (Return (- 1), s)
          else map_blocking ConsRd fst (consoleread h True addr n s)
      | FD_INODE \<Rightarrow>
          rbind (ilock h (f_ip (files s f)) s) (\<lambda>s.
          rbind (deref (f_ip (files s f))) (\<lambda>ip.
          rbind (readi h ip True addr (f_off (files s f)) n s) (\<lambda>(r, _, s).
          let s = (if 0 <s r then upd_file f (\<lambda>x. x\<lparr>f_off := f_off x + r\<rparr>) s else s)
          in rbind (iunlock h (f_ip (files s f)) s) (\<lambda>s. Ok (Return r, s)))))
      | FD_NONE \<Rightarrow> Panic ''fileread'')"

definition fileread_return ::
  "nat \<Rightarrow> nat \<Rightarrow> rd_locals \<Rightarrow> nat \<Rightarrow> u64 \<Rightarrow> i32 \<Rightarrow> 'a filest_scheme \<Rightarrow>
   ((rd_locals, i32) blocking \<times> 'a filest_scheme) res" where
  "fileread_return h p k f addr n s =
     (case k of
        PipeRd ie \<Rightarrow> map_blocking PipeRd id (piperead_return h p ie (f_pipe (files s f)) addr n s)
      | ConsRd l \<Rightarrow> map_blocking ConsRd fst (consoleread_return h p l True n s))"

text \<open>The loop of \<^verbatim>\<open>filewrite\<close> on a disk file, from byte \<open>i\<close> on, in pieces of at most 3072 bytes. The
  result is how far it came.\<close>

function filewrite_loop ::
  "nat \<Rightarrow> nat \<Rightarrow> u64 \<Rightarrow> i32 \<Rightarrow> nat \<Rightarrow> 'a filest_scheme \<Rightarrow> (nat \<times> 'a filest_scheme) res" where
  "filewrite_loop h f addr n i s =
     (if int i < sint n
      then let n1 = min 3072 (nat (sint n) - i)
           in rbind (begin_op h s) (\<lambda>s.
              rbind (ilock h (f_ip (files s f)) s) (\<lambda>s.
              rbind (deref (f_ip (files s f))) (\<lambda>ip.
              rbind (writei h ip True (addr + of_nat i) [] (f_off (files s f)) (of_nat n1) s) (\<lambda>(r, s).
              let s = (if 0 <s r then upd_file f (\<lambda>x. x\<lparr>f_off := f_off x + r\<rparr>) s else s)
              in rbind (iunlock h (f_ip (files s f)) s) (\<lambda>s.
                 rbind (end_op h s) (\<lambda>s.
                 if r \<noteq> of_nat n1 then Ok (i, s)
                 else filewrite_loop h f addr n (i + n1) s))))))
      else Ok (i, s))"
  by pat_completeness auto
termination
  by (relation "measure (\<lambda>(h, f, addr, n, i, s). nat (sint n) - i)") auto

declare filewrite_loop.simps [simp del]

definition filewrite ::
  "nat \<Rightarrow> nat \<Rightarrow> u64 \<Rightarrow> i32 \<Rightarrow> 'a filest_scheme \<Rightarrow> ((wr_locals, i32) blocking \<times> 'a filest_scheme) res"
where
  "filewrite h f addr n s =
     (if \<not> f_writable (files s f) then Ok (Return (- 1), s)
      else case f_type (files s f) of
        FD_PIPE \<Rightarrow> map_blocking PipeWr id (pipewrite h (f_pipe (files s f)) addr n s)
      | FD_DEVICE \<Rightarrow>
          if f_major (files s f) \<noteq> CONSOLE then Ok (Return (- 1), s)
          else map_blocking ConsWr id (consolewrite h True addr [] n s)
      | FD_INODE \<Rightarrow>
          rbind (filewrite_loop h f addr n 0 s) (\<lambda>(i, s).
            Ok (Return (if int i = sint n then n else - 1), s))
      | FD_NONE \<Rightarrow> Panic ''filewrite'')"

definition filewrite_return ::
  "nat \<Rightarrow> nat \<Rightarrow> wr_locals \<Rightarrow> nat \<Rightarrow> u64 \<Rightarrow> i32 \<Rightarrow> 'a filest_scheme \<Rightarrow>
   ((wr_locals, i32) blocking \<times> 'a filest_scheme) res" where
  "filewrite_return h p k f addr n s =
     (case k of
        PipeWr l \<Rightarrow> map_blocking PipeWr id (pipewrite_return h p l (f_pipe (files s f)) addr n s)
      | ConsWr l \<Rightarrow> map_blocking ConsWr id (consolewrite_return h p l True addr [] n s))"

section \<open>Pipes\<close>

definition pipealloc :: "nat \<Rightarrow> 'a filest_scheme \<Rightarrow> ((nat \<times> nat) option \<times> 'a filest_scheme) res" where
  "pipealloc h s =
     (let close = (\<lambda>mf s. case mf of None \<Rightarrow> Ok s | Some f \<Rightarrow> fileclose h f s);
          bad = (\<lambda>f0 f1 s. rbind (close f0 s) (\<lambda>s. rbind (close f1 s) (\<lambda>s. Ok (None, s))))
      in rbind (filealloc h s) (\<lambda>(f0, s).
         rbind (case f0 of None \<Rightarrow> Ok (None, s) | Some _ \<Rightarrow> filealloc h s) (\<lambda>(f1, s).
         case (f0, f1) of
           (Some r, Some w) \<Rightarrow>
             rbind (kalloc h s) (\<lambda>(pi, s).
               if pi = 0 then bad f0 f1 s
               else let s = upd_pipe pi (\<lambda>q. q\<lparr>readopen := True, writeopen := True, nwrite := 0,
                                              nread := 0\<rparr>) s;
                        s = initlock (PipeLock pi) ''pipe'' s;
                        s = upd_file r (\<lambda>x. x\<lparr>f_type := FD_PIPE, f_readable := True,
                                              f_writable := False, f_pipe := pi\<rparr>) s;
                        s = upd_file w (\<lambda>x. x\<lparr>f_type := FD_PIPE, f_readable := False,
                                              f_writable := True, f_pipe := pi\<rparr>) s
                    in Ok (Some (r, w), s))
         | _ \<Rightarrow> bad f0 f1 s)))"

end
