(* ===== verification/Virtio.thy ===== *)
theory Virtio
  imports File
begin

text \<open>
  The disk driver, \<^verbatim>\<open>kernel/virtio_disk.c\<close>: descriptors, the rings it shares with the device, the request
  and the completion interrupt. The device is hardware; it reads the available ring and writes the used
  ring and the status bytes, which are fields of the state here.
\<close>

section \<open>State\<close>

definition VNUM :: nat where [param_defs]: "VNUM = 8"

text \<open>What a descriptor points to.\<close>

datatype daddr = DNull | DOps nat | DData nat | DStatus nat

record virtq_desc =
  d_addr :: daddr
  d_len :: u32
  d_flags :: u16
  d_next :: u16

record virtio_blk_req =
  op_type :: u32
  op_reserved :: u32
  op_sector :: u64

record virtst = filest +
  vd_free :: "nat \<Rightarrow> bool"
  vd_desc :: "nat \<Rightarrow> virtq_desc"
  vd_avail :: "nat \<Rightarrow> u16"
  vd_avail_idx :: u16
  vd_used :: "nat \<Rightarrow> u32"
  vd_used_ring_idx :: u16
  vd_used_idx :: u16
  vd_info_b :: "nat \<Rightarrow> nat option"
  vd_info_status :: "nat \<Rightarrow> u8"
  vd_ops :: "nat \<Rightarrow> virtio_blk_req"
  b_disk :: "nat \<Rightarrow> bool"

abbreviation (input) VRING_DESC_F_NEXT :: u16 where "VRING_DESC_F_NEXT \<equiv> 1"
abbreviation (input) VRING_DESC_F_WRITE :: u16 where "VRING_DESC_F_WRITE \<equiv> 2"

section \<open>Initialisation\<close>

text \<open>\<open>R r\<close> is the value that the driver reads from device register \<open>r\<close>. The queue pages are allocated and
  zeroed; the fields above are what they hold.\<close>

definition virtio_disk_init :: "nat \<Rightarrow> (nat \<Rightarrow> u32) \<Rightarrow> 'a virtst_scheme \<Rightarrow> 'a virtst_scheme res" where
  "virtio_disk_init h R s =
     (let s = initlock VdiskLock ''virtio_disk'' s
      in if R 0x000 \<noteq> 0x74726976 \<or> R 0x004 \<noteq> 2 \<or> R 0x008 \<noteq> 2 \<or> R 0x00c \<noteq> 0x554d4551
         then Panic ''could not find virtio disk''
         else if R 0x070 AND 8 = 0 then Panic ''virtio disk FEATURES_OK unset''
         else if R 0x044 \<noteq> 0 then Panic ''virtio disk should not be ready''
         else if R 0x034 = 0 then Panic ''virtio disk has no queue 0''
         else if R 0x034 < of_nat VNUM then Panic ''virtio disk max queue too short''
         else rbind (kalloc h s) (\<lambda>(desc, s).
              rbind (kalloc h s) (\<lambda>(avail, s).
              rbind (kalloc h s) (\<lambda>(used, s).
                if desc = 0 \<or> avail = 0 \<or> used = 0 then Panic ''virtio disk kalloc''
                else Ok (s\<lparr>mem := memset used 0 4096 (memset avail 0 4096 (memset desc 0 4096 (mem s))),
                  vd_desc := \<lambda>_. \<lparr>d_addr = DNull, d_len = 0, d_flags = 0, d_next = 0\<rparr>,
                  vd_avail := \<lambda>_. 0, vd_avail_idx := 0, vd_used := \<lambda>_. 0, vd_used_ring_idx := 0,
                  vd_free := \<lambda>i. if i < VNUM then True else vd_free s i\<rparr>)))))"

section \<open>Descriptors\<close>

definition alloc_desc :: "'a virtst_scheme \<Rightarrow> nat option \<times> 'a virtst_scheme" where
  "alloc_desc s =
     (case find (vd_free s) [0..<VNUM] of
        Some i \<Rightarrow> (Some i, s\<lparr>vd_free := (vd_free s)(i := False)\<rparr>)
      | None \<Rightarrow> (None, s))"

definition free_desc :: "nat \<Rightarrow> nat \<Rightarrow> 'a virtst_scheme \<Rightarrow> 'a virtst_scheme res" where
  "free_desc h i s =
     (if VNUM \<le> i then Panic ''free_desc 1''
      else if vd_free s i then Panic ''free_desc 2''
      else wakeup h (Some ChDisk)
             (s\<lparr>vd_desc := (vd_desc s)(i := \<lparr>d_addr = DNull, d_len = 0, d_flags = 0, d_next = 0\<rparr>),
                vd_free := (vd_free s)(i := True)\<rparr>))"

text \<open>Every descriptor that \<^verbatim>\<open>free_chain\<close> frees was in use, so the loop ends.\<close>

definition in_use :: "'a virtst_scheme \<Rightarrow> nat set" where
  "in_use s = {i. i < VNUM \<and> \<not> vd_free s i}"

lemma with_lock_wake_more:
  "with_lock h (PLock p) (wake_body ch p x) s = Ok (y, s') \<Longrightarrow> procst.more s' = procst.more s"
proof -
  assume "with_lock h (PLock p) (wake_body ch p x) s = Ok (y, s')"
  then obtain s1 where a: "acquire h (PLock p) s = Ok s1"
    and r: "release h (PLock p) (snd (wake_body ch p x s1)) = Ok s'"
    by (auto simp: with_lock_def split: prod.splits)
  have "procst.more s1 = procst.more s"
    using acquire_more[OF a] by (cases s; cases s1) (simp add: hwst.defs)
  moreover have "procst.more s' = procst.more (snd (wake_body ch p x s1))"
    using release_more[OF r] by (cases "snd (wake_body ch p x s1)"; cases s') (simp add: hwst.defs)
  ultimately show ?thesis by (simp add: wake_body_def)
qed

lemma wakeup_more: "wakeup h ch s = Ok s' \<Longrightarrow> procst.more s' = procst.more s"
  unfolding wakeup_def
proof (erule rfold_invariant[where I = "\<lambda>t. procst.more t = procst.more s"])
  show "procst.more s = procst.more s" ..
  fix p and t t' :: "'a procst_scheme"
  assume I: "procst.more t = procst.more s"
    and step: "rbind (myproc h t) (\<lambda>(mp, s). if mp = Some p then Ok s
      else rbind (with_lock h (PLock p) (wake_body ch p ()) s) (\<lambda>(_, s). Ok s)) = Ok t'"
  then obtain mp u where mp: "myproc h t = Ok (mp, u)" by auto
  have "procst.more u = procst.more t"
    using myproc_more[OF mp] by (cases t; cases u) (simp add: hwst.defs)
  with I step mp show "procst.more t' = procst.more s"
    by (auto dest: with_lock_wake_more split: if_splits)
qed

lemma virtst_of_more:
  "procst.more s' = procst.more s \<Longrightarrow> vd_free s' = vd_free s \<and> vd_desc s' = vd_desc s" for s :: "'a virtst_scheme"
  by (cases s; cases s') (simp add: procst.defs)

lemma free_desc_in_use:
  assumes "free_desc h i s = Ok s'"
  shows "i \<in> in_use s" "in_use s' = in_use s - {i}"
proof -
  from assms have i: "i < VNUM" "\<not> vd_free s i"
    and w: "wakeup h (Some ChDisk) (s\<lparr>vd_desc := (vd_desc s)(i := \<lparr>d_addr = DNull, d_len = 0,
              d_flags = 0, d_next = 0\<rparr>), vd_free := (vd_free s)(i := True)\<rparr>) = Ok s'"
    by (auto simp: free_desc_def split: if_splits)
  then show "i \<in> in_use s" by (simp add: in_use_def)
  show "in_use s' = in_use s - {i}"
    using virtst_of_more[OF wakeup_more[OF w]] by (auto simp: in_use_def)
qed

lemma finite_in_use [simp]: "finite (in_use s)"
  by (simp add: in_use_def)

lemma free_desc_card: "free_desc h i s = Ok s' \<Longrightarrow> card (in_use s') < card (in_use s)"
  using free_desc_in_use[of h i s s'] card_Diff1_less[OF finite_in_use, of i s] by simp

function free_chain :: "nat \<Rightarrow> nat \<Rightarrow> 'a virtst_scheme \<Rightarrow> 'a virtst_scheme res" where
  "free_chain h i s =
     (let flag = d_flags (vd_desc s i); nxt = unat (d_next (vd_desc s i))
      in rbind (free_desc h i s) (\<lambda>s.
         if flag AND VRING_DESC_F_NEXT \<noteq> 0 then free_chain h nxt s else Ok s))"
  by pat_completeness auto
termination
  by (relation "measure (\<lambda>(h, i, s). card (in_use s))")
     (auto dest: free_desc_card)

declare free_chain.simps [simp del]

definition alloc3_desc :: "nat \<Rightarrow> 'a virtst_scheme \<Rightarrow> ((nat \<times> nat \<times> nat) option \<times> 'a virtst_scheme) res"
  where
  "alloc3_desc h s =
     (case alloc_desc s of
        (None, s) \<Rightarrow> Ok (None, s)
      | (Some i0, s) \<Rightarrow>
          (case alloc_desc s of
             (None, s) \<Rightarrow> rbind (free_desc h i0 s) (\<lambda>s. Ok (None, s))
           | (Some i1, s) \<Rightarrow>
               (case alloc_desc s of
                  (None, s) \<Rightarrow> rbind (free_desc h i0 s) (\<lambda>s.
                               rbind (free_desc h i1 s) (\<lambda>s. Ok (None, s)))
                | (Some i2, s) \<Rightarrow> Ok (Some (i0, i1, i2), s))))"

section \<open>Requests\<close>

text \<open>Filling in the three descriptors and handing the chain to the device.\<close>

definition vdisk_submit :: "nat \<Rightarrow> bool \<Rightarrow> nat \<times> nat \<times> nat \<Rightarrow> 'a virtst_scheme \<Rightarrow> 'a virtst_scheme" where
  "vdisk_submit b write idx s =
     (case idx of (i0, i1, i2) \<Rightarrow>
      let sector = ucast (b_blockno (bufs s b) * 2) :: u64;
          s = s\<lparr>vd_ops := (vd_ops s)(i0 := \<lparr>op_type = (if write then 1 else 0), op_reserved = 0,
                                           op_sector = sector\<rparr>)\<rparr>;
          s = s\<lparr>vd_desc := (vd_desc s)(i0 := \<lparr>d_addr = DOps i0, d_len = 16,
                d_flags = VRING_DESC_F_NEXT, d_next = of_nat i1\<rparr>)\<rparr>;
          s = s\<lparr>vd_desc := (vd_desc s)(i1 := \<lparr>d_addr = DData b, d_len = 1024,
                d_flags = (if write then 0 else VRING_DESC_F_WRITE) OR VRING_DESC_F_NEXT,
                d_next = of_nat i2\<rparr>)\<rparr>;
          s = s\<lparr>vd_info_status := (vd_info_status s)(i0 := 0xff)\<rparr>;
          s = s\<lparr>vd_desc := (vd_desc s)(i2 := \<lparr>d_addr = DStatus i0, d_len = 1,
                d_flags = VRING_DESC_F_WRITE, d_next = 0\<rparr>)\<rparr>;
          s = s\<lparr>b_disk := (b_disk s)(b := True)\<rparr>;
          s = s\<lparr>vd_info_b := (vd_info_b s)(i0 := Some b)\<rparr>;
          s = s\<lparr>vd_avail := (vd_avail s)(unat (vd_avail_idx s mod 8) := of_nat i0)\<rparr>
      in s\<lparr>vd_avail_idx := vd_avail_idx s + 1\<rparr>)"

text \<open>The local variables of \<^verbatim>\<open>virtio_disk_rw\<close> at its two sleeps: waiting for descriptors, and for the
  device to finish the request whose first descriptor is given.\<close>

datatype rw_locals = AllocWait bool | DoneWait bool nat

definition vdisk_wait_turn ::
  "nat \<Rightarrow> nat \<Rightarrow> nat \<Rightarrow> 'a virtst_scheme \<Rightarrow> ((rw_locals, unit) blocking \<times> 'a virtst_scheme) res" where
  "vdisk_wait_turn h b i0 s =
     (if b_disk s b
      then rbind (sleep_enter h (ChBuf b) VdiskLock s) (\<lambda>(ie, s). Ok (Sleeping (DoneWait ie i0), s))
      else let s = s\<lparr>vd_info_b := (vd_info_b s)(i0 := None)\<rparr>
           in rbind (free_chain h i0 s) (\<lambda>s.
              rbind (release h VdiskLock s) (\<lambda>s. Ok (Return (), s))))"

definition vdisk_alloc_turn ::
  "nat \<Rightarrow> nat \<Rightarrow> bool \<Rightarrow> 'a virtst_scheme \<Rightarrow> ((rw_locals, unit) blocking \<times> 'a virtst_scheme) res" where
  "vdisk_alloc_turn h b write s =
     rbind (alloc3_desc h s) (\<lambda>(r, s).
       case r of
         None \<Rightarrow> rbind (sleep_enter h ChDisk VdiskLock s) (\<lambda>(ie, s). Ok (Sleeping (AllocWait ie), s))
       | Some (i0, i1, i2) \<Rightarrow> vdisk_wait_turn h b i0 (vdisk_submit b write (i0, i1, i2) s))"

definition virtio_disk_rw ::
  "nat \<Rightarrow> nat \<Rightarrow> bool \<Rightarrow> 'a virtst_scheme \<Rightarrow> ((rw_locals, unit) blocking \<times> 'a virtst_scheme) res" where
  "virtio_disk_rw h b write s =
     rbind (acquire h VdiskLock s) (\<lambda>s. vdisk_alloc_turn h b write s)"

definition virtio_disk_rw_return ::
  "nat \<Rightarrow> nat \<Rightarrow> rw_locals \<Rightarrow> nat \<Rightarrow> bool \<Rightarrow> 'a virtst_scheme \<Rightarrow>
   ((rw_locals, unit) blocking \<times> 'a virtst_scheme) res" where
  "virtio_disk_rw_return h p k b write s =
     (case k of
        AllocWait ie \<Rightarrow> rbind (sleep_return h p ie VdiskLock s) (\<lambda>s. vdisk_alloc_turn h b write s)
      | DoneWait ie i0 \<Rightarrow> rbind (sleep_return h p ie VdiskLock s) (\<lambda>s. vdisk_wait_turn h b i0 s))"

section \<open>The completion interrupt\<close>

lemma virtst_idx_of_more:
  "procst.more s' = procst.more s \<Longrightarrow>
     vd_used_idx s' = vd_used_idx s \<and> vd_used_ring_idx s' = vd_used_ring_idx s" for s :: "'a virtst_scheme"
  by (cases s; cases s') (simp add: procst.defs)

function vdisk_intr_loop :: "nat \<Rightarrow> 'a virtst_scheme \<Rightarrow> 'a virtst_scheme res" where
  "vdisk_intr_loop h s =
     (if vd_used_idx s \<noteq> vd_used_ring_idx s
      then let i = unat (vd_used s (unat (vd_used_idx s mod 8)))
           in if vd_info_status s i \<noteq> 0 then Panic ''virtio_disk_intr status''
              else rbind (deref (vd_info_b s i)) (\<lambda>b.
                   rbind (wakeup h (Some (ChBuf b)) (s\<lparr>b_disk := (b_disk s)(b := False)\<rparr>)) (\<lambda>s.
                   vdisk_intr_loop h (s\<lparr>vd_used_idx := vd_used_idx s + 1\<rparr>)))
      else Ok s)"
  by pat_completeness auto
termination
proof (relation "measure (\<lambda>(h, s). unat (vd_used_ring_idx s - vd_used_idx s))")
  fix h b i and s s' :: "'a virtst_scheme"
  assume ne: "vd_used_idx s \<noteq> vd_used_ring_idx s"
    and "wakeup h (Some (ChBuf b)) (s\<lparr>b_disk := (b_disk s)(b := False)\<rparr>) = Ok s'"
  then have eq: "vd_used_idx s' = vd_used_idx s" "vd_used_ring_idx s' = vd_used_ring_idx s"
    using virtst_idx_of_more[OF wakeup_more] by fastforce+
  have "unat (vd_used_ring_idx s - vd_used_idx s - 1) < unat (vd_used_ring_idx s - vd_used_idx s)"
    using ne unat_minus_one[of "vd_used_ring_idx s - vd_used_idx s"] by (simp add: unat_gt_0)
  then show "((h, s'\<lparr>vd_used_idx := vd_used_idx s' + 1\<rparr>), (h, s))
      \<in> measure (\<lambda>(h, s). unat (vd_used_ring_idx s - vd_used_idx s))"
    by (simp add: eq algebra_simps)
qed simp

declare vdisk_intr_loop.simps [simp del]

definition virtio_disk_intr :: "nat \<Rightarrow> 'a virtst_scheme \<Rightarrow> 'a virtst_scheme res" where
  "virtio_disk_intr h s =
     rbind (acquire h VdiskLock s) (\<lambda>s.
     rbind (vdisk_intr_loop h s) (\<lambda>s. release h VdiskLock s))"

end
