(* ===== verification/Exec.thy ===== *)
theory Exec
  imports Virtio
begin

text \<open>
  Loading a program, \<^verbatim>\<open>kernel/exec.c\<close>. The argument vector is the list of its strings without
  terminators.
\<close>

section \<open>ELF headers\<close>

definition word_at :: "u8 list \<Rightarrow> nat \<Rightarrow> nat \<Rightarrow> u64" where
  "word_at bs off n = word64_of (take n (drop off bs))"

abbreviation (input) ELF_MAGIC :: u64 where "ELF_MAGIC \<equiv> 0x464C457F"

text \<open>\<^verbatim>\<open>struct elfhdr\<close> is 64 bytes and \<^verbatim>\<open>struct proghdr\<close> is 56 bytes.\<close>

definition elf_magic :: "u8 list \<Rightarrow> u64" where "elf_magic e = word_at e 0 4"
definition elf_entry :: "u8 list \<Rightarrow> u64" where "elf_entry e = word_at e 24 8"
definition elf_phoff :: "u8 list \<Rightarrow> u64" where "elf_phoff e = word_at e 32 8"
definition elf_phnum :: "u8 list \<Rightarrow> u64" where "elf_phnum e = word_at e 56 2"
definition ph_type :: "u8 list \<Rightarrow> u64" where "ph_type p = word_at p 0 4"
definition ph_flags :: "u8 list \<Rightarrow> u64" where "ph_flags p = word_at p 4 4"
definition ph_off :: "u8 list \<Rightarrow> u64" where "ph_off p = word_at p 8 8"
definition ph_vaddr :: "u8 list \<Rightarrow> u64" where "ph_vaddr p = word_at p 16 8"
definition ph_filesz :: "u8 list \<Rightarrow> u64" where "ph_filesz p = word_at p 32 8"
definition ph_memsz :: "u8 list \<Rightarrow> u64" where "ph_memsz p = word_at p 40 8"

definition flags2perm :: "i32 \<Rightarrow> i32" where
  "flags2perm flags =
     (let perm = (if flags AND 1 \<noteq> 0 then 8 else 0)
      in if flags AND 2 \<noteq> 0 then perm OR 4 else perm)"

section \<open>Segments\<close>

text \<open>One page per turn; \<open>k\<close> counts the pages. What \<^verbatim>\<open>readi\<close> has read goes to the page even when it falls
  short.\<close>

definition loadseg ::
  "nat \<Rightarrow> u64 \<Rightarrow> u64 \<Rightarrow> nat \<Rightarrow> u32 \<Rightarrow> u32 \<Rightarrow> 'a fsst_scheme \<Rightarrow> (i32 \<times> 'a fsst_scheme) res" where
  "loadseg h pt va ip offset len s =
     rbind (rsearch (\<lambda>k s.
              let i = 4096 * of_nat k :: u32
              in rbind (walkaddr h pt (va + ucast i) s) (\<lambda>(pa, s).
                 if pa = 0 then Panic ''loadseg: address should exist''
                 else let n = (if len - i < 4096 then len - i else 4096)
                      in rbind (readi h ip False pa (offset + i) n s) (\<lambda>(r, bs, s).
                         let s = s\<lparr>mem := put_bytes pa bs (mem s)\<rparr>
                         in if r \<noteq> n then Ok (Some (), s) else Ok (None, s))))
            [0..<(unat len + 4095) div 4096] s)
       (\<lambda>(r, s). case r of Some _ \<Rightarrow> Ok (- 1, s) | None \<Rightarrow> Ok (0, s))"

text \<open>The loop over the program headers; the state carries the size so far. \<open>Some ()\<close> is \<^verbatim>\<open>goto bad\<close>.\<close>

definition load_program ::
  "nat \<Rightarrow> nat \<Rightarrow> u64 \<Rightarrow> u8 list \<Rightarrow> u64 \<times> 'a fsst_scheme \<Rightarrow> (unit option \<times> u64 \<times> 'a fsst_scheme) res" where
  "load_program h ip pt elf st =
     rsearch (\<lambda>i (size, s).
       rbind (readi h ip False 0 (ucast (elf_phoff elf) + 56 * of_nat i) 56 s) (\<lambda>(r, ph, s).
         if r \<noteq> 56 then Ok (Some (), size, s)
         else if ph_type ph \<noteq> 1 then Ok (None, size, s)
         else if ph_memsz ph < ph_filesz ph then Ok (Some (), size, s)
         else if ph_vaddr ph + ph_memsz ph < ph_vaddr ph then Ok (Some (), size, s)
         else if ph_vaddr ph mod PGSIZE \<noteq> 0 then Ok (Some (), size, s)
         else rbind (uvmalloc h pt size (ph_vaddr ph + ph_memsz ph)
                       (flags2perm (ucast (ph_flags ph))) s) (\<lambda>(sz1, s).
              if sz1 = 0 then Ok (Some (), size, s)
              else rbind (loadseg h pt (ph_vaddr ph) ip (ucast (ph_off ph)) (ucast (ph_filesz ph)) s)
                     (\<lambda>(r, s).
                   if r <s 0 then Ok (Some (), sz1, s) else Ok (None, sz1, s)))))
       [0..<unat (elf_phnum elf)] st"

section \<open>Arguments\<close>

text \<open>Pushing the argument strings: the new stack pointer and their addresses, or \<open>None\<close> for \<^verbatim>\<open>goto
  bad\<close>.\<close>

primrec push_args ::
  "nat \<Rightarrow> u64 \<Rightarrow> u64 \<Rightarrow> u8 list list \<Rightarrow> nat \<Rightarrow> u64 \<Rightarrow> u64 list \<Rightarrow> 'a procst_scheme \<Rightarrow>
   ((u64 \<times> u64 list) option \<times> 'a procst_scheme) res" where
  "push_args h pt stackbase [] argc sp ustack s = Ok (Some (sp, ustack), s)"
| "push_args h pt stackbase (a # as) argc sp ustack s =
     (if 32 \<le> argc then Ok (None, s)
      else let sp = sp - (of_nat (length a) + 1); sp = sp - sp mod 16
           in if sp < stackbase then Ok (None, s)
              else rbind (copyout h pt sp (a @ [0]) s) (\<lambda>(r, s).
                   if r <s 0 then Ok (None, s)
                   else push_args h pt stackbase as (Suc argc) sp (ustack @ [sp]) s))"

text \<open>The last element of a path.\<close>

definition base_name :: "u8 list \<Rightarrow> u8 list" where
  "base_name path = rev (takeWhile (\<lambda>b. b \<noteq> 47) (rev path))"

section \<open>kexec\<close>

text \<open>The exit at label \<^verbatim>\<open>bad\<close>: \<open>pt\<close> is 0 before the page table exists, \<open>mip\<close> is the locked inode.\<close>

definition kexec_bad ::
  "nat \<Rightarrow> u64 \<Rightarrow> u64 \<Rightarrow> nat option \<Rightarrow> 'a fsst_scheme \<Rightarrow> (i32 \<times> 'a fsst_scheme) res" where
  "kexec_bad h pt len mip s =
     rbind (if pt \<noteq> 0 then proc_freepagetable h pt len s else Ok s) (\<lambda>s.
     case mip of
       None \<Rightarrow> Ok (- 1, s)
     | Some ip \<Rightarrow> rbind (iunlockput h ip s) (\<lambda>s. rbind (end_op h s) (\<lambda>s. Ok (- 1, s))))"

text \<open>From the loaded image to the commit to it.\<close>

definition kexec_stack ::
  "nat \<Rightarrow> nat \<Rightarrow> u64 \<Rightarrow> u64 \<Rightarrow> u8 list \<Rightarrow> u8 list \<Rightarrow> u8 list list \<Rightarrow> 'a fsst_scheme \<Rightarrow>
   (i32 \<times> 'a fsst_scheme) res" where
  "kexec_stack h p pt len elf path argv s =
     (let oldsz = sz (procs s p); size = PGROUNDUP len
      in rbind (uvmalloc h pt size (size + 2 * PGSIZE) 4 s) (\<lambda>(sz1, s).
         if sz1 = 0 then kexec_bad h pt size None s
         else rbind (uvmclear h pt (sz1 - 2 * PGSIZE) s) (\<lambda>s.
              let stackbase = sz1 - PGSIZE
              in rbind (push_args h pt stackbase argv 0 sz1 [] s) (\<lambda>(r, s).
                 case r of
                   None \<Rightarrow> kexec_bad h pt sz1 None s
                 | Some (sp, ustack) \<Rightarrow>
                     let argc = length ustack;
                         sp = sp - of_nat (8 * (argc + 1)); sp = sp - sp mod 16
                     in if sp < stackbase then kexec_bad h pt sz1 None s
                        else rbind (copyout h pt sp (concat (map bytes64 (ustack @ [0]))) s) (\<lambda>(r, s).
                             if r <s 0 then kexec_bad h pt sz1 None s
                             else let s = tf_set p TF_A1 sp s;
                                      s = upd_proc p (\<lambda>q. q\<lparr>pname := take 15 (base_name path)\<rparr>) s;
                                      oldpagetable = pagetable (procs s p);
                                      s = upd_proc p (\<lambda>q. q\<lparr>pagetable := pt, sz := sz1\<rparr>) s;
                                      s = tf_set p TF_EPC (elf_entry elf) s;
                                      s = tf_set p TF_SP sp s
                                  in rbind (proc_freepagetable h oldpagetable oldsz s) (\<lambda>s.
                                     Ok (of_nat argc, s)))))))"

definition kexec ::
  "nat \<Rightarrow> u8 list \<Rightarrow> u8 list list \<Rightarrow> 'a fsst_scheme \<Rightarrow> (i32 \<times> 'a fsst_scheme) res" where
  "kexec h path argv s =
     rbind (myproc h s) (\<lambda>(mp, s).
     rbind (begin_op h s) (\<lambda>s.
     rbind (namei h path s) (\<lambda>(mip, s).
     case mip of
       None \<Rightarrow> rbind (end_op h s) (\<lambda>s. Ok (- 1, s))
     | Some ip \<Rightarrow>
         rbind (ilock h (Some ip) s) (\<lambda>s.
         rbind (readi h ip False 0 0 64 s) (\<lambda>(r, elf, s).
           if r \<noteq> 64 then kexec_bad h 0 0 (Some ip) s
           else if elf_magic elf \<noteq> ELF_MAGIC then kexec_bad h 0 0 (Some ip) s
           else rbind (deref mp) (\<lambda>p.
                rbind (proc_pagetable h p s) (\<lambda>(pt, s).
                  if pt = 0 then kexec_bad h 0 0 (Some ip) s
                  else rbind (load_program h ip pt elf (0, s)) (\<lambda>(r, size, s).
                       case r of
                         Some _ \<Rightarrow> kexec_bad h pt size (Some ip) s
                       | None \<Rightarrow>
                           rbind (iunlockput h ip s) (\<lambda>s.
                           rbind (end_op h s) (\<lambda>s.
                           rbind (myproc h s) (\<lambda>(mp, s).
                           rbind (deref mp) (\<lambda>p. kexec_stack h p pt size elf path argv s))))))))))))"

end
