(* ===== verification/Life.thy ===== *)
theory Life
  imports Exec
begin

text \<open>
  The life of a process: \<^verbatim>\<open>userinit\<close>, \<^verbatim>\<open>kfork\<close>, \<^verbatim>\<open>kexit\<close> and \<^verbatim>\<open>forkret\<close> of \<^verbatim>\<open>kernel/proc.c\<close>, and
  \<^verbatim>\<open>prepare_return\<close> of \<^verbatim>\<open>kernel/trap.c\<close>, which ends every stay in the kernel.

  The supervisor registers of hart \<open>h\<close> are \<open>csr h\<close>; of \<^verbatim>\<open>sstatus\<close> the bits \<^verbatim>\<open>SPP\<close> and \<^verbatim>\<open>SPIE\<close> are
  here, and \<^verbatim>\<open>SIE\<close> is \<^const>\<open>sie\<close>. The fields named \<open>_sym\<close> are addresses chosen by the linker.
\<close>

section \<open>State\<close>

record csrs =
  stvec :: u64
  sepc :: u64
  scause :: u64
  stval :: u64
  satp :: u64
  spp :: bool
  spie :: bool
  stimecmp :: u64
  mtime :: u64
  plic_pending :: u32

record trapst = virtst +
  csr :: "nat \<Rightarrow> csrs"
  forkret_first :: bool
  uservec_sym :: u64
  usertrap_sym :: u64
  kernelvec_sym :: u64

definition upd_csr :: "nat \<Rightarrow> (csrs \<Rightarrow> csrs) \<Rightarrow> 'a trapst_scheme \<Rightarrow> 'a trapst_scheme" where
  "upd_csr h f s = s\<lparr>csr := (csr s)(h := f (csr s h))\<rparr>"

definition MAKE_SATP :: "u64 \<Rightarrow> u64" where
  "MAKE_SATP pt = push_bit 60 8 OR drop_bit 12 pt"

section \<open>The way to user space\<close>

definition prepare_return :: "nat \<Rightarrow> 'a trapst_scheme \<Rightarrow> 'a trapst_scheme res" where
  "prepare_return h s =
     rbind (myproc h s) (\<lambda>(mp, s).
     let s = intr_off h s;
         s = upd_csr h (\<lambda>c. c\<lparr>stvec := TRAMPOLINE + (uservec_sym s - trampoline_sym s)\<rparr>) s
     in rbind (deref mp) (\<lambda>p.
        let s = tf_set p TF_KERNEL_SATP (satp (csr s h)) s;
            s = tf_set p TF_KERNEL_SP (kstack (procs s p) + PGSIZE) s;
            s = tf_set p TF_KERNEL_TRAP (usertrap_sym s) s;
            s = tf_set p TF_KERNEL_HARTID (of_nat h) s;
            s = upd_csr h (\<lambda>c. c\<lparr>spp := False, spie := True\<rparr>) s
        in Ok (upd_csr h (\<lambda>c. c\<lparr>sepc := tf_get p TF_EPC s\<rparr>) s)))"

section \<open>Creation\<close>

definition userinit :: "nat \<Rightarrow> 'a fsst_scheme \<Rightarrow> 'a fsst_scheme res" where
  "userinit h s =
     rbind (allocproc h s) (\<lambda>(mp, s).
     let s = s\<lparr>initproc := mp\<rparr>
     in rbind (namei h [47] s) (\<lambda>(mip, s).
        rbind (deref mp) (\<lambda>p.
        release h (PLock p) (upd_proc p (\<lambda>q. q\<lparr>cwd := mip, state := RUNNABLE\<rparr>) s))))"

text \<open>The part of \<^verbatim>\<open>kfork\<close> that copies the open files and the current directory.\<close>

definition fork_files :: "nat \<Rightarrow> nat \<Rightarrow> nat \<Rightarrow> 'a filest_scheme \<Rightarrow> 'a filest_scheme res" where
  "fork_files h p np s =
     rbind (rfold (\<lambda>i s. case ofile (procs s p) i of
                           None \<Rightarrow> Ok s
                         | Some f \<Rightarrow> rbind (filedup h f s) (\<lambda>(f, s).
                             Ok (upd_proc np (\<lambda>q. q\<lparr>ofile := (ofile q)(i := Some f)\<rparr>) s)))
              [0..<NOFILE] s) (\<lambda>s.
     rbind (deref (cwd (procs s p))) (\<lambda>ip.
     rbind (idup h ip s) (\<lambda>(ip, s). Ok (upd_proc np (\<lambda>q. q\<lparr>cwd := Some ip\<rparr>) s))))"

definition kfork :: "nat \<Rightarrow> 'a filest_scheme \<Rightarrow> (i32 \<times> 'a filest_scheme) res" where
  "kfork h s =
     rbind (myproc h s) (\<lambda>(mp, s).
     rbind (allocproc h s) (\<lambda>(mnp, s).
     case mnp of
       None \<Rightarrow> Ok (- 1, s)
     | Some np \<Rightarrow>
         rbind (deref mp) (\<lambda>p.
         rbind (uvmcopy h (pagetable (procs s p)) (pagetable (procs s np)) (sz (procs s p)) s) (\<lambda>(r, s).
           if r <s 0
           then rbind (freeproc h np s) (\<lambda>s. rbind (release h (PLock np) s) (\<lambda>s. Ok (- 1, s)))
           else let s = upd_proc np (\<lambda>q. q\<lparr>sz := sz (procs s p)\<rparr>) s;
                    s = s\<lparr>mem := memmove (trapframe (procs s np)) (trapframe (procs s p)) 288 (mem s)\<rparr>;
                    s = tf_set np TF_A0 0 s
                in rbind (fork_files h p np s) (\<lambda>s.
                   let s = upd_proc np (\<lambda>q. q\<lparr>pname := take 15 (pname (procs s p))\<rparr>) s;
                       n = pid (procs s np)
                   in rbind (release h (PLock np) s) (\<lambda>s.
                      rbind (acquire h WaitLock s) (\<lambda>s.
                      rbind (release h WaitLock (upd_proc np (\<lambda>q. q\<lparr>parent := Some p\<rparr>) s)) (\<lambda>s.
                      rbind (acquire h (PLock np) s) (\<lambda>s.
                      rbind (release h (PLock np) (upd_proc np (\<lambda>q. q\<lparr>state := RUNNABLE\<rparr>) s)) (\<lambda>s.
                      Ok (n, s)))))))))))"

section \<open>Exit\<close>

text \<open>\<^verbatim>\<open>kexit\<close> up to the switch to the scheduler. A zombie is never switched to again, so there is no code
  after the switch but the call of \<^verbatim>\<open>panic\<close>.\<close>

definition kexit :: "nat \<Rightarrow> i32 \<Rightarrow> 'a filest_scheme \<Rightarrow> 'a filest_scheme res" where
  "kexit h status s =
     rbind (myproc h s) (\<lambda>(mp, s).
       if mp = initproc s then Panic ''init exiting''
       else rbind (deref mp) (\<lambda>p.
            rbind (rfold (\<lambda>fd s. case ofile (procs s p) fd of
                            None \<Rightarrow> Ok s
                          | Some f \<Rightarrow> rbind (fileclose h f s) (\<lambda>s.
                              Ok (upd_proc p (\<lambda>q. q\<lparr>ofile := (ofile q)(fd := None)\<rparr>) s)))
                     [0..<NOFILE] s) (\<lambda>s.
            rbind (begin_op h s) (\<lambda>s.
            rbind (deref (cwd (procs s p))) (\<lambda>ip.
            rbind (iput h ip s) (\<lambda>s.
            rbind (end_op h s) (\<lambda>s.
            kexit_finish h p status (upd_proc p (\<lambda>q. q\<lparr>cwd := None\<rparr>) s))))))))"

section \<open>The first run of a process\<close>

text \<open>\<^verbatim>\<open>forkret\<close> up to the jump to the trampoline; the result is the \<^verbatim>\<open>satp\<close> it passes.\<close>

definition forkret :: "nat \<Rightarrow> 'a trapst_scheme \<Rightarrow> (u64 \<times> 'a trapst_scheme) res" where
  "forkret h s =
     rbind (myproc h s) (\<lambda>(mp, s).
     rbind (deref mp) (\<lambda>p.
     rbind (release h (PLock p) s) (\<lambda>s.
     rbind (if forkret_first s
            then rbind (fsinit h ROOTDEV s) (\<lambda>s.
                 let s = s\<lparr>forkret_first := False\<rparr>
                 in rbind (kexec h (cstr ''/init'') [cstr ''/init''] s) (\<lambda>(r, s).
                    let s = tf_set p TF_A0 (scast r) s
                    in if tf_get p TF_A0 s = - 1 then Panic ''exec'' else Ok s))
            else Ok s) (\<lambda>s.
     rbind (prepare_return h s) (\<lambda>s. Ok (MAKE_SATP (pagetable (procs s p)), s))))))"

end
