(* ===== verification/Sysfile.thy ===== *)
theory Sysfile
  imports Life
begin

text \<open>
  The file system calls, \<^verbatim>\<open>kernel/sysfile.c\<close>. Each takes its arguments from the trap frame and returns
  the 64-bit value for register \<open>a0\<close>, -1 on an error.
\<close>

section \<open>Descriptors\<close>

definition argfd ::
  "nat \<Rightarrow> nat \<Rightarrow> 'a filest_scheme \<Rightarrow> ((nat \<times> nat) option \<times> 'a filest_scheme) res" where
  "argfd h n s =
     rbind (argint h n s) (\<lambda>(fd, s).
       if fd <s 0 \<or> of_nat NOFILE \<le>s fd then Ok (None, s)
       else rbind (myproc h s) (\<lambda>(mp, s).
            rbind (deref mp) (\<lambda>p.
            case ofile (procs s p) (unat fd) of
              None \<Rightarrow> Ok (None, s)
            | Some f \<Rightarrow> Ok (Some (unat fd, f), s))))"

definition set_ofile :: "nat \<Rightarrow> nat \<Rightarrow> nat option \<Rightarrow> 'a procst_scheme \<Rightarrow> 'a procst_scheme" where
  "set_ofile p fd mf s = upd_proc p (\<lambda>q. q\<lparr>ofile := (ofile q)(fd := mf)\<rparr>) s"

definition fdalloc :: "nat \<Rightarrow> nat \<Rightarrow> 'a filest_scheme \<Rightarrow> (nat option \<times> 'a filest_scheme) res" where
  "fdalloc h f s =
     rbind (myproc h s) (\<lambda>(mp, s).
     rbind (deref mp) (\<lambda>p.
     case find (\<lambda>fd. ofile (procs s p) fd = None) [0..<NOFILE] of
       None \<Rightarrow> Ok (None, s)
     | Some fd \<Rightarrow> Ok (Some fd, set_ofile p fd (Some f) s)))"

definition sys_dup :: "nat \<Rightarrow> 'a filest_scheme \<Rightarrow> (u64 \<times> 'a filest_scheme) res" where
  "sys_dup h s =
     rbind (argfd h 0 s) (\<lambda>(r, s). case r of
       None \<Rightarrow> Ok (- 1, s)
     | Some (_, f) \<Rightarrow> rbind (fdalloc h f s) (\<lambda>(r, s). case r of
         None \<Rightarrow> Ok (- 1, s)
       | Some fd \<Rightarrow> rbind (filedup h f s) (\<lambda>(_, s). Ok (of_nat fd, s))))"

text \<open>A read or write that sleeps keeps its file, address and count.\<close>

definition sys_read ::
  "nat \<Rightarrow> 'a filest_scheme \<Rightarrow> ((rd_locals \<times> nat \<times> u64 \<times> i32, u64) blocking \<times> 'a filest_scheme) res" where
  "sys_read h s =
     rbind (argaddr h 1 s) (\<lambda>(p, s).
     rbind (argint h 2 s) (\<lambda>(n, s).
     rbind (argfd h 0 s) (\<lambda>(r, s). case r of
       None \<Rightarrow> Ok (Return (- 1), s)
     | Some (_, f) \<Rightarrow> map_blocking (\<lambda>k. (k, f, p, n)) scast (fileread h f p n s))))"

definition sys_read_return ::
  "nat \<Rightarrow> nat \<Rightarrow> rd_locals \<times> nat \<times> u64 \<times> i32 \<Rightarrow> 'a filest_scheme \<Rightarrow>
   ((rd_locals \<times> nat \<times> u64 \<times> i32, u64) blocking \<times> 'a filest_scheme) res" where
  "sys_read_return h pr k s =
     (case k of (l, f, p, n) \<Rightarrow> map_blocking (\<lambda>k. (k, f, p, n)) scast (fileread_return h pr l f p n s))"

definition sys_write ::
  "nat \<Rightarrow> 'a filest_scheme \<Rightarrow> ((wr_locals \<times> nat \<times> u64 \<times> i32, u64) blocking \<times> 'a filest_scheme) res" where
  "sys_write h s =
     rbind (argaddr h 1 s) (\<lambda>(p, s).
     rbind (argint h 2 s) (\<lambda>(n, s).
     rbind (argfd h 0 s) (\<lambda>(r, s). case r of
       None \<Rightarrow> Ok (Return (- 1), s)
     | Some (_, f) \<Rightarrow> map_blocking (\<lambda>k. (k, f, p, n)) scast (filewrite h f p n s))))"

definition sys_write_return ::
  "nat \<Rightarrow> nat \<Rightarrow> wr_locals \<times> nat \<times> u64 \<times> i32 \<Rightarrow> 'a filest_scheme \<Rightarrow>
   ((wr_locals \<times> nat \<times> u64 \<times> i32, u64) blocking \<times> 'a filest_scheme) res" where
  "sys_write_return h pr k s =
     (case k of (l, f, p, n) \<Rightarrow> map_blocking (\<lambda>k. (k, f, p, n)) scast (filewrite_return h pr l f p n s))"

definition sys_close :: "nat \<Rightarrow> 'a filest_scheme \<Rightarrow> (u64 \<times> 'a filest_scheme) res" where
  "sys_close h s =
     rbind (argfd h 0 s) (\<lambda>(r, s). case r of
       None \<Rightarrow> Ok (- 1, s)
     | Some (fd, f) \<Rightarrow>
         rbind (myproc h s) (\<lambda>(mp, s).
         rbind (deref mp) (\<lambda>p.
         rbind (fileclose h f (set_ofile p fd None s)) (\<lambda>s. Ok (0, s)))))"

definition sys_fstat :: "nat \<Rightarrow> u8 list \<Rightarrow> 'a filest_scheme \<Rightarrow> (u64 \<times> 'a filest_scheme) res" where
  "sys_fstat h stk s =
     rbind (argaddr h 1 s) (\<lambda>(st, s).
     rbind (argfd h 0 s) (\<lambda>(r, s). case r of
       None \<Rightarrow> Ok (- 1, s)
     | Some (_, f) \<Rightarrow> rbind (filestat h stk f st s) (\<lambda>(r, s). Ok (scast r, s))))"

section \<open>Links\<close>

abbreviation (input) MAXPATH :: nat where "MAXPATH \<equiv> 128"

definition add_nlink :: "nat \<Rightarrow> u16 \<Rightarrow> 'a fsst_scheme \<Rightarrow> 'a fsst_scheme" where
  "add_nlink ip d s = upd_inode ip (\<lambda>x. x\<lparr>i_nlink := i_nlink x + d\<rparr>) s"

definition fail_op :: "nat \<Rightarrow> 'a fsst_scheme \<Rightarrow> (u64 \<times> 'a fsst_scheme) res" where
  "fail_op h s = rbind (end_op h s) (\<lambda>s. Ok (- 1, s))"

definition sys_link :: "nat \<Rightarrow> 'a fsst_scheme \<Rightarrow> (u64 \<times> 'a fsst_scheme) res" where
  "sys_link h s =
     rbind (argstr h 0 MAXPATH s) (\<lambda>(old, s). case old of
       None \<Rightarrow> Ok (- 1, s)
     | Some old \<Rightarrow>
     rbind (argstr h 1 MAXPATH s) (\<lambda>(new, s). case new of
       None \<Rightarrow> Ok (- 1, s)
     | Some new \<Rightarrow>
     rbind (begin_op h s) (\<lambda>s.
     rbind (namei h old s) (\<lambda>(mip, s). case mip of
       None \<Rightarrow> fail_op h s
     | Some ip \<Rightarrow>
     rbind (ilock h (Some ip) s) (\<lambda>s.
     if i_type (inodes s ip) = T_DIR then rbind (iunlockput h ip s) (\<lambda>s. fail_op h s)
     else
     rbind (iupdate h ip (add_nlink ip 1 s)) (\<lambda>s.
     rbind (iunlock h (Some ip) s) (\<lambda>s.
     let bad = (\<lambda>s. rbind (ilock h (Some ip) s) (\<lambda>s.
                 rbind (iupdate h ip (add_nlink ip (- 1) s)) (\<lambda>s.
                 rbind (iunlockput h ip s) (\<lambda>s. fail_op h s))))
     in rbind (nameiparent h new s) (\<lambda>(mdp, name, s). case mdp of
          None \<Rightarrow> bad s
        | Some dp \<Rightarrow>
            rbind (ilock h (Some dp) s) (\<lambda>s.
            rbind (if i_dev (inodes s dp) \<noteq> i_dev (inodes s ip) then Ok (- 1, s)
                   else dirlink h dp name (i_inum (inodes s ip)) s) (\<lambda>(r, s).
            if r <s 0 then rbind (iunlockput h dp s) (\<lambda>s. bad s)
            else rbind (iunlockput h dp s) (\<lambda>s.
                 rbind (iput h ip s) (\<lambda>s.
                 rbind (end_op h s) (\<lambda>s. Ok (0, s))))))))))))))"

function isdirempty_loop :: "nat \<Rightarrow> nat \<Rightarrow> u32 \<Rightarrow> 'a fsst_scheme \<Rightarrow> (bool \<times> 'a fsst_scheme) res" where
  "isdirempty_loop h dp off s =
     (if off < i_size (inodes s dp)
      then rbind (readi h dp False 0 off 16 s) (\<lambda>(r, de, s).
        if r \<noteq> 16 then Panic ''isdirempty: readi''
        else if dirent_inum de \<noteq> 0 then Ok (False, s)
        else isdirempty_loop h dp (off + 16) s)
      else Ok (True, s))"
  by pat_completeness auto
termination
  by (relation "measure (\<lambda>(h, dp, off, s). dir_room off)") (auto simp: dirent_step)

declare isdirempty_loop.simps [simp del]

definition isdirempty :: "nat \<Rightarrow> nat \<Rightarrow> 'a fsst_scheme \<Rightarrow> (bool \<times> 'a fsst_scheme) res" where
  "isdirempty h dp s = isdirempty_loop h dp 32 s"

definition sys_unlink :: "nat \<Rightarrow> 'a fsst_scheme \<Rightarrow> (u64 \<times> 'a fsst_scheme) res" where
  "sys_unlink h s =
     rbind (argstr h 0 MAXPATH s) (\<lambda>(path, s). case path of
       None \<Rightarrow> Ok (- 1, s)
     | Some path \<Rightarrow>
     rbind (begin_op h s) (\<lambda>s.
     rbind (nameiparent h path s) (\<lambda>(mdp, name, s). case mdp of
       None \<Rightarrow> fail_op h s
     | Some dp \<Rightarrow>
     rbind (ilock h (Some dp) s) (\<lambda>s.
     let bad = (\<lambda>s. rbind (iunlockput h dp s) (\<lambda>s. fail_op h s))
     in if namecmp_eq name (cstr ''.'') \<or> namecmp_eq name (cstr ''..'') then bad s
        else rbind (dirlookup h dp name s) (\<lambda>(r, s). case r of
          None \<Rightarrow> bad s
        | Some (ip, off) \<Rightarrow>
            rbind (ilock h (Some ip) s) (\<lambda>s.
            if i_nlink (inodes s ip) <s 1 then Panic ''unlink: nlink < 1''
            else rbind (if i_type (inodes s ip) = T_DIR then isdirempty h ip s else Ok (True, s))
                   (\<lambda>(empty, s).
              if \<not> empty then rbind (iunlockput h ip s) (\<lambda>s. bad s)
              else rbind (writei h dp False 0 (replicate 16 0) off 16 s) (\<lambda>(r, s).
                if r \<noteq> 16 then Panic ''unlink: writei''
                else rbind (if i_type (inodes s ip) = T_DIR then iupdate h dp (add_nlink dp (- 1) s)
                            else Ok s) (\<lambda>s.
                     rbind (iunlockput h dp s) (\<lambda>s.
                     rbind (iupdate h ip (add_nlink ip (- 1) s)) (\<lambda>s.
                     rbind (iunlockput h ip s) (\<lambda>s.
                     rbind (end_op h s) (\<lambda>s. Ok (0, s))))))))))))))"

section \<open>Creation\<close>

text \<open>\<open>Some ip\<close> comes with the inode locked.\<close>

definition create ::
  "nat \<Rightarrow> u8 list \<Rightarrow> u16 \<Rightarrow> u16 \<Rightarrow> u16 \<Rightarrow> 'a fsst_scheme \<Rightarrow> (nat option \<times> 'a fsst_scheme) res" where
  "create h path type major minor s =
     rbind (nameiparent h path s) (\<lambda>(mdp, name, s). case mdp of
       None \<Rightarrow> Ok (None, s)
     | Some dp \<Rightarrow>
     rbind (ilock h (Some dp) s) (\<lambda>s.
     rbind (dirlookup h dp name s) (\<lambda>(r, s). case r of
       Some (ip, _) \<Rightarrow>
         rbind (iunlockput h dp s) (\<lambda>s.
         rbind (ilock h (Some ip) s) (\<lambda>s.
           if type = T_FILE \<and> (i_type (inodes s ip) = T_FILE \<or> i_type (inodes s ip) = T_DEVICE)
           then Ok (Some ip, s)
           else rbind (iunlockput h ip s) (\<lambda>s. Ok (None, s))))
     | None \<Rightarrow>
     rbind (ialloc h (i_dev (inodes s dp)) type s) (\<lambda>(mip, s). case mip of
       None \<Rightarrow> rbind (iunlockput h dp s) (\<lambda>s. Ok (None, s))
     | Some ip \<Rightarrow>
     rbind (ilock h (Some ip) s) (\<lambda>s.
     rbind (iupdate h ip (upd_inode ip (\<lambda>x. x\<lparr>i_major := major, i_minor := minor, i_nlink := 1\<rparr>) s)) (\<lambda>s.
     let fail = (\<lambda>s. rbind (iupdate h ip (upd_inode ip (\<lambda>x. x\<lparr>i_nlink := 0\<rparr>) s)) (\<lambda>s.
                  rbind (iunlockput h ip s) (\<lambda>s.
                  rbind (iunlockput h dp s) (\<lambda>s. Ok (None, s)))))
     in rbind (if type = T_DIR
               then rbind (dirlink h ip (cstr ''.'') (i_inum (inodes s ip)) s) (\<lambda>(r, s).
                      if r <s 0 then Ok (r, s)
                      else dirlink h ip (cstr ''..'') (i_inum (inodes s dp)) s)
               else Ok (0, s)) (\<lambda>(r, s).
          if r <s 0 then fail s
          else rbind (dirlink h dp name (i_inum (inodes s ip)) s) (\<lambda>(r, s).
            if r <s 0 then fail s
            else rbind (if type = T_DIR then iupdate h dp (add_nlink dp 1 s) else Ok s) (\<lambda>s.
                 rbind (iunlockput h dp s) (\<lambda>s. Ok (Some ip, s)))))))))))"

text \<open>From the locked inode to the descriptor.\<close>

definition open_inode :: "nat \<Rightarrow> nat \<Rightarrow> i32 \<Rightarrow> 'a filest_scheme \<Rightarrow> (u64 \<times> 'a filest_scheme) res" where
  "open_inode h ip omode s =
     (if i_type (inodes s ip) = T_DEVICE \<and> (i_major (inodes s ip) <s 0 \<or> 10 \<le>s i_major (inodes s ip))
      then rbind (iunlockput h ip s) (\<lambda>s. fail_op h s)
      else rbind (filealloc h s) (\<lambda>(mf, s). case mf of
        None \<Rightarrow> rbind (iunlockput h ip s) (\<lambda>s. fail_op h s)
      | Some f \<Rightarrow> rbind (fdalloc h f s) (\<lambda>(mfd, s). case mfd of
          None \<Rightarrow> rbind (fileclose h f s) (\<lambda>s. rbind (iunlockput h ip s) (\<lambda>s. fail_op h s))
        | Some fd \<Rightarrow>
            let s = (if i_type (inodes s ip) = T_DEVICE
                     then upd_file f (\<lambda>x. x\<lparr>f_type := FD_DEVICE, f_major := i_major (inodes s ip)\<rparr>) s
                     else upd_file f (\<lambda>x. x\<lparr>f_type := FD_INODE, f_off := 0\<rparr>) s);
                s = upd_file f (\<lambda>x. x\<lparr>f_ip := Some ip, f_readable := (omode AND 1 = 0),
                                      f_writable := (omode AND 1 \<noteq> 0 \<or> omode AND 2 \<noteq> 0)\<rparr>) s
            in rbind (if omode AND 0x400 \<noteq> 0 \<and> i_type (inodes s ip) = T_FILE then itrunc h ip s
                      else Ok s) (\<lambda>s.
               rbind (iunlock h (Some ip) s) (\<lambda>s.
               rbind (end_op h s) (\<lambda>s. Ok (of_nat fd, s)))))))"

definition sys_open :: "nat \<Rightarrow> 'a filest_scheme \<Rightarrow> (u64 \<times> 'a filest_scheme) res" where
  "sys_open h s =
     rbind (argint h 1 s) (\<lambda>(omode, s).
     rbind (argstr h 0 MAXPATH s) (\<lambda>(path, s). case path of
       None \<Rightarrow> Ok (- 1, s)
     | Some path \<Rightarrow>
     rbind (begin_op h s) (\<lambda>s.
     if omode AND 0x200 \<noteq> 0
     then rbind (create h path T_FILE 0 0 s) (\<lambda>(mip, s). case mip of
            None \<Rightarrow> fail_op h s
          | Some ip \<Rightarrow> open_inode h ip omode s)
     else rbind (namei h path s) (\<lambda>(mip, s). case mip of
            None \<Rightarrow> fail_op h s
          | Some ip \<Rightarrow>
              rbind (ilock h (Some ip) s) (\<lambda>s.
              if i_type (inodes s ip) = T_DIR \<and> omode \<noteq> 0
              then rbind (iunlockput h ip s) (\<lambda>s. fail_op h s)
              else open_inode h ip omode s)))))"

definition sys_mkdir :: "nat \<Rightarrow> 'a fsst_scheme \<Rightarrow> (u64 \<times> 'a fsst_scheme) res" where
  "sys_mkdir h s =
     rbind (begin_op h s) (\<lambda>s.
     rbind (argstr h 0 MAXPATH s) (\<lambda>(path, s). case path of
       None \<Rightarrow> fail_op h s
     | Some path \<Rightarrow> rbind (create h path T_DIR 0 0 s) (\<lambda>(mip, s). case mip of
         None \<Rightarrow> fail_op h s
       | Some ip \<Rightarrow> rbind (iunlockput h ip s) (\<lambda>s. rbind (end_op h s) (\<lambda>s. Ok (0, s))))))"

definition sys_mknod :: "nat \<Rightarrow> 'a fsst_scheme \<Rightarrow> (u64 \<times> 'a fsst_scheme) res" where
  "sys_mknod h s =
     rbind (begin_op h s) (\<lambda>s.
     rbind (argint h 1 s) (\<lambda>(major, s).
     rbind (argint h 2 s) (\<lambda>(minor, s).
     rbind (argstr h 0 MAXPATH s) (\<lambda>(path, s). case path of
       None \<Rightarrow> fail_op h s
     | Some path \<Rightarrow> rbind (create h path T_DEVICE (ucast major) (ucast minor) s) (\<lambda>(mip, s). case mip of
         None \<Rightarrow> fail_op h s
       | Some ip \<Rightarrow> rbind (iunlockput h ip s) (\<lambda>s. rbind (end_op h s) (\<lambda>s. Ok (0, s))))))))"

definition sys_chdir :: "nat \<Rightarrow> 'a fsst_scheme \<Rightarrow> (u64 \<times> 'a fsst_scheme) res" where
  "sys_chdir h s =
     rbind (myproc h s) (\<lambda>(mp, s).
     rbind (begin_op h s) (\<lambda>s.
     rbind (argstr h 0 MAXPATH s) (\<lambda>(path, s). case path of
       None \<Rightarrow> fail_op h s
     | Some path \<Rightarrow> rbind (namei h path s) (\<lambda>(mip, s). case mip of
         None \<Rightarrow> fail_op h s
       | Some ip \<Rightarrow>
           rbind (ilock h (Some ip) s) (\<lambda>s.
           if i_type (inodes s ip) \<noteq> T_DIR then rbind (iunlockput h ip s) (\<lambda>s. fail_op h s)
           else rbind (iunlock h (Some ip) s) (\<lambda>s.
                rbind (deref mp) (\<lambda>p.
                rbind (deref (cwd (procs s p))) (\<lambda>old.
                rbind (iput h old s) (\<lambda>s.
                rbind (end_op h s) (\<lambda>s.
                Ok (0, upd_proc p (\<lambda>q. q\<lparr>cwd := Some ip\<rparr>) s))))))))))) "

section \<open>Programs and pipes\<close>

text \<open>Fetching the argument vector; \<open>k\<close> entries of \<^verbatim>\<open>argv\<close> are left. The result is the strings, or
  \<open>None\<close> for \<^verbatim>\<open>goto bad\<close>, and the pages that hold them.\<close>

primrec exec_args ::
  "nat \<Rightarrow> u64 \<Rightarrow> nat \<Rightarrow> u64 list \<Rightarrow> u8 list list \<Rightarrow> 'a procst_scheme \<Rightarrow>
   (u8 list list option \<times> u64 list \<times> 'a procst_scheme) res" where
  "exec_args h uargv 0 pages strs s = Ok (None, pages, s)"
| "exec_args h uargv (Suc k) pages strs s =
     rbind (fetchaddr h (uargv + 8 * of_nat (length pages)) s) (\<lambda>(r, s). case r of
       None \<Rightarrow> Ok (None, pages, s)
     | Some uarg \<Rightarrow>
         if uarg = 0 then Ok (Some strs, pages, s)
         else rbind (kalloc h s) (\<lambda>(pg, s).
              if pg = 0 then Ok (None, pages, s)
              else rbind (fetchstr h uarg 4096 s) (\<lambda>(r, s). case r of
                     None \<Rightarrow> Ok (None, pages @ [pg], s)
                   | Some str \<Rightarrow>
                       exec_args h uargv k (pages @ [pg]) (strs @ [str])
                         (s\<lparr>mem := put_bytes pg (str @ [0]) (mem s)\<rparr>))))"

definition sys_exec :: "nat \<Rightarrow> 'a fsst_scheme \<Rightarrow> (u64 \<times> 'a fsst_scheme) res" where
  "sys_exec h s =
     rbind (argaddr h 1 s) (\<lambda>(uargv, s).
     rbind (argstr h 0 MAXPATH s) (\<lambda>(path, s). case path of
       None \<Rightarrow> Ok (- 1, s)
     | Some path \<Rightarrow>
     rbind (exec_args h uargv 32 [] [] s) (\<lambda>(r, pages, s). case r of
       None \<Rightarrow> rbind (rfold (kfree h) pages s) (\<lambda>s. Ok (- 1, s))
     | Some strs \<Rightarrow>
         rbind (kexec h path strs s) (\<lambda>(ret, s).
         rbind (rfold (kfree h) pages s) (\<lambda>s. Ok (scast ret, s))))))"

definition sys_pipe :: "nat \<Rightarrow> 'a filest_scheme \<Rightarrow> (u64 \<times> 'a filest_scheme) res" where
  "sys_pipe h s =
     rbind (myproc h s) (\<lambda>(mp, s).
     rbind (argaddr h 0 s) (\<lambda>(fdarray, s).
     rbind (pipealloc h s) (\<lambda>(r, s). case r of
       None \<Rightarrow> Ok (- 1, s)
     | Some (rd, wr) \<Rightarrow>
     rbind (deref mp) (\<lambda>p.
     let close2 = (\<lambda>s. rbind (fileclose h rd s) (\<lambda>s. rbind (fileclose h wr s) (\<lambda>s. Ok (- 1, s))))
     in rbind (fdalloc h rd s) (\<lambda>(r0, s). case r0 of
          None \<Rightarrow> close2 s
        | Some fd0 \<Rightarrow> rbind (fdalloc h wr s) (\<lambda>(r1, s). case r1 of
            None \<Rightarrow> close2 (set_ofile p fd0 None s)
          | Some fd1 \<Rightarrow>
              let undo = (\<lambda>s. close2 (set_ofile p fd1 None (set_ofile p fd0 None s)));
                  pt = pagetable (procs s p)
              in rbind (copyout h pt fdarray (bytes32 (of_nat fd0)) s) (\<lambda>(r, s).
                 if r <s 0 then undo s
                 else rbind (copyout h pt (fdarray + 4) (bytes32 (of_nat fd1)) s) (\<lambda>(r, s).
                      if r <s 0 then undo s else Ok (0, s)))))))))"

end
