(* ===== verification/Syscall.thy ===== *)
theory Syscall
  imports Sysfile
begin

text \<open>
  The process system calls, \<^verbatim>\<open>kernel/sysproc.c\<close>, and the dispatch of all system calls,
  \<^verbatim>\<open>kernel/syscall.c\<close>.
\<close>

section \<open>Process system calls\<close>

definition sys_exit :: "nat \<Rightarrow> 'a filest_scheme \<Rightarrow> 'a filest_scheme res" where
  "sys_exit h s = rbind (argint h 0 s) (\<lambda>(n, s). kexit h n s)"

definition sys_getpid :: "nat \<Rightarrow> 'a procst_scheme \<Rightarrow> (u64 \<times> 'a procst_scheme) res" where
  "sys_getpid h s =
     rbind (myproc h s) (\<lambda>(mp, s). rbind (deref mp) (\<lambda>p. Ok (scast (pid (procs s p)), s)))"

definition sys_fork :: "nat \<Rightarrow> 'a filest_scheme \<Rightarrow> (u64 \<times> 'a filest_scheme) res" where
  "sys_fork h s = rbind (kfork h s) (\<lambda>(r, s). Ok (scast r, s))"

definition sys_wait ::
  "nat \<Rightarrow> 'a procst_scheme \<Rightarrow> ((bool \<times> u64, u64) blocking \<times> 'a procst_scheme) res" where
  "sys_wait h s =
     rbind (argaddr h 0 s) (\<lambda>(addr, s). map_blocking (\<lambda>ie. (ie, addr)) scast (kwait_enter h addr s))"

definition sys_wait_return ::
  "nat \<Rightarrow> nat \<Rightarrow> bool \<times> u64 \<Rightarrow> 'a procst_scheme \<Rightarrow> ((bool \<times> u64, u64) blocking \<times> 'a procst_scheme) res"
where
  "sys_wait_return h p k s =
     map_blocking (\<lambda>ie. (ie, snd k)) scast (kwait_return h p (fst k) (snd k) s)"

definition sys_sbrk :: "nat \<Rightarrow> 'a procst_scheme \<Rightarrow> (u64 \<times> 'a procst_scheme) res" where
  "sys_sbrk h s =
     rbind (argint h 0 s) (\<lambda>(n, s).
     rbind (argint h 1 s) (\<lambda>(t, s).
     rbind (myproc h s) (\<lambda>(mp, s).
     rbind (deref mp) (\<lambda>p.
     let addr = sz (procs s p)
     in if t = 1 \<or> n <s 0
        then rbind (growproc h n s) (\<lambda>(r, s). if r <s 0 then Ok (- 1, s) else Ok (addr, s))
        else if addr + scast n < addr then Ok (- 1, s)
        else if TRAPFRAME < addr + scast n then Ok (- 1, s)
        else rbind (myproc h s) (\<lambda>(mp, s).
             rbind (deref mp) (\<lambda>p.
             Ok (addr, upd_proc p (\<lambda>q. q\<lparr>sz := sz q + scast n\<rparr>) s)))))))"

text \<open>\<^verbatim>\<open>sys_pause\<close>: \<^verbatim>\<open>ticks - ticks0 < n\<close> compares unsigned values.\<close>

definition sys_pause_turn ::
  "nat \<Rightarrow> i32 \<Rightarrow> u32 \<Rightarrow> 'a procst_scheme \<Rightarrow> ((bool \<times> i32 \<times> u32, u64) blocking \<times> 'a procst_scheme) res" where
  "sys_pause_turn h n ticks0 s =
     (if ticks s - ticks0 < n
      then rbind (myproc h s) (\<lambda>(mp, s). rbind (deref mp) (\<lambda>p. rbind (get_killed h p s) (\<lambda>(k, s).
        if k \<noteq> 0 then rbind (release h TicksLock s) (\<lambda>s. Ok (Return (- 1), s))
        else rbind (sleep_enter h ChTicks TicksLock s) (\<lambda>(ie, s). Ok (Sleeping (ie, n, ticks0), s)))))
      else rbind (release h TicksLock s) (\<lambda>s. Ok (Return 0, s)))"

definition sys_pause ::
  "nat \<Rightarrow> 'a procst_scheme \<Rightarrow> ((bool \<times> i32 \<times> u32, u64) blocking \<times> 'a procst_scheme) res" where
  "sys_pause h s =
     rbind (argint h 0 s) (\<lambda>(n, s).
     let n = (if n <s 0 then 0 else n)
     in rbind (acquire h TicksLock s) (\<lambda>s. sys_pause_turn h n (ticks s) s))"

definition sys_pause_return ::
  "nat \<Rightarrow> nat \<Rightarrow> bool \<times> i32 \<times> u32 \<Rightarrow> 'a procst_scheme \<Rightarrow>
   ((bool \<times> i32 \<times> u32, u64) blocking \<times> 'a procst_scheme) res" where
  "sys_pause_return h p k s =
     (case k of (ie, n, ticks0) \<Rightarrow>
        rbind (sleep_return h p ie TicksLock s) (\<lambda>s. sys_pause_turn h n ticks0 s))"

definition sys_kill :: "nat \<Rightarrow> 'a procst_scheme \<Rightarrow> (u64 \<times> 'a procst_scheme) res" where
  "sys_kill h s =
     rbind (argint h 0 s) (\<lambda>(n, s). rbind (kkill h n s) (\<lambda>(r, s). Ok (scast r, s)))"

definition sys_uptime :: "nat \<Rightarrow> 'a procst_scheme \<Rightarrow> (u64 \<times> 'a procst_scheme) res" where
  "sys_uptime h s =
     rbind (acquire h TicksLock s) (\<lambda>s.
     let xticks = ticks s in rbind (release h TicksLock s) (\<lambda>s. Ok (ucast xticks, s)))"

definition sys_getprocinfo :: "nat \<Rightarrow> u8 list \<Rightarrow> 'a procst_scheme \<Rightarrow> (u64 \<times> 'a procst_scheme) res" where
  "sys_getprocinfo h stk s =
     rbind (argint h 0 s) (\<lambda>(max_entries, s).
     rbind (argaddr h 1 s) (\<lambda>(addr, s).
       if max_entries \<le>s 0 \<or> addr = 0 then Ok (- 1, s)
       else rbind (get_proc_stats h stk addr max_entries s) (\<lambda>(r, s). Ok (scast r, s))))"

definition sys_getworkload :: "nat \<Rightarrow> 'a procst_scheme \<Rightarrow> (u64 \<times> 'a procst_scheme) res" where
  "sys_getworkload h s =
     rbind (argaddr h 0 s) (\<lambda>(addr, s).
       if addr = 0 then Ok (- 1, s)
       else rbind (get_workload_stats h s) (\<lambda>(w, s).
            rbind (myproc h s) (\<lambda>(mp, s).
            rbind (deref mp) (\<lambda>p.
            rbind (copyout h (pagetable (procs s p)) addr (workload_bytes w) s) (\<lambda>(r, s).
              if r <s 0 then Ok (- 1, s) else Ok (0, s))))))"

section \<open>Dispatch\<close>

text \<open>The local variables of the system calls that sleep. A process that has exited sleeps for ever.\<close>

datatype sys_locals =
  KExit | KWait "bool \<times> u64" | KPause "bool \<times> i32 \<times> u32" | KSync "bool \<times> i32"
  | KRead "rd_locals \<times> nat \<times> u64 \<times> i32" | KWrite "wr_locals \<times> nat \<times> u64 \<times> i32"

definition returns ::
  "(u64 \<times> 's) res \<Rightarrow> ((sys_locals, u64) blocking \<times> 's) res" where
  "returns m = rbind m (\<lambda>(v, s). Ok (Return v, s))"

text \<open>The table \<^verbatim>\<open>syscalls\<close> with the numbers of \<^verbatim>\<open>kernel/syscall.h\<close>; \<open>stk\<close> is what the kernel stack holds
  where a handler places a structure. \<open>None\<close>: no such call.\<close>

definition syscalls ::
  "nat \<Rightarrow> u8 list \<Rightarrow> i32 \<Rightarrow> 'a filest_scheme \<Rightarrow>
   ((sys_locals, u64) blocking \<times> 'a filest_scheme) res option" where
  "syscalls h stk num s =
     (if num = 1 then Some (returns (sys_fork h s))
      else if num = 2 then Some (rbind (sys_exit h s) (\<lambda>s. Ok (Sleeping KExit, s)))
      else if num = 3 then Some (map_blocking KWait id (sys_wait h s))
      else if num = 4 then Some (returns (sys_pipe h s))
      else if num = 5 then Some (map_blocking KRead id (sys_read h s))
      else if num = 6 then Some (returns (sys_kill h s))
      else if num = 7 then Some (returns (sys_exec h s))
      else if num = 8 then Some (returns (sys_fstat h stk s))
      else if num = 9 then Some (returns (sys_chdir h s))
      else if num = 10 then Some (returns (sys_dup h s))
      else if num = 11 then Some (returns (sys_getpid h s))
      else if num = 12 then Some (returns (sys_sbrk h s))
      else if num = 13 then Some (map_blocking KPause id (sys_pause h s))
      else if num = 14 then Some (returns (sys_uptime h s))
      else if num = 15 then Some (returns (sys_open h s))
      else if num = 16 then Some (map_blocking KWrite id (sys_write h s))
      else if num = 17 then Some (returns (sys_mknod h s))
      else if num = 18 then Some (returns (sys_unlink h s))
      else if num = 19 then Some (returns (sys_link h s))
      else if num = 20 then Some (returns (sys_mkdir h s))
      else if num = 21 then Some (returns (sys_close h s))
      else if num = 22 then Some (map_blocking KSync id (sys_sync h s))
      else if num = 23 then Some (returns (sys_getprocinfo h stk s))
      else if num = 24 then Some (returns (sys_getworkload h s))
      else None)"

definition syscall_done ::
  "nat \<Rightarrow> ((sys_locals, u64) blocking \<times> 'a filest_scheme) res \<Rightarrow>
   ((sys_locals, unit) blocking \<times> 'a filest_scheme) res" where
  "syscall_done p m =
     rbind m (\<lambda>(b, s). case b of
       Sleeping k \<Rightarrow> Ok (Sleeping k, s)
     | Return v \<Rightarrow> Ok (Return (), tf_set p TF_A0 v s))"

definition syscall ::
  "nat \<Rightarrow> u8 list \<Rightarrow> 'a filest_scheme \<Rightarrow> ((sys_locals, unit) blocking \<times> 'a filest_scheme) res" where
  "syscall h stk s =
     rbind (myproc h s) (\<lambda>(mp, s).
     rbind (deref mp) (\<lambda>p.
     let num = ucast (tf_get p TF_A7 s) :: i32
     in case syscalls h stk num s of
          Some m \<Rightarrow> syscall_done p m
        | None \<Rightarrow>
            rbind (printk h (''%d %s: unknown sys call %d'' @ [CHR 0x0A])
                     [VWord (scast (pid (procs s p))), VStr (Some (pname (procs s p))),
                      VWord (scast num)] s) (\<lambda>s.
            Ok (Return (), tf_set p TF_A0 (- 1) s))))"

text \<open>A sleeping system call of process \<open>p\<close> goes on.\<close>

definition syscall_return ::
  "nat \<Rightarrow> nat \<Rightarrow> sys_locals \<Rightarrow> 'a filest_scheme \<Rightarrow>
   ((sys_locals, unit) blocking \<times> 'a filest_scheme) res" where
  "syscall_return h p k s =
     syscall_done p (case k of
        KExit \<Rightarrow> Panic ''zombie exit''
      | KWait l \<Rightarrow> map_blocking KWait id (sys_wait_return h p l s)
      | KPause l \<Rightarrow> map_blocking KPause id (sys_pause_return h p l s)
      | KSync l \<Rightarrow> map_blocking KSync id (sys_sync_return h p l s)
      | KRead l \<Rightarrow> map_blocking KRead id (sys_read_return h p l s)
      | KWrite l \<Rightarrow> map_blocking KWrite id (sys_write_return h p l s))"

end
