(* ===== verification/Trap.thy ===== *)
theory Trap
  imports Syscall
begin

text \<open>
  Traps, \<^verbatim>\<open>kernel/trap.c\<close> and the interrupt controller of \<^verbatim>\<open>kernel/plic.c\<close>, and the boot sequence of
  \<^verbatim>\<open>kernel/main.c\<close>. The controller is hardware: \<open>plic_pending\<close> is the interrupt number that a claim
  returns, 0 when none is pending.
\<close>

section \<open>Interrupts\<close>

definition plic_claim :: "nat \<Rightarrow> 'a trapst_scheme \<Rightarrow> u32" where
  "plic_claim h s = plic_pending (csr s h)"

definition plic_complete :: "nat \<Rightarrow> 'a trapst_scheme \<Rightarrow> 'a trapst_scheme" where
  "plic_complete h s = upd_csr h (\<lambda>c. c\<lparr>plic_pending := 0\<rparr>) s"

definition clockintr :: "nat \<Rightarrow> 'a trapst_scheme \<Rightarrow> 'a trapst_scheme res" where
  "clockintr h s =
     rbind (if h = 0
            then rbind (acquire h TicksLock s) (\<lambda>s.
                 rbind (wakeup h (Some ChTicks) (s\<lparr>ticks := ticks s + 1\<rparr>)) (\<lambda>s.
                 rbind (release h TicksLock s) (\<lambda>s. clock_tick_accounting h s)))
            else Ok s) (\<lambda>s.
     Ok (upd_csr h (\<lambda>c. c\<lparr>stimecmp := mtime c + 1000000\<rparr>) s))"

abbreviation (input) UART0_IRQ :: u32 where "UART0_IRQ \<equiv> 10"
abbreviation (input) VIRTIO0_IRQ :: u32 where "VIRTIO0_IRQ \<equiv> 1"

text \<open>2 for the timer, 1 for another device, 0 if the cause is not an interrupt.\<close>

definition devintr :: "nat \<Rightarrow> 'a trapst_scheme \<Rightarrow> (nat \<times> 'a trapst_scheme) res" where
  "devintr h s =
     (if scause (csr s h) = 0x8000000000000009
      then let irq = plic_claim h s
           in rbind (if irq = UART0_IRQ then uartintr h s
                     else if irq = VIRTIO0_IRQ then virtio_disk_intr h s
                     else if irq \<noteq> 0
                     then printk h (''unexpected interrupt irq=%d'' @ [CHR 0x0A]) [VWord (scast irq)] s
                     else Ok s) (\<lambda>s.
              Ok (1, if irq \<noteq> 0 then plic_complete h s else s))
      else if scause (csr s h) = 0x8000000000000005
      then rbind (clockintr h s) (\<lambda>s. Ok (2, s))
      else Ok (0, s))"

text \<open>The accounting of a timer tick against the running process: whether it must yield.\<close>

definition timer_tick :: "nat \<Rightarrow> nat \<Rightarrow> 'a procst_scheme \<Rightarrow> (bool \<times> 'a procst_scheme) res" where
  "timer_tick h p s =
     rbind (acquire h (PLock p) s) (\<lambda>s.
     let (y, q) = tick_account (procs s p)
     in rbind (release h (PLock p) (upd_proc p (\<lambda>_. q) s)) (\<lambda>s. Ok (y, s)))"

section \<open>Traps from user space\<close>

text \<open>How a stay in the kernel ends or is suspended.\<close>

datatype trap_out =
  TSleep sys_locals    \<comment> \<open>asleep in a system call\<close>
| TYield bool          \<comment> \<open>has yielded; the saved interrupt state\<close>
| TExit                \<comment> \<open>the process has exited\<close>
| TUser u64            \<comment> \<open>back to user space with this \<^verbatim>\<open>satp\<close>\<close>

definition usertrap_finish :: "nat \<Rightarrow> nat \<Rightarrow> 'a trapst_scheme \<Rightarrow> (trap_out \<times> 'a trapst_scheme) res" where
  "usertrap_finish h p s =
     rbind (prepare_return h s) (\<lambda>s. Ok (TUser (MAKE_SATP (pagetable (procs s p))), s))"

text \<open>From the second check of \<^verbatim>\<open>killed\<close> on.\<close>

definition usertrap_tail ::
  "nat \<Rightarrow> nat \<Rightarrow> nat \<Rightarrow> 'a trapst_scheme \<Rightarrow> (trap_out \<times> 'a trapst_scheme) res" where
  "usertrap_tail h p which_dev s =
     rbind (get_killed h p s) (\<lambda>(k, s).
       if k \<noteq> 0 then rbind (kexit h (- 1) s) (\<lambda>s. Ok (TExit, s))
       else if which_dev = 2
       then rbind (timer_tick h p s) (\<lambda>(y, s).
              if y then rbind (yield_enter h s) (\<lambda>(ie, s). Ok (TYield ie, s))
              else usertrap_finish h p s)
       else usertrap_finish h p s)"

definition usertrap :: "nat \<Rightarrow> u8 list \<Rightarrow> 'a trapst_scheme \<Rightarrow> (trap_out \<times> 'a trapst_scheme) res" where
  "usertrap h stk s =
     (if spp (csr s h) then Panic ''usertrap: not from user mode''
      else let s = upd_csr h (\<lambda>c. c\<lparr>stvec := kernelvec_sym s\<rparr>) s
           in rbind (myproc h s) (\<lambda>(mp, s).
              rbind (deref mp) (\<lambda>p.
              let s = tf_set p TF_EPC (sepc (csr s h)) s
              in if scause (csr s h) = 8
                 then rbind (get_killed h p s) (\<lambda>(k, s).
                        if k \<noteq> 0 then rbind (kexit h (- 1) s) (\<lambda>s. Ok (TExit, s))
                        else let s = tf_set p TF_EPC (tf_get p TF_EPC s + 4) s;
                                 s = intr_on h s
                             in rbind (syscall h stk s) (\<lambda>(b, s). case b of
                                  Sleeping k \<Rightarrow> Ok (if k = KExit then TExit else TSleep k, s)
                                | Return _ \<Rightarrow> usertrap_tail h p 0 s))
                 else rbind (devintr h s) (\<lambda>(which_dev, s).
                        if which_dev \<noteq> 0 then usertrap_tail h p which_dev s
                        else rbind (if scause (csr s h) = 15 \<or> scause (csr s h) = 13
                                    then vmfault h (pagetable (procs s p)) (stval (csr s h))
                                           (scause (csr s h) = 13) s
                                    else Ok (0, s)) (\<lambda>(pa, s).
                          if pa \<noteq> 0 then usertrap_tail h p 0 s
                          else rbind (printk h (''usertrap(): unexpected scause 0x%lx pid=%d'' @ [CHR 0x0A])
                                        [VWord (scause (csr s h)), VWord (scast (pid (procs s p)))] s) (\<lambda>s.
                               rbind (printk h (''            sepc=0x%lx stval=0x%lx'' @ [CHR 0x0A])
                                        [VWord (sepc (csr s h)), VWord (stval (csr s h))] s) (\<lambda>s.
                               rbind (setkilled h p s) (\<lambda>s. usertrap_tail h p 0 s))))))))"

text \<open>The continuations after a sleep in a system call and after a yield.\<close>

definition usertrap_sys_return ::
  "nat \<Rightarrow> nat \<Rightarrow> sys_locals \<Rightarrow> 'a trapst_scheme \<Rightarrow> (trap_out \<times> 'a trapst_scheme) res" where
  "usertrap_sys_return h p k s =
     rbind (syscall_return h p k s) (\<lambda>(b, s). case b of
       Sleeping k \<Rightarrow> Ok (TSleep k, s)
     | Return _ \<Rightarrow> usertrap_tail h p 0 s)"

definition usertrap_yield_return ::
  "nat \<Rightarrow> nat \<Rightarrow> bool \<Rightarrow> 'a trapst_scheme \<Rightarrow> (trap_out \<times> 'a trapst_scheme) res" where
  "usertrap_yield_return h p ie s =
     rbind (yield_return h p ie s) (\<lambda>s. usertrap_finish h p s)"

section \<open>Traps from the kernel\<close>

text \<open>The local variables of \<^verbatim>\<open>kerneltrap\<close> are the saved registers \<^verbatim>\<open>sepc\<close> and \<^verbatim>\<open>sstatus\<close>; the latter had
  interrupts disabled, as the second check makes sure.\<close>

type_synonym kt_locals = "u64 \<times> bool \<times> bool"

definition kerneltrap_finish :: "nat \<Rightarrow> kt_locals \<Rightarrow> 'a trapst_scheme \<Rightarrow> 'a trapst_scheme" where
  "kerneltrap_finish h k s =
     (case k of (pc, p, pie) \<Rightarrow> intr_off h (upd_csr h (\<lambda>c. c\<lparr>sepc := pc, spp := p, spie := pie\<rparr>) s))"

definition kerneltrap ::
  "nat \<Rightarrow> 'a trapst_scheme \<Rightarrow> ((bool \<times> kt_locals, unit) blocking \<times> 'a trapst_scheme) res" where
  "kerneltrap h s =
     (let k = (sepc (csr s h), spp (csr s h), spie (csr s h)); sc = scause (csr s h)
      in if \<not> spp (csr s h) then Panic ''kerneltrap: not from supervisor mode''
         else if intr_get h s then Panic ''kerneltrap: interrupts enabled''
         else rbind (devintr h s) (\<lambda>(which_dev, s).
           if which_dev = 0
           then rbind (printk h (''scause=0x%lx sepc=0x%lx stval=0x%lx'' @ [CHR 0x0A])
                         [VWord sc, VWord (sepc (csr s h)), VWord (stval (csr s h))] s) (\<lambda>s.
                Panic ''kerneltrap'')
           else rbind (if which_dev = 2 then myproc h s else Ok (None, s)) (\<lambda>(mp, s).
             case mp of
               None \<Rightarrow> Ok (Return (), kerneltrap_finish h k s)
             | Some _ \<Rightarrow>
                 rbind (myproc h s) (\<lambda>(mp, s).
                 rbind (deref mp) (\<lambda>p.
                 rbind (timer_tick h p s) (\<lambda>(y, s).
                   if y then rbind (yield_enter h s) (\<lambda>(ie, s). Ok (Sleeping (ie, k), s))
                   else Ok (Return (), kerneltrap_finish h k s)))))))"

definition kerneltrap_return ::
  "nat \<Rightarrow> nat \<Rightarrow> bool \<times> kt_locals \<Rightarrow> 'a trapst_scheme \<Rightarrow> 'a trapst_scheme res" where
  "kerneltrap_return h p l s =
     rbind (yield_return h p (fst l) s) (\<lambda>s. Ok (kerneltrap_finish h (snd l) s))"

section \<open>Boot\<close>

definition trapinit :: "'a procst_scheme \<Rightarrow> 'a procst_scheme" where
  "trapinit s = initlock TicksLock ''time'' s"

definition trapinithart :: "nat \<Rightarrow> 'a trapst_scheme \<Rightarrow> 'a trapst_scheme" where
  "trapinithart h s = upd_csr h (\<lambda>c. c\<lparr>stvec := kernelvec_sym s\<rparr>) s"

definition kvminithart :: "nat \<Rightarrow> u64 \<Rightarrow> 'a trapst_scheme \<Rightarrow> 'a trapst_scheme" where
  "kvminithart h kpgtbl s = upd_csr h (\<lambda>c. c\<lparr>satp := MAKE_SATP kpgtbl\<rparr>) s"

text \<open>\<^verbatim>\<open>main\<close> on hart 0 up to the call of \<^verbatim>\<open>scheduler\<close>, without the writes to the registers of the
  UART and the interrupt controller. \<open>etext\<close> is the linker's end of the kernel text and \<open>R\<close> the registers
  of the disk. The result is the kernel page table.\<close>

definition kmain :: "u64 \<Rightarrow> (nat \<Rightarrow> u32) \<Rightarrow> 'a trapst_scheme \<Rightarrow> (u64 \<times> 'a trapst_scheme) res" where
  "kmain etext R s =
     (let s = printkinit (consoleinit s)
      in rbind (printk 0 [CHR 0x0A] [] s) (\<lambda>s.
         rbind (printk 0 (''xv6 kernel is booting'' @ [CHR 0x0A]) [] s) (\<lambda>s.
         rbind (printk 0 [CHR 0x0A] [] s) (\<lambda>s.
         rbind (kinit 0 s) (\<lambda>s.
         rbind (kvmmake 0 etext (trampoline_sym s) s) (\<lambda>(kpgtbl, s).
         let s = kvminithart 0 kpgtbl s;
             s = procinit s;
             s = trapinithart 0 (trapinit s);
             s = fileinit (iinit (binit s))
         in rbind (virtio_disk_init 0 R s) (\<lambda>s.
            rbind (userinit 0 s) (\<lambda>s. Ok (kpgtbl, s)))))))))"

end
