(* ===== verification/User_Lib.thy ===== *)
theory User_Lib
  imports CMem
begin

text \<open>
  The C library of user programs, \<^verbatim>\<open>user/ulib.c\<close>, on the byte memory of a process. A loop that runs to a zero byte is a
  partial function: memory without one would be scanned for ever. The system calls that a routine uses are its
  parameters.
\<close>

definition bytes_of :: "string \<Rightarrow> u8 list" where
  "bytes_of = map of_char"

section \<open>Strings\<close>





definition umemset :: "u64 \<Rightarrow> i32 \<Rightarrow> u32 \<Rightarrow> memory \<Rightarrow> memory" where
  "umemset dst c n m = memset_loop dst (ucast c) 0 (unat n) m"

text \<open>The address of the first \<open>c\<close>, or 0.\<close>

partial_function (option) strchr :: "memory \<Rightarrow> u64 \<Rightarrow> u8 \<Rightarrow> u64 option" where
  "strchr m s c = (if m s \<noteq> 0 then if m s = c then Some s else strchr m (s + 1) c else Some 0)"

partial_function (option) atoi_loop :: "memory \<Rightarrow> u64 \<Rightarrow> i32 \<Rightarrow> i32 option" where
  "atoi_loop m s n = (if 48 \<le> m s \<and> m s \<le> 57 then atoi_loop m (s + 1) (n * 10 + ucast (m s) - 48) else Some n)"

definition atoi :: "memory \<Rightarrow> u64 \<Rightarrow> i32 option" where
  "atoi m s = atoi_loop m s 0"

section \<open>Memory\<close>

definition umemmove :: "u64 \<Rightarrow> u64 \<Rightarrow> i32 \<Rightarrow> memory \<Rightarrow> memory" where
  "umemmove vdst vsrc n m =
     (if vdst < vsrc then move_fwd vdst vsrc (nat (sint n)) m
      else move_bwd (vdst + scast n) (vsrc + scast n) (nat (sint n)) m)"

definition umemcmp :: "memory \<Rightarrow> u64 \<Rightarrow> u64 \<Rightarrow> u32 \<Rightarrow> int" where
  "umemcmp m s1 s2 n = memcmp_loop m s1 s2 (unat n)"

text \<open>The count is passed on as an \<^verbatim>\<open>int\<close>.\<close>

definition umemcpy :: "u64 \<Rightarrow> u64 \<Rightarrow> u32 \<Rightarrow> memory \<Rightarrow> memory" where
  "umemcpy dst src n m = umemmove dst src n m"

section \<open>Input\<close>

text \<open>A descriptor open for reading: for each call the most it returns, and the bytes that are left. A call may return
  less than it was asked for, but nothing only at the end; the programs treat an error like the end.\<close>

type_synonym source = "nat list \<times> u8 list"

definition read_some :: "nat \<Rightarrow> source \<Rightarrow> u8 list \<times> source" where
  "read_some n src = (case src of (ks, bs) \<Rightarrow>
     let k = min n (if ks = [] then n else max 1 (hd ks)) in (take k bs, (tl ks, drop k bs)))"

text \<open>The bytes that \<^verbatim>\<open>gets\<close> stores from index \<open>i\<close> on, the zero included.\<close>

function gets_loop :: "nat \<Rightarrow> i32 \<Rightarrow> source \<Rightarrow> u8 list \<times> source" where
  "gets_loop i mx src =
     (if int i + 1 < sint mx
      then case read_some 1 src of (cs, src) \<Rightarrow>
             if cs = [] then ([0], src)
             else if hd cs = 10 \<or> hd cs = 13 then ([hd cs, 0], src)
             else (case gets_loop (Suc i) mx src of (bs, src) \<Rightarrow> (hd cs # bs, src))
      else ([0], src))"
  by pat_completeness auto
termination
  by (relation "measure (\<lambda>(i, mx, src). nat (sint mx) - i)") auto

declare gets_loop.simps [simp del]

definition gets :: "i32 \<Rightarrow> source \<Rightarrow> u8 list \<times> source" where
  "gets mx src = gets_loop 0 mx src"

section \<open>Wrappers of system calls\<close>

definition ustat :: "('w \<Rightarrow> i32 \<times> 'w) \<Rightarrow> (i32 \<Rightarrow> 'w \<Rightarrow> i32 \<times> 'w) \<Rightarrow> (i32 \<Rightarrow> 'w \<Rightarrow> 'w) \<Rightarrow> 'w \<Rightarrow> i32 \<times> 'w" where
  "ustat open_rdonly fstat close w =
     (case open_rdonly w of (fd, w) \<Rightarrow>
        if fd <s 0 then (- 1, w)
        else case fstat fd w of (r, w) \<Rightarrow> (r, close fd w))"

definition sbrk :: "(i32 \<Rightarrow> i32 \<Rightarrow> 'w \<Rightarrow> u64 \<times> 'w) \<Rightarrow> i32 \<Rightarrow> 'w \<Rightarrow> u64 \<times> 'w" where
  "sbrk sys_sbrk n = sys_sbrk n 1"

definition sbrklazy :: "(i32 \<Rightarrow> i32 \<Rightarrow> 'w \<Rightarrow> u64 \<times> 'w) \<Rightarrow> i32 \<Rightarrow> 'w \<Rightarrow> u64 \<times> 'w" where
  "sbrklazy sys_sbrk n = sys_sbrk n 2"

section \<open>Laws\<close>







section \<open>Moving memory\<close>

lemma umemmove_apply:
  assumes pos: "0 \<le> sint n" and src: "unat src + unat n \<le> 2 ^ 64" and dst: "unat dst + unat n \<le> 2 ^ 64"
  shows "umemmove dst src n m a = (if in_range dst (unat n) a then m (src + (a - dst)) else m a)"
proof -
  have n: "nat (sint n) = unat n" "scast n = (of_nat (unat n) :: u64)"
    using unat_sint_nonneg[OF pos, symmetric] by (simp_all only: nat_int scast_eq of_int_of_nat_eq)
  have le: "unat n \<le> 2 ^ 64" using unat_u32_less[of n] by simp
  have off: "src + of_nat j = dst + of_nat k \<longleftrightarrow> unat src + j = unat dst + k"
    if "j < unat n" "k < unat n" for j k
    using that src dst by (intro offset_eq_iff) simp_all
  show ?thesis
  proof (cases "dst < src")
    case True
    have "move_fwd dst src (unat n) m a = (if in_range dst (unat n) a then m (src + (a - dst)) else m a)"
      using True off by (intro move_fwd_apply le) (auto simp: word_less_nat_alt)
    with True n show ?thesis by (simp add: umemmove_def)
  next
    case False
    have "move_bwd (dst + of_nat (unat n)) (src + of_nat (unat n)) (unat n) m a =
        (if in_range dst (unat n) a then m (src + (a - dst)) else m a)"
      using False off by (intro move_bwd_apply le) (auto simp: word_less_nat_alt)
    with False n show ?thesis by (simp only: umemmove_def if_False)
  qed
qed

text \<open>
  C28 (equivalence): the two implementations of \<^verbatim>\<open>memmove\<close>, the kernel's, which copies backwards only when the regions overlap
  that way, and the library's, which copies backwards whenever the source is not above the destination, do the same
  to every region of non-negative length that does not wrap around the address space; both copy the source as it was.\<close>

theorem memmove_implementations_agree:
  assumes "0 \<le> sint n" and "unat src + unat n \<le> 2 ^ 64" and "unat dst + unat n \<le> 2 ^ 64"
  shows "umemmove dst src n m = memmove dst src n m \<and>
    memmove dst src n m = (\<lambda>a. if in_range dst (unat n) a then m (src + (a - dst)) else m a)"
  using umemmove_apply[OF assms] memmove_apply[OF assms(2,3)] by auto

theorem memmove_implementations_agree_witness:
  "umemmove 101 100 3 ((\<lambda>_. 0)(100 := 7, 101 := 8, 102 := 9)) = memmove 101 100 3 ((\<lambda>_. 0)(100 := 7, 101 := 8, 102 := 9)) \<and>
   memmove 101 100 3 ((\<lambda>_. 0)(100 := 7, 101 := 8, 102 := 9)) 103 = 9"
  using memmove_implementations_agree[of 3 100 101 "(\<lambda>_. 0)(100 := 7, 101 := 8, 102 := 9)"]
  by (simp add: in_range_def)

end
