(* ===== verification/User_Grep.thy ===== *)
theory User_Grep
  imports User_Lib
begin

text \<open>
  The pattern matcher and the line loop of \<^verbatim>\<open>user/grep.c\<close>. A C string is the list of its bytes without the
  terminating zero; reading the zero is the case \<open>[]\<close>. The matcher is proved to decide the language of the pattern,
  and the line loop to print the matching lines of its input, however the reads cut the input into pieces.
\<close>

abbreviation (input) STAR :: u8 where "STAR \<equiv> 42"
abbreviation (input) DOT :: u8 where "DOT \<equiv> 46"
abbreviation (input) DOLLAR :: u8 where "DOLLAR \<equiv> 36"
abbreviation (input) CARET :: u8 where "CARET \<equiv> 94"
abbreviation (input) NEWLINE :: u8 where "NEWLINE \<equiv> 10"

section \<open>The matcher\<close>

text \<open>\<open>matchhere\<close> tests \<^verbatim>\<open>re[0]\<close>, then \<^verbatim>\<open>re[1]\<close>, then the anchor, then one character; \<open>matchstar\<close> is the loop of the source.\<close>

function (sequential) matchhere :: "u8 list \<Rightarrow> u8 list \<Rightarrow> bool"
  and matchstar :: "u8 \<Rightarrow> u8 list \<Rightarrow> u8 list \<Rightarrow> bool" where
  "matchhere [] str = True"
| "matchhere (c # re) str =
     (if re \<noteq> [] \<and> hd re = STAR then matchstar c (tl re) str
      else if c = DOLLAR \<and> re = [] then str = []
      else if str \<noteq> [] \<and> (c = DOT \<or> c = hd str) then matchhere re (tl str)
      else False)"
| "matchstar c re str =
     (if matchhere re str then True
      else if str \<noteq> [] \<and> (hd str = c \<or> c = DOT) then matchstar c re (tl str)
      else False)"
  by pat_completeness auto
termination
  by (relation "measures
      [\<lambda>x. case x of Inl (re, str) \<Rightarrow> 2 * length re | Inr (c, re, str) \<Rightarrow> 2 * length re + 1,
       \<lambda>x. case x of Inl (re, str) \<Rightarrow> 0 | Inr (c, re, str) \<Rightarrow> length str]")
     (auto simp: neq_Nil_conv)

declare matchhere.simps [simp del] matchstar.simps [simp del]

text \<open>The loop of \<open>match\<close>: it tries every suffix of the text, the empty one included.\<close>

fun match_from :: "u8 list \<Rightarrow> u8 list \<Rightarrow> bool" where
  "match_from re str = (if matchhere re str then True else if str \<noteq> [] then match_from re (tl str) else False)"

declare match_from.simps [simp del]

definition match :: "u8 list \<Rightarrow> u8 list \<Rightarrow> bool" where
  "match re str = (if re \<noteq> [] \<and> hd re = CARET then matchhere (tl re) str else match_from re str)"

section \<open>The language of a pattern\<close>

text \<open>A pattern is a sequence of single characters and starred characters, where a dot stands for any character; a
  last dollar ties it to the end of the text. A star with nothing before it, and a caret or dollar elsewhere, stand for
  themselves.\<close>

datatype item = One u8 | Star u8

fun items :: "u8 list \<Rightarrow> item list \<times> bool" where
  "items [] = ([], False)"
| "items [c] = (if c = DOLLAR then ([], True) else ([One c], False))"
| "items (c # d # re) =
     (if d = STAR then case items re of (is, e) \<Rightarrow> (Star c # is, e)
      else case items (d # re) of (is, e) \<Rightarrow> (One c # is, e))"

definition stands_for :: "u8 \<Rightarrow> u8 set" where
  "stands_for c = (if c = DOT then UNIV else {c})"

primrec lang :: "item list \<Rightarrow> u8 list set" where
  "lang [] = {[]}"
| "lang (i # is) = (case i of
     One c \<Rightarrow> {x # v | x v. x \<in> stands_for c \<and> v \<in> lang is}
   | Star c \<Rightarrow> {u @ v | u v. set u \<subseteq> stands_for c \<and> v \<in> lang is})"

definition begins :: "item list \<times> bool \<Rightarrow> u8 list \<Rightarrow> bool" where
  "begins p str \<longleftrightarrow> (\<exists>v w. str = v @ w \<and> v \<in> lang (fst p) \<and> (snd p \<longrightarrow> w = []))"

text \<open>What it means that the pattern occurs in the text.\<close>

definition occurs :: "u8 list \<Rightarrow> u8 list \<Rightarrow> bool" where
  "occurs re str \<longleftrightarrow>
     (if re \<noteq> [] \<and> hd re = CARET then begins (items (tl re)) str
      else \<exists>u v. str = u @ v \<and> begins (items re) v)"

lemma begins_Nil: "begins ([], e) str \<longleftrightarrow> (e \<longrightarrow> str = [])"
  by (auto simp: begins_def)

lemma beginsI: "str = v @ w \<Longrightarrow> v \<in> lang is \<Longrightarrow> (e \<Longrightarrow> w = []) \<Longrightarrow> begins (is, e) str"
  by (auto simp: begins_def)

lemma beginsE:
  assumes "begins (is, e) str"
  obtains v w where "str = v @ w" and "v \<in> lang is" and "e \<longrightarrow> w = []"
  using assms unfolding begins_def by force

lemma lang_OneI: "x \<in> stands_for c \<Longrightarrow> v \<in> lang is \<Longrightarrow> x # v \<in> lang (One c # is)"
  by simp

lemma lang_StarI: "set u \<subseteq> stands_for c \<Longrightarrow> v \<in> lang is \<Longrightarrow> u @ v \<in> lang (Star c # is)"
  by auto

lemma begins_One: "begins (One c # is, e) str \<longleftrightarrow> str \<noteq> [] \<and> hd str \<in> stands_for c \<and> begins (is, e) (tl str)"
proof
  assume "begins (One c # is, e) str"
  then obtain v' w where v': "str = v' @ w" "v' \<in> lang (One c # is)" "e \<longrightarrow> w = []" by (rule beginsE)
  then obtain x v where "v' = x # v" "x \<in> stands_for c" "v \<in> lang is" by auto
  with v' show "str \<noteq> [] \<and> hd str \<in> stands_for c \<and> begins (is, e) (tl str)" by (auto intro: beginsI)
next
  assume a: "str \<noteq> [] \<and> hd str \<in> stands_for c \<and> begins (is, e) (tl str)"
  then obtain x t where t: "str = x # t" "x \<in> stands_for c" "begins (is, e) t" by (cases str) auto
  from t(3) obtain v w where "t = v @ w" "v \<in> lang is" "e \<longrightarrow> w = []" by (rule beginsE)
  with t show "begins (One c # is, e) str" by (intro beginsI[where v = "x # v" and w = w] lang_OneI) auto
qed

lemma begins_Star:
  "begins (Star c # is, e) str \<longleftrightarrow>
     begins (is, e) str \<or> str \<noteq> [] \<and> hd str \<in> stands_for c \<and> begins (Star c # is, e) (tl str)"
proof
  assume "begins (Star c # is, e) str"
  then obtain v' w where v': "str = v' @ w" "v' \<in> lang (Star c # is)" "e \<longrightarrow> w = []" by (rule beginsE)
  then obtain u v where u: "v' = u @ v" "set u \<subseteq> stands_for c" "v \<in> lang is" by auto
  show "begins (is, e) str \<or> str \<noteq> [] \<and> hd str \<in> stands_for c \<and> begins (Star c # is, e) (tl str)"
  proof (cases u)
    case Nil
    with v' u show ?thesis by (auto intro: beginsI)
  next
    case (Cons x u')
    with v' u have "begins (Star c # is, e) (tl str)" by (intro beginsI[where v = "u' @ v" and w = w] lang_StarI) auto
    with v' u Cons show ?thesis by auto
  qed
next
  assume "begins (is, e) str \<or> str \<noteq> [] \<and> hd str \<in> stands_for c \<and> begins (Star c # is, e) (tl str)"
  then consider "begins (is, e) str" | x t where "str = x # t" "x \<in> stands_for c" "begins (Star c # is, e) t"
    by (cases str) auto
  then show "begins (Star c # is, e) str"
  proof cases
    case 1
    then obtain v w where "str = v @ w" "v \<in> lang is" "e \<longrightarrow> w = []" by (rule beginsE)
    then show ?thesis by (intro beginsI[where v = "[] @ v" and w = w] lang_StarI) auto
  next
    case 2
    from 2(3) obtain v' w where v': "t = v' @ w" "v' \<in> lang (Star c # is)" "e \<longrightarrow> w = []" by (rule beginsE)
    then obtain u v where "v' = u @ v" "set u \<subseteq> stands_for c" "v \<in> lang is" by auto
    with v' 2 show ?thesis by (intro beginsI[where v = "(x # u) @ v" and w = w] lang_StarI) auto
  qed
qed

lemma matcher_correct:
  "matchhere re str \<longleftrightarrow> begins (items re) str"
  "matchstar c re str \<longleftrightarrow> begins (Star c # fst (items re), snd (items re)) str"
proof (induction re str and c re str rule: matchhere_matchstar.induct)
  case (1 str)
  then show ?case by (simp add: matchhere.simps begins_Nil)
next
  case (2 c re str)
  show ?case
  proof (cases re)
    case Nil
    with 2 show ?thesis by (auto simp: matchhere.simps begins_Nil begins_One stands_for_def)
  next
    case (Cons d re')
    show ?thesis
    proof (cases "d = STAR")
      case True
      with Cons 2(1) show ?thesis by (simp add: matchhere.simps split: prod.splits)
    next
      case False
      with Cons have "matchhere (c # re) str \<longleftrightarrow> str \<noteq> [] \<and> hd str \<in> stands_for c \<and> matchhere re (tl str)"
        by (subst matchhere.simps) (auto simp: stands_for_def)
      moreover have "matchhere re (tl str) \<longleftrightarrow> begins (items re) (tl str)" if "str \<noteq> []" "hd str \<in> stands_for c"
        using that Cons False by (intro 2(2)) (auto simp: stands_for_def split: if_splits)
      ultimately show ?thesis using Cons False by (auto simp: begins_One split: prod.splits)
    qed
  qed
next
  case (3 c re str)
  have "matchstar c re (tl str) \<longleftrightarrow> begins (Star c # fst (items re), snd (items re)) (tl str)"
    if "\<not> matchhere re str" "str \<noteq> []" "hd str \<in> stands_for c"
    using that by (intro 3(2)) (auto simp: stands_for_def split: if_splits)
  moreover have "matchstar c re str \<longleftrightarrow> matchhere re str \<or> str \<noteq> [] \<and> hd str \<in> stands_for c \<and> matchstar c re (tl str)"
    by (subst matchstar.simps) (auto simp: stands_for_def)
  moreover have "matchhere re str \<longleftrightarrow> begins (fst (items re), snd (items re)) str" using 3(1) by simp
  ultimately show ?case by (subst begins_Star) blast
qed

lemma match_from_suffix: "match_from re str \<longleftrightarrow> (\<exists>u v. str = u @ v \<and> matchhere re v)"
proof (induction re str rule: match_from.induct)
  case (1 re str)
  have "(\<exists>u v. str = u @ v \<and> matchhere re v) \<longleftrightarrow>
      matchhere re str \<or> str \<noteq> [] \<and> (\<exists>u v. tl str = u @ v \<and> matchhere re v)"
    by (cases str) (auto simp: Cons_eq_append_conv)
  with 1 show ?case by (subst match_from.simps) auto
qed

lemmas match_meaning = match_def occurs_def matcher_correct match_from_suffix

text \<open>
  C19 (equivalence): the matcher always ends, and it says that a pattern matches exactly when some part of the text is
  in the language of the pattern: at the start of the text after a leading \<^verbatim>\<open>^\<close>, up to its end before a last \<^verbatim>\<open>$\<close>, with
  a dot for any character and a star for any number of repetitions of the character before it.\<close>

theorem match_decides_language: "match re str \<longleftrightarrow> occurs re str"
  by (simp add: match_meaning)

section \<open>Lines\<close>

text \<open>\<open>strchr\<close> in a buffer that is followed by a zero byte: the index of the first \<open>c\<close> before any zero byte.\<close>

fun index_of :: "u8 \<Rightarrow> u8 list \<Rightarrow> nat option" where
  "index_of c [] = None"
| "index_of c (x # xs) = (if x = 0 then None else if x = c then Some 0 else map_option Suc (index_of c xs))"

lemma index_of_less: "index_of c xs = Some q \<Longrightarrow> q < length xs"
  by (induction c xs arbitrary: q rule: index_of.induct) (auto split: if_splits)

text \<open>The inner loop over the bytes from \<open>p\<close> to the end of the buffer: what it prints, and the rest without a newline.\<close>

function grep_lines :: "u8 list \<Rightarrow> u8 list \<Rightarrow> u8 list \<times> u8 list" where
  "grep_lines pattern p = (case index_of NEWLINE p of
     None \<Rightarrow> ([], p)
   | Some q \<Rightarrow> (case grep_lines pattern (drop (q + 1) p) of (out, rest) \<Rightarrow>
       ((if match pattern (take q p) then take (q + 1) p else []) @ out, rest)))"
  by pat_completeness auto
termination
  by (relation "measure (\<lambda>(pattern, p). length p)") (auto dest: index_of_less)

declare grep_lines.simps [simp del]

text \<open>The outer loop; \<open>buf\<close> are the first \<^verbatim>\<open>m\<close> bytes of the buffer of 1024.\<close>

function grep_loop :: "u8 list \<Rightarrow> u8 list \<Rightarrow> source \<Rightarrow> u8 list" where
  "grep_loop pattern buf src = (case read_some (1024 - length buf - 1) src of (bs, src') \<Rightarrow>
     if bs = [] then []
     else case grep_lines pattern (buf @ bs) of (out, rest) \<Rightarrow> out @ grep_loop pattern rest src')"
  by pat_completeness auto
termination
proof (relation "measure (\<lambda>(pattern, buf, src). length (snd src))")
  fix pattern buf :: "u8 list" and src bs src' a b
  assume "(bs, src') = read_some (1024 - length buf - 1) src" "bs \<noteq> []"
  then show "((pattern, b, src'), (pattern, buf, src)) \<in> measure (\<lambda>(pattern, buf, src). length (snd src))"
    by (cases src) (auto simp: read_some_def Let_def)
qed simp

declare grep_loop.simps [simp del]

definition grep :: "u8 list \<Rightarrow> source \<Rightarrow> u8 list" where
  "grep pattern src = grep_loop pattern [] src"

text \<open>\<^verbatim>\<open>main\<close>: the bytes written to descriptors 1 and 2, and the exit status. \<open>opened\<close> gives what \<^verbatim>\<open>open\<close> finds.\<close>

fun grep_files :: "u8 list \<Rightarrow> (u8 list \<Rightarrow> source option) \<Rightarrow> u8 list list \<Rightarrow> u8 list \<times> i32" where
  "grep_files pattern opened [] = ([], 0)"
| "grep_files pattern opened (f # fs) = (case opened f of
     None \<Rightarrow> (bytes_of ''grep: cannot open '' @ f @ [NEWLINE], 1)
   | Some src \<Rightarrow> (case grep_files pattern opened fs of (out, r) \<Rightarrow> (grep pattern src @ out, r)))"

definition grep_main :: "u8 list list \<Rightarrow> source \<Rightarrow> (u8 list \<Rightarrow> source option) \<Rightarrow> u8 list \<times> u8 list \<times> i32" where
  "grep_main argv stdin opened =
     (if length argv \<le> 1 then ([], bytes_of ''usage: grep pattern [file ...]'' @ [NEWLINE], 1)
      else let pattern = argv ! 1
           in if length argv \<le> 2 then (grep pattern stdin, [], 0)
              else case grep_files pattern opened (drop 2 argv) of (out, r) \<Rightarrow> (out, [], r))"

text \<open>The terminated lines of an input, and what follows the last newline.\<close>

function lines :: "u8 list \<Rightarrow> u8 list list \<times> u8 list" where
  "lines xs = (if NEWLINE \<in> set xs
     then case lines (tl (dropWhile (\<lambda>c. c \<noteq> NEWLINE) xs)) of (ls, r) \<Rightarrow> (takeWhile (\<lambda>c. c \<noteq> NEWLINE) xs # ls, r)
     else ([], xs))"
  by pat_completeness auto
termination
proof (relation "measure length")
  fix xs :: "u8 list" assume "NEWLINE \<in> set xs"
  then have "dropWhile (\<lambda>c. c \<noteq> NEWLINE) xs \<noteq> []" by auto
  moreover have "length (dropWhile (\<lambda>c. c \<noteq> NEWLINE) xs) \<le> length xs" by (rule length_dropWhile_le)
  ultimately show "(tl (dropWhile (\<lambda>c. c \<noteq> NEWLINE) xs), xs) \<in> measure length"
    by (cases "dropWhile (\<lambda>c. c \<noteq> NEWLINE) xs") auto
qed simp

declare lines.simps [simp del]

definition printed :: "u8 list \<Rightarrow> u8 list list \<Rightarrow> u8 list" where
  "printed pattern ls = concat (map (\<lambda>l. l @ [NEWLINE]) (filter (occurs pattern) ls))"

lemma printed_simps [simp]:
  "printed pattern [] = []"
  "printed pattern (l # ls) = (if occurs pattern l then l @ [NEWLINE] else []) @ printed pattern ls"
  "printed pattern (ks @ ls) = printed pattern ks @ printed pattern ls"
  by (simp_all add: printed_def)

lemma lines_none: "NEWLINE \<notin> set xs \<Longrightarrow> lines xs = ([], xs)"
  by (simp add: lines.simps)

lemma lines_line: "NEWLINE \<notin> set l \<Longrightarrow> lines (l @ NEWLINE # xs) = (l # fst (lines xs), snd (lines xs))"
  by (subst lines.simps) (simp add: takeWhile_append dropWhile_append split: prod.splits)

lemma split_line: "NEWLINE \<in> set xs \<Longrightarrow> \<exists>l r. xs = l @ NEWLINE # r \<and> NEWLINE \<notin> set l"
  by (rule split_list_first)

lemma lines_append: "lines (xs @ ys) = (fst (lines xs) @ fst (lines (snd (lines xs) @ ys)), snd (lines (snd (lines xs) @ ys)))"
proof (induction "length xs" arbitrary: xs rule: less_induct)
  case less
  show ?case
  proof (cases "NEWLINE \<in> set xs")
    case True
    then obtain l r where "xs = l @ NEWLINE # r" "NEWLINE \<notin> set l" using split_line by blast
    with less[of r] show ?thesis by (simp add: lines_line)
  qed (simp add: lines_none)
qed

lemma lines_rest: "NEWLINE \<notin> set (snd (lines xs))" "set (snd (lines xs)) \<subseteq> set xs"
proof (induction "length xs" arbitrary: xs rule: less_induct)
  case less
  have "NEWLINE \<notin> set (snd (lines xs)) \<and> set (snd (lines xs)) \<subseteq> set xs"
  proof (cases "NEWLINE \<in> set xs")
    case True
    then obtain l r where "xs = l @ NEWLINE # r" "NEWLINE \<notin> set l" using split_line by blast
    with less(1)[of r] less(2)[of r] show ?thesis by (auto simp: lines_line)
  qed (simp add: lines_none)
  then show "NEWLINE \<notin> set (snd (lines xs))" "set (snd (lines xs)) \<subseteq> set xs" by simp_all
qed

lemma index_of_line: "0 \<notin> set xs \<Longrightarrow> NEWLINE \<notin> set l \<Longrightarrow> 0 \<notin> set l \<Longrightarrow> index_of NEWLINE (l @ NEWLINE # xs) = Some (length l)"
  by (induction l) auto

lemma index_of_none: "NEWLINE \<notin> set xs \<Longrightarrow> index_of NEWLINE xs = None"
  by (induction xs) auto

lemma grep_lines_correct: "0 \<notin> set p \<Longrightarrow> grep_lines pattern p = (printed pattern (fst (lines p)), snd (lines p))"
proof (induction "length p" arbitrary: p rule: less_induct)
  case less
  show ?case
  proof (cases "NEWLINE \<in> set p")
    case True
    then obtain l r where p: "p = l @ NEWLINE # r" "NEWLINE \<notin> set l" using split_line by blast
    with less.prems have "index_of NEWLINE p = Some (length l)" "0 \<notin> set r" by (auto intro: index_of_line)
    with p less.hyps[of r] show ?thesis
      by (subst grep_lines.simps) (simp add: lines_line match_meaning)
  qed (subst grep_lines.simps, simp add: index_of_none lines_none)
qed

definition short_lines :: "u8 list \<Rightarrow> bool" where
  "short_lines xs \<longleftrightarrow> (\<forall>l \<in> set (fst (lines xs)). length l \<le> 1022) \<and> length (snd (lines xs)) \<le> 1022"

lemma short_start: "NEWLINE \<notin> set xs \<Longrightarrow> short_lines (xs @ ys) \<Longrightarrow> length xs \<le> 1022"
proof (cases "NEWLINE \<in> set ys")
  case True
  assume a: "NEWLINE \<notin> set xs" "short_lines (xs @ ys)"
  obtain l r where "ys = l @ NEWLINE # r" "NEWLINE \<notin> set l" using True split_line by blast
  with a lines_line[of "xs @ l" r] show ?thesis by (simp add: short_lines_def)
qed (simp add: short_lines_def lines_none)

lemma grep_loop_correct:
  "NEWLINE \<notin> set buf \<Longrightarrow> length buf \<le> 1022 \<Longrightarrow> 0 \<notin> set (buf @ bs) \<Longrightarrow> short_lines (buf @ bs) \<Longrightarrow>
   grep_loop pattern buf (ks, bs) = printed pattern (fst (lines (buf @ bs)))"
proof (induction "length bs" arbitrary: bs buf ks rule: less_induct)
  case less
  define k where "k = min (1023 - length buf) (if ks = [] then 1023 - length buf else max 1 (hd ks))"
  have k: "0 < k" using less.prems(2) by (auto simp: k_def)
  have rd: "read_some (1024 - length buf - 1) (ks, bs) = (take k bs, tl ks, drop k bs)"
    by (simp add: read_some_def k_def Let_def)
  show ?case
  proof (cases "bs = []")
    case True
    with rd less.prems(1) show ?thesis by (subst grep_loop.simps) (simp add: lines_none)
  next
    case False
    let ?x = "buf @ take k bs"
    have split: "buf @ bs = ?x @ drop k bs" by simp
    have z: "0 \<notin> set ?x" using less.prems(3) by (auto dest: in_set_takeD)
    have short: "\<forall>l \<in> set (fst (lines ?x)). length l \<le> 1022" "short_lines (snd (lines ?x) @ drop k bs)"
      using less.prems(4) unfolding short_lines_def split lines_append[of ?x] by auto
    have "length (snd (lines ?x)) \<le> 1022" using short_start[OF lines_rest(1) short(2)] .
    have "grep_loop pattern (snd (lines ?x)) (tl ks, drop k bs) = printed pattern (fst (lines (snd (lines ?x) @ drop k bs)))"
      using False k less.prems(3) lines_rest[of ?x] short(2) z \<open>length (snd (lines ?x)) \<le> 1022\<close>
      by (intro less.hyps) (auto dest: in_set_dropD)
    then show ?thesis using rd False k grep_lines_correct[OF z, of pattern]
      by (subst grep_loop.simps) (simp add: lines_append[of ?x "drop k bs", simplified])
  qed
qed

text \<open>
  C20 (functional): \<^verbatim>\<open>grep\<close> ends, and prints the terminated lines of its input in which the pattern occurs, in order and
  unchanged, however the input is cut into reads, when the input has no zero byte and every line fits in the buffer
  (1022 bytes). What follows the last newline is not printed.\<close>

theorem grep_prints_matching_lines:
  assumes "0 \<notin> set input" and "\<forall>l \<in> set (fst (lines input)). length l \<le> 1022" and "length (snd (lines input)) \<le> 1022"
  shows "grep pattern (ks, input) = concat (map (\<lambda>l. l @ [NEWLINE]) (filter (occurs pattern) (fst (lines input))))"
  using grep_loop_correct[of "[]" input pattern ks] assms by (simp add: grep_def short_lines_def printed_def)

text \<open>The pattern \<^verbatim>\<open>a.*c$\<close> on the lines \<^verbatim>\<open>xaabc\<close> and \<^verbatim>\<open>abcd\<close> and an unterminated \<^verbatim>\<open>abc\<close>, read three bytes at a time.\<close>

theorem grep_prints_matching_lines_witness:
  "grep [97, 46, 42, 99, 36] ([3, 3, 3], [120, 97, 97, 98, 99, 10, 97, 98, 99, 100, 10, 97, 98, 99]) = [120, 97, 97, 98, 99, 10]"
proof -
  let ?in = "[120, 97, 97, 98, 99, 10, 97, 98, 99, 100, 10, 97, 98, 99] :: u8 list" and ?re = "[97, 46, 42, 99, 36] :: u8 list"
  have l: "lines ?in = ([[120, 97, 97, 98, 99], [97, 98, 99, 100]], [97, 98, 99])"
    by (simp add: lines.simps)
  have "match ?re [120, 97, 97, 98, 99]" "\<not> match ?re [97, 98, 99, 100]"
    by (simp_all add: match_def match_from.simps matchhere.simps matchstar.simps)
  then have "occurs ?re [120, 97, 97, 98, 99]" "\<not> occurs ?re [97, 98, 99, 100]"
    by (simp_all add: match_meaning)
  with grep_prints_matching_lines[of ?in ?re "[3, 3, 3]"] l show ?thesis by simp
qed

end
