(* ===== verification/Umalloc.thy ===== *)
theory Umalloc
  imports User_Lib
begin

text \<open>
  The memory allocator of user programs, \<^verbatim>\<open>user/umalloc.c\<close>. A block starts with a header of 16 bytes, its size counts units of
  16 bytes, and the free blocks form a ring in the order of their addresses, starting at the static \<^verbatim>\<open>base\<close>. The headers are
  two maps from addresses; \<open>brk\<close> is the end of the memory of the process. The kernel may refuse to extend it
  (\<open>grants\<close>), and never extends it beyond \<open>top\<close>.
\<close>

record uheap =
  hptr :: "u64 \<Rightarrow> u64"
  hsize :: "u64 \<Rightarrow> u32"
  freep :: u64
  brk :: u64
  top :: u64
  grants :: "bool list"

text \<open>Pointer arithmetic on headers.\<close>

definition units_after :: "u64 \<Rightarrow> u32 \<Rightarrow> u64" where
  "units_after p n = p + 16 * ucast n"

definition set_ptr :: "u64 \<Rightarrow> u64 \<Rightarrow> uheap \<Rightarrow> uheap" where
  "set_ptr a v st = st\<lparr>hptr := (hptr st)(a := v)\<rparr>"

definition set_size :: "u64 \<Rightarrow> u32 \<Rightarrow> uheap \<Rightarrow> uheap" where
  "set_size a v st = st\<lparr>hsize := (hsize st)(a := v)\<rparr>"

text \<open>\<^verbatim>\<open>sbrk\<close> as the kernel serves it: it returns the old end, or -1; shrinking does not fail.\<close>

definition usbrk :: "i32 \<Rightarrow> uheap \<Rightarrow> u64 \<times> uheap" where
  "usbrk n st =
     (if n <s 0 then (brk st, if unat (- n) \<le> unat (brk st) then st\<lparr>brk := brk st + scast n\<rparr> else st)
      else if grants st \<noteq> [] \<and> hd (grants st) \<and> unat (brk st) + unat n \<le> unat (top st)
      then (brk st, st\<lparr>brk := brk st + scast n, grants := tl (grants st)\<rparr>)
      else (- 1, st\<lparr>grants := tl (grants st)\<rparr>))"

section \<open>free\<close>

partial_function (option) free_search :: "u64 \<Rightarrow> u64 \<Rightarrow> uheap \<Rightarrow> u64 option" where
  "free_search bp p st =
     (if p < bp \<and> bp < hptr st p then Some p
      else if hptr st p \<le> p \<and> (p < bp \<or> bp < hptr st p) then Some p
      else free_search bp (hptr st p) st)"

text \<open>The block \<open>bp\<close> is joined to the one that follows \<open>p\<close>, or points to it; then \<open>p\<close> is joined to \<open>bp\<close>, or points to it.\<close>

definition join_next :: "u64 \<Rightarrow> u64 \<Rightarrow> uheap \<Rightarrow> uheap" where
  "join_next bp p st =
     (if units_after bp (hsize st bp) = hptr st p
      then let st = set_size bp (hsize st bp + hsize st (hptr st p)) st
           in set_ptr bp (hptr st (hptr st p)) st
      else set_ptr bp (hptr st p) st)"

definition join_prev :: "u64 \<Rightarrow> u64 \<Rightarrow> uheap \<Rightarrow> uheap" where
  "join_prev bp p st =
     (if units_after p (hsize st p) = bp
      then let st = set_size p (hsize st p + hsize st bp) st
           in set_ptr p (hptr st bp) st
      else set_ptr p bp st)"

definition ufree :: "u64 \<Rightarrow> uheap \<Rightarrow> uheap option" where
  "ufree ap st =
     (let bp = ap - 16
      in case free_search bp (freep st) st of None \<Rightarrow> None | Some p \<Rightarrow> Some ((join_prev bp p (join_next bp p st))\<lparr>freep := p\<rparr>))"

section \<open>malloc\<close>

definition morecore :: "u32 \<Rightarrow> uheap \<Rightarrow> (u64 \<times> uheap) option" where
  "morecore nu st =
     (let nu = (if nu < 4096 then 4096 else nu);
          (p, st) = usbrk (ucast (ucast nu * 16 :: u64)) st
      in if p = - 1 then Some (0, st)
         else let st = set_size p nu st
              in case ufree (p + 16) st of None \<Rightarrow> None | Some st \<Rightarrow> Some (freep st, st))"

text \<open>The block at \<open>p\<close>, which is large enough and follows \<open>prevp\<close>, is taken whole or gives its tail.\<close>

definition take_block :: "u32 \<Rightarrow> u64 \<Rightarrow> u64 \<Rightarrow> uheap \<Rightarrow> u64 \<times> uheap" where
  "take_block nunits prevp p st =
     (let (p, st) = (if hsize st p = nunits then (p, set_ptr prevp (hptr st p) st)
                     else let st = set_size p (hsize st p - nunits) st;
                              p = units_after p (hsize st p)
                          in (p, set_size p nunits st))
      in (p + 16, st\<lparr>freep := prevp\<rparr>))"

partial_function (option) malloc_loop :: "u32 \<Rightarrow> u64 \<Rightarrow> u64 \<Rightarrow> uheap \<Rightarrow> (u64 \<times> uheap) option" where
  "malloc_loop nunits prevp p st =
     (if nunits \<le> hsize st p then Some (take_block nunits prevp p st)
      else if p = freep st
      then (case morecore nunits st of
              None \<Rightarrow> None
            | Some (p, st) \<Rightarrow> if p = 0 then Some (0, st) else malloc_loop nunits p (hptr st p) st)
      else malloc_loop nunits p (hptr st p) st)"

definition malloc :: "u64 \<Rightarrow> u32 \<Rightarrow> uheap \<Rightarrow> (u64 \<times> uheap) option" where
  "malloc base nbytes st =
     (let nunits = ucast ((ucast nbytes + 16 - 1) div 16 + 1 :: u64);
          st = (if freep st = 0 then set_size base 0 (set_ptr base base (st\<lparr>freep := base\<rparr>)) else st);
          prevp = freep st
      in malloc_loop nunits prevp (hptr st prevp) st)"

end
