(* ===== verification/Umalloc_Props.thy ===== *)
theory Umalloc_Props
  imports Umalloc
begin

text \<open>
  The allocator keeps the memory of the process divided into the blocks of the free list, in the order of their
  addresses, and the blocks in use, all of them disjoint. \<^verbatim>\<open>malloc\<close> and \<^verbatim>\<open>free\<close> end, keep this division, and move one
  block from one side to the other.
\<close>

section \<open>Blocks\<close>

definition lo :: "u64 \<Rightarrow> nat" where
  "lo x = unat x"

definition hi :: "uheap \<Rightarrow> u64 \<Rightarrow> nat" where
  "hi st x = unat x + 16 * unat (hsize st x)"

definition apart :: "uheap \<Rightarrow> u64 \<Rightarrow> u64 \<Rightarrow> bool" where
  "apart st x y \<longleftrightarrow> hi st x \<le> lo y \<or> hi st y \<le> lo x"

text \<open>Following the pointers from the first element leads through the list to \<open>z\<close>.\<close>

fun linked :: "uheap \<Rightarrow> u64 list \<Rightarrow> u64 \<Rightarrow> bool" where
  "linked st [] z \<longleftrightarrow> True"
| "linked st (a # xs) z \<longleftrightarrow> hptr st a = hd (xs @ [z]) \<and> linked st xs z"

lemma linked_append: "linked st (xs @ ys) z \<longleftrightarrow> linked st xs (hd (ys @ [z])) \<and> linked st ys z"
proof (induction xs)
  case (Cons a xs)
  then show ?case by (cases xs) auto
qed simp

text \<open>The memory a block lies in.\<close>

definition in_heap :: "u64 \<Rightarrow> uheap \<Rightarrow> u64 \<Rightarrow> bool" where
  "in_heap base st x \<longleftrightarrow> 0 < hsize st x \<and> unat base + 16 \<le> lo x \<and> hi st x \<le> unat (brk st)"

text \<open>Blocks inside the memory that do not overlap.\<close>

definition placed :: "u64 \<Rightarrow> u64 set \<Rightarrow> uheap \<Rightarrow> bool" where
  "placed base B st \<longleftrightarrow> (\<forall>x \<in> B. in_heap base st x) \<and> (\<forall>x \<in> B. \<forall>y \<in> B. x \<noteq> y \<longrightarrow> apart st x y)"

definition heap_bounds :: "u64 \<Rightarrow> uheap \<Rightarrow> bool" where
  "heap_bounds base st \<longleftrightarrow>
     base \<noteq> 0 \<and> unat base + 16 \<le> unat (brk st) \<and> unat (brk st) \<le> unat (top st) \<and> unat (top st) \<le> 2 ^ 35"

text \<open>\<open>A\<close> are the blocks in use and \<open>hs\<close> the free blocks in order.\<close>

definition heap_ok :: "u64 \<Rightarrow> u64 set \<Rightarrow> u64 list \<Rightarrow> uheap \<Rightarrow> bool" where
  "heap_ok base A hs st \<longleftrightarrow>
     linked st (base # hs) base \<and> sorted_wrt (<) (base # hs) \<and> placed base (A \<union> set hs) st \<and> A \<inter> set hs = {} \<and>
     hsize st base = 0 \<and> freep st \<in> set (base # hs) \<and> heap_bounds base st"

lemma hsize_pos: "0 < hsize st x \<longleftrightarrow> lo x < hi st x"
  by (simp add: lo_def hi_def word_gt_0 unat_gt_0)

lemma hi_small: "heap_bounds base st \<Longrightarrow> in_heap base st x \<Longrightarrow> hi st x \<le> 2 ^ 35"
  by (simp add: heap_bounds_def in_heap_def)

lemma units_after_lo:
  "unat x + 16 * unat n < 2 ^ 64 \<Longrightarrow> unat (units_after x n) = unat x + 16 * unat n"
proof -
  assume "unat x + 16 * unat n < 2 ^ 64"
  moreover have "units_after x n = x + of_nat (16 * unat n)" by (simp add: units_after_def)
  ultimately show ?thesis using unat_add_offset[of x "16 * unat n"] by (simp only:)
qed

lemma units_after_eq:
  "hi st x \<le> 2 ^ 35 \<Longrightarrow> units_after x (hsize st x) = y \<longleftrightarrow> hi st x = lo y"
  using units_after_lo[of x "hsize st x"] by (auto simp: hi_def lo_def word_unat_eq_iff)

lemma size_sum:
  assumes "hi st x \<le> lo y" "hi st y \<le> 2 ^ 35"
  shows "unat (hsize st x + hsize st y) = unat (hsize st x) + unat (hsize st y)"
proof -
  have "unat (hsize st x) + unat (hsize st y) < 2 ^ 32" using assms by (simp add: hi_def lo_def)
  then show ?thesis by (simp add: unat_word_ariths)
qed

section \<open>The search of free\<close>

lemma search_up:
  "linked st (us @ p # ys) base \<Longrightarrow> sorted_wrt (<) (us @ p # ys) \<Longrightarrow> p < bp \<Longrightarrow> (\<And>y. y \<in> set ys \<Longrightarrow> bp < y) \<Longrightarrow>
   base \<le> p \<Longrightarrow> free_search bp (hd (us @ [p])) st = Some p"
proof (induction us)
  case Nil
  then have "hptr st p = hd (ys @ [base])" by simp
  with Nil show ?case by (cases ys) (auto simp: free_search.simps[of bp p])
next
  case (Cons u us)
  have next_u: "hptr st u = hd (us @ [p])" using Cons.prems(1) by (cases us) simp_all
  have "u < hd (us @ [p])" "hd (us @ [p]) \<le> p" using Cons.prems(2) by (cases us; auto)+
  with Cons.prems(3) next_u have "free_search bp u st = free_search bp (hd (us @ [p])) st"
    by (subst free_search.simps) auto
  with Cons.IH Cons.prems show ?case by simp
qed

lemma search_down:
  "linked st (v # vs) base \<Longrightarrow> sorted_wrt (<) (v # vs) \<Longrightarrow> (\<And>y. y \<in> set (v # vs) \<Longrightarrow> bp < y) \<Longrightarrow> base < bp \<Longrightarrow>
   free_search bp v st = free_search bp base st"
proof (induction vs arbitrary: v)
  case Nil
  then have "hptr st v = base" "\<not> v < bp" "\<not> bp < base" by (auto simp: not_less intro: less_imp_le)
  then show ?case by (subst free_search.simps) simp
next
  case (Cons w vs)
  then have "hptr st v = w" "\<not> w \<le> v" "\<not> v < bp" by (auto simp: not_less intro: less_imp_le)
  then have "free_search bp v st = free_search bp w st" by (subst free_search.simps) simp
  moreover have "free_search bp w st = free_search bp base st"
    using Cons.prems by (intro Cons.IH) simp_all
  ultimately show ?case by simp
qed

lemma search_finds:
  assumes "linked st L base" and "sorted_wrt (<) L" and "L = xs @ p # ys" and "hd L = base" and "q \<in> set L"
    and "p < bp" and "\<And>y. y \<in> set ys \<Longrightarrow> bp < y"
  shows "free_search bp q st = Some p"
proof -
  have b: "base \<le> p" using assms(2-4) by (cases xs) auto
  have base: "free_search bp base st = Some p"
    using search_up[of st xs p ys base bp] assms b by (cases xs) auto
  consider us vs where "xs @ [p] = us @ q # vs" | us vs where "ys = us @ q # vs"
    using assms(3,5) split_list[of q "xs @ [p]"] split_list[of q ys] by auto
  then show ?thesis
  proof cases
    case 1
    then obtain ws where "L = us @ ws @ p # ys" "hd (ws @ [p]) = q"
      using assms(3) by (cases vs rule: rev_cases) auto
    with search_up[of st ws p ys base bp] assms b show ?thesis by (auto simp: linked_append sorted_wrt_append)
  next
    case 2
    then have "L = (xs @ p # us) @ q # vs" using assms(3) by simp
    then have "linked st (q # vs) base" "sorted_wrt (<) (q # vs)" using assms(1,2) by (simp_all only: linked_append sorted_wrt_append)
    moreover have "bp < y" if "y \<in> set (q # vs)" for y using that 2 by (intro assms(7)) auto
    ultimately have "free_search bp q st = free_search bp base st" using b assms(6) by (intro search_down) auto
    with base show ?thesis by simp
  qed
qed

lemma ordered_split:
  "sorted_wrt (<) L \<Longrightarrow> L \<noteq> [] \<Longrightarrow> hd L < b \<Longrightarrow> b \<notin> set L \<Longrightarrow>
   \<exists>xs p ys. L = xs @ p # ys \<and> p < b \<and> (\<forall>y \<in> set ys. b < y)" for b :: u64
proof (induction L)
  case (Cons a L)
  show ?case
  proof (cases "L \<noteq> [] \<and> hd L < b")
    case True
    with Cons obtain xs p ys where "L = xs @ p # ys" "p < b" "\<forall>y \<in> set ys. b < y" by auto
    then have "a # L = (a # xs) @ p # ys" by simp
    with \<open>p < b\<close> \<open>\<forall>y \<in> set ys. b < y\<close> show ?thesis by blast
  next
    case False
    have "b < y" if "y \<in> set L" for y
    proof -
      from that obtain c L' where L: "L = c # L'" by (cases L) auto
      then have "b < c" using False Cons.prems(4) by (auto simp: not_less le_less)
      moreover have "c \<le> y" using that L Cons.prems(1) by auto
      ultimately show ?thesis by simp
    qed
    with Cons.prems(3) have "a # L = [] @ a # L \<and> a < b \<and> (\<forall>y \<in> set L. b < y)" by simp
    then show ?thesis by blast
  qed
qed simp

section \<open>Joining blocks\<close>

lemma heap_fields [simp]:
  "hptr (set_ptr a v st) = (hptr st)(a := v)" "hsize (set_ptr a v st) = hsize st" "freep (set_ptr a v st) = freep st"
  "brk (set_ptr a v st) = brk st" "top (set_ptr a v st) = top st" "grants (set_ptr a v st) = grants st"
  "hptr (set_size a n st) = hptr st" "hsize (set_size a n st) = (hsize st)(a := n)" "freep (set_size a n st) = freep st"
  "brk (set_size a n st) = brk st" "top (set_size a n st) = top st" "grants (set_size a n st) = grants st"
  by (simp_all add: set_ptr_def set_size_def)

lemma linked_cong: "(\<And>a. a \<in> set xs \<Longrightarrow> hptr st' a = hptr st a) \<Longrightarrow> linked st' xs z = linked st xs z"
  by (induction xs) auto

lemma linked_set:
  "a \<notin> set xs \<Longrightarrow> linked (set_ptr a v st) xs z = linked st xs z" "linked (set_size a n st) xs z = linked st xs z"
  by (rule linked_cong; auto)+

lemma placed_cong:
  "(\<And>x. x \<in> B \<Longrightarrow> hsize st' x = hsize st x) \<Longrightarrow> brk st' = brk st \<Longrightarrow> placed base B st' = placed base B st"
  by (simp add: placed_def in_heap_def apart_def hi_def)

lemma placed_subset: "placed base B st \<Longrightarrow> C \<subseteq> B \<Longrightarrow> placed base C st"
  by (auto simp: placed_def)

lemma placedD:
  assumes "placed base B st" "x \<in> B"
  shows "lo x < hi st x" "unat base + 16 \<le> lo x" "hi st x \<le> unat (brk st)" "y \<in> B \<Longrightarrow> x \<noteq> y \<Longrightarrow> apart st x y"
  using assms by (auto simp: placed_def in_heap_def hsize_pos)

lemma placed_merge:
  assumes p: "placed base B st" "x \<in> B" "y \<in> B" "x \<noteq> y" "hi st x = lo y" and b: "heap_bounds base st"
  shows "placed base (B - {y}) (set_size x (hsize st x + hsize st y) st)"
    and "hsize st x \<le> hsize st x + hsize st y" "hsize st y \<le> hsize st x + hsize st y"
proof -
  let ?t = "set_size x (hsize st x + hsize st y) st"
  note x = placedD[OF p(1,2)] and y = placedD[OF p(1,3)]
  have sum: "unat (hsize st x + hsize st y) = unat (hsize st x) + unat (hsize st y)"
    using y(3) b by (intro size_sum) (simp_all add: p(5) heap_bounds_def)
  then show "hsize st x \<le> hsize st x + hsize st y" "hsize st y \<le> hsize st x + hsize st y"
    by (simp_all add: word_le_nat_alt)
  have hx: "hi ?t x = hi st y" using sum p(5) by (simp add: hi_def lo_def)
  have hz: "hi ?t z = hi st z" if "z \<noteq> x" for z using that by (simp add: hi_def)
  have apart_x: "apart ?t x z" if z: "z \<in> B" "z \<noteq> x" "z \<noteq> y" for z
    using x(4)[OF z(1)] y(4)[OF z(1)] placedD(1)[OF p(1) z(1)] z p(5) by (auto simp: apart_def hx hz)
  then have sym: "apart ?t z x" if "z \<in> B" "z \<noteq> x" "z \<noteq> y" for z using that by (auto simp: apart_def)
  show "placed base (B - {y}) ?t"
    unfolding placed_def in_heap_def hsize_pos
  proof (intro conjI ballI impI)
    fix z assume z: "z \<in> B - {y}"
    show "lo z < hi ?t z" "hi ?t z \<le> unat (brk ?t)"
      using placedD[OF p(1), of z] z x y p(5) by (cases "z = x"; simp add: hx hz)+
    show "unat base + 16 \<le> lo z" using placedD(2)[OF p(1)] z by simp
    fix w assume w: "w \<in> B - {y}" "z \<noteq> w"
    then show "apart ?t z w"
      using z apart_x[of w] sym[of z] placedD(4)[OF p(1), of z w] by (cases "z = x"; cases "w = x") (auto simp: apart_def hz)
  qed
qed

text \<open>A block \<open>bp\<close> that is placed but on no list, and the place in the list where it belongs; the pointer at \<open>p\<close> is not yet
  settled.\<close>

definition gap :: "u64 \<Rightarrow> u64 set \<Rightarrow> u64 list \<Rightarrow> u64 \<Rightarrow> u64 list \<Rightarrow> u64 \<Rightarrow> uheap \<Rightarrow> bool" where
  "gap base A xs p ys bp st \<longleftrightarrow>
     linked st xs p \<and> linked st ys base \<and> sorted_wrt (<) (xs @ p # bp # ys) \<and> hd (xs @ [p]) = base \<and>
     placed base (A \<union> (set (xs @ p # bp # ys) - {base})) st \<and> A \<inter> set (xs @ p # bp # ys) = {} \<and>
     hsize st base = 0 \<and> heap_bounds base st"

lemma placed_base: "placed base B st \<Longrightarrow> base \<notin> B"
  using placedD(2)[of base B st base] by (auto simp: lo_def)

lemma gap_facts:
  assumes "gap base A xs p ys bp st"
  shows "base \<notin> set (bp # ys)" "p \<noteq> bp" "bp \<notin> set xs" "p \<notin> set xs" "p \<notin> set ys" "bp \<notin> set ys" "bp \<notin> A" "p \<notin> A"
  using assms by (cases xs; auto simp: gap_def sorted_wrt_append)+

lemma join_next_gap:
  assumes g: "gap base A xs p ys bp st" and q: "hptr st p = hd (ys @ [base])"
  shows "\<exists>zs. gap base A xs p zs bp (join_next bp p st) \<and> hptr (join_next bp p st) bp = hd (zs @ [base]) \<and>
     hsize st bp \<le> hsize (join_next bp p st) bp \<and> (\<forall>a. a \<noteq> bp \<longrightarrow> hsize (join_next bp p st) a = hsize st a)"
proof -
  let ?B = "A \<union> (set (xs @ p # bp # ys) - {base})"
  have pl: "placed base ?B st" and bnd: "heap_bounds base st" using g by (simp_all add: gap_def)
  note f = gap_facts[OF g]
  have bB: "bp \<in> ?B" using f by auto
  note bp = placedD[OF pl bB]
  have eq: "units_after bp (hsize st bp) = hptr st p \<longleftrightarrow> hi st bp = lo (hptr st p)"
    using bp(3) bnd by (intro units_after_eq) (simp add: heap_bounds_def)
  show ?thesis
  proof (cases "hi st bp = lo (hptr st p)")
    case True
    have "ys \<noteq> []"
    proof
      assume "ys = []"
      then have "lo base = hi st bp" using True q by simp
      with bp(1,2) show False by (simp add: lo_def)
    qed
    then obtain y zs where ys: "ys = y # zs" by (cases ys) auto
    have y: "hptr st p = y" "y \<noteq> base" "bp \<noteq> y" using q ys f by auto
    let ?t = "set_ptr bp (hptr st y) (set_size bp (hsize st bp + hsize st y) st)"
    have yB: "y \<in> ?B" using ys y by simp
    have h: "hi st bp = lo y" using True y by simp
    note m = placed_merge[OF pl bB yB y(3) h bnd]
    have "A \<union> (set (xs @ p # bp # zs) - {base}) \<subseteq> ?B - {y}"
      using g ys y by (auto simp: gap_def sorted_wrt_append)
    from placed_subset[OF m(1) this] have "placed base (A \<union> (set (xs @ p # bp # zs) - {base})) ?t"
      by (subst placed_cong[where st = "set_size bp (hsize st bp + hsize st y) st"]) simp_all
    moreover have "join_next bp p st = ?t" using True y eq by (simp add: join_next_def)
    moreover have "linked ?t xs p" "linked ?t zs base"
      using g f ys by (subst linked_cong[where st = st]; auto simp: gap_def)+
    moreover have "hptr st y = hd (zs @ [base])" using g ys by (simp add: gap_def)
    ultimately have "gap base A xs p zs bp (join_next bp p st)" "hptr (join_next bp p st) bp = hd (zs @ [base])"
      using g f ys bnd by (auto simp: gap_def sorted_wrt_append heap_bounds_def)
    with m(2) \<open>join_next bp p st = ?t\<close> show ?thesis by auto
  next
    case False
    let ?t = "set_ptr bp (hptr st p) st"
    have j: "join_next bp p st = ?t" using False eq by (simp add: join_next_def)
    have "linked ?t xs p" "linked ?t ys base"
      using g f by (subst linked_cong[where st = st]; auto simp: gap_def)+
    moreover have "placed base ?B ?t" using pl by (subst placed_cong[where st = st]) simp_all
    ultimately have "gap base A xs p ys bp ?t" using g by (auto simp: gap_def heap_bounds_def)
    with j q show ?thesis by auto
  qed
qed

lemma freep_irrelevant [simp]:
  "linked (st\<lparr>freep := q\<rparr>) xs z = linked st xs z" "placed base B (st\<lparr>freep := q\<rparr>) = placed base B st"
  "heap_bounds base (st\<lparr>freep := q\<rparr>) = heap_bounds base st"
proof -
  show "linked (st\<lparr>freep := q\<rparr>) xs z = linked st xs z" by (rule linked_cong) simp
  show "placed base B (st\<lparr>freep := q\<rparr>) = placed base B st" by (rule placed_cong) simp_all
  show "heap_bounds base (st\<lparr>freep := q\<rparr>) = heap_bounds base st" by (simp add: heap_bounds_def)
qed

lemma heap_bounds_set [simp]:
  "heap_bounds base (set_ptr a v st) = heap_bounds base st" "heap_bounds base (set_size a n st) = heap_bounds base st"
  by (simp_all add: heap_bounds_def)

lemma join_prev_ok:
  assumes g: "gap base A xs p zs bp st" and n: "hptr st bp = hd (zs @ [base])"
  shows "\<exists>hs. heap_ok base A hs ((join_prev bp p st)\<lparr>freep := p\<rparr>) \<and> (\<exists>x \<in> set hs. hsize st bp \<le> hsize (join_prev bp p st) x) \<and>
     (\<forall>a. a \<noteq> p \<longrightarrow> hsize (join_prev bp p st) a = hsize st a)"
proof -
  let ?B = "A \<union> (set (xs @ p # bp # zs) - {base})"
  have pl: "placed base ?B st" and bnd: "heap_bounds base st" using g by (simp_all add: gap_def)
  note f = gap_facts[OF g]
  have hip: "hi st p \<le> 2 ^ 35"
  proof (cases "p = base")
    case True
    then show ?thesis using g bnd by (simp add: gap_def hi_def heap_bounds_def)
  next
    case False
    then show ?thesis using placedD(3)[OF pl, of p] bnd by (simp add: heap_bounds_def)
  qed
  have eq: "units_after p (hsize st p) = bp \<longleftrightarrow> hi st p = lo bp" by (rule units_after_eq[OF hip])
  have bB: "bp \<in> ?B" using f by auto
  obtain hs where hs: "xs @ [p] = base # hs" using g by (cases xs) (auto simp: gap_def)
  have srt: "sorted_wrt (<) ((base # hs) @ bp # zs)" unfolding hs[symmetric] using g by (simp add: gap_def)
  have "insert base (set hs) = insert p (set xs)" using arg_cong[OF hs, of set] by simp
  moreover have "base \<notin> set hs" using srt by (auto simp: sorted_wrt_append)
  ultimately have set: "set hs = insert p (set xs) - {base}" by blast
  have hp: "hsize st base = 0" "A \<inter> set hs = {}" "A \<inter> set zs = {}" using g set by (auto simp: gap_def)
  show ?thesis
  proof (cases "hi st p = lo bp")
    case True
    have pb: "p \<noteq> base"
    proof
      assume "p = base"
      then have "hi st p = unat base" using hp by (simp add: hi_def)
      with True placedD(2)[OF pl bB] show False by simp
    qed
    let ?t = "set_ptr p (hptr st bp) (set_size p (hsize st p + hsize st bp) st)"
    have pB: "p \<in> ?B" using pb by simp
    note m = placed_merge[OF pl pB bB f(2) True bnd]
    have "A \<union> set (hs @ zs) \<subseteq> ?B - {bp}" using set f by auto
    from placed_subset[OF m(1) this] have "placed base (A \<union> set (hs @ zs)) ?t"
      by (subst placed_cong[where st = "set_size p (hsize st p + hsize st bp) st"]) simp_all
    moreover have j: "join_prev bp p st = ?t" using True eq by (simp add: join_prev_def)
    moreover have "linked ?t xs p" "linked ?t zs base" using g f by (subst linked_cong[where st = st]; auto simp: gap_def)+
    then have "linked ?t ((xs @ [p]) @ zs) base" using n by (simp add: linked_append)
    then have "linked ?t (base # hs @ zs) base" unfolding hs by simp
    moreover have "sorted_wrt (<) (base # hs @ zs)" using srt by (auto simp: sorted_wrt_append)
    ultimately have "heap_ok base A (hs @ zs) ((join_prev bp p st)\<lparr>freep := p\<rparr>)"
      using hp pb set bnd by (auto simp: heap_ok_def)
    with m(3) j pb set show ?thesis by (intro exI[of _ "hs @ zs"]) auto
  next
    case False
    let ?t = "set_ptr p bp st"
    have j: "join_prev bp p st = ?t" using False eq by (simp add: join_prev_def)
    have "linked ?t xs p" "linked ?t zs base" using g f by (subst linked_cong[where st = st]; auto simp: gap_def)+
    then have "linked ?t ((xs @ [p]) @ bp # zs) base" using n f by (auto simp: linked_append)
    then have "linked ?t (base # hs @ bp # zs) base" unfolding hs by simp
    moreover have "A \<union> set (hs @ bp # zs) \<subseteq> ?B" using set f by auto
    from placed_subset[OF pl this] have "placed base (A \<union> set (hs @ bp # zs)) ?t"
      by (subst placed_cong[where st = st]) simp_all
    ultimately have "heap_ok base A (hs @ bp # zs) ((join_prev bp p st)\<lparr>freep := p\<rparr>)"
      using hp f set bnd srt j by (auto simp: heap_ok_def)
    then show ?thesis using j by (intro exI[of _ "hs @ bp # zs"]) auto
  qed
qed

lemma join_fields [simp]:
  "brk (join_next bp p st) = brk st" "top (join_next bp p st) = top st" "grants (join_next bp p st) = grants st"
  "brk (join_prev bp p st) = brk st" "top (join_prev bp p st) = top st" "grants (join_prev bp p st) = grants st"
  by (simp_all add: join_next_def join_prev_def Let_def)

lemma ufree_ok:
  assumes h: "heap_ok base A hs st" and a: "bp \<in> A"
  shows "\<exists>hs' st'. ufree (bp + 16) st = Some st' \<and> heap_ok base (A - {bp}) hs' st' \<and>
     (\<forall>b \<in> A - {bp}. hsize st' b = hsize st b) \<and> (\<exists>x \<in> set hs'. hsize st bp \<le> hsize st' x) \<and> brk st' = brk st \<and>
     top st' = top st \<and> grants st' = grants st"
proof -
  have pl: "placed base (A \<union> set hs) st" using h by (simp add: heap_ok_def)
  have nb: "bp \<notin> set (base # hs)" and lt: "base < bp"
    using h a placed_base[OF pl] placedD(2)[OF pl, of bp] by (auto simp: heap_ok_def lo_def word_less_nat_alt)
  obtain xs p ys where L: "base # hs = xs @ p # ys" "p < bp" "\<forall>y \<in> set ys. bp < y"
    using ordered_split[of "base # hs" bp] h nb lt by (auto simp: heap_ok_def)
  have set: "set (xs @ p # ys) = insert base (set hs)" using arg_cong[OF L(1), of set] by simp
  have srt: "sorted_wrt (<) (xs @ p # ys)" "linked st (xs @ p # ys) base" using h unfolding L(1)[symmetric] by (simp_all add: heap_ok_def)
  have fs: "free_search bp (freep st) st = Some p"
  proof (rule search_finds[OF _ _ L(1) _ _ L(2)])
    show "linked st (base # hs) base" "sorted_wrt (<) (base # hs)" "freep st \<in> set (base # hs)"
      using h by (simp_all only: heap_ok_def)
  qed (use L(3) in simp_all)
  have g: "gap base (A - {bp}) xs p ys bp st"
  proof -
    have s2: "set (xs @ p # bp # ys) = insert bp (insert base (set hs))" using set by auto
    have "A \<inter> set hs = {}" "base \<notin> A" using h placed_base[OF pl] by (simp_all add: heap_ok_def)
    then have dis: "(A - {bp}) \<inter> set (xs @ p # bp # ys) = {}" unfolding s2 by blast
    have "A - {bp} \<union> (set (xs @ p # bp # ys) - {base}) \<subseteq> A \<union> set hs" unfolding s2 using a by blast
    from placed_subset[OF pl this] have "placed base (A - {bp} \<union> (set (xs @ p # bp # ys) - {base})) st" .
    moreover have "sorted_wrt (<) (xs @ p # bp # ys)" using srt(1) L(2,3) by (auto simp: sorted_wrt_append)
    moreover have "hd (xs @ [p]) = base" using L(1) by (cases xs) auto
    moreover have "linked st xs p" "linked st ys base" using srt(2) by (simp_all add: linked_append)
    moreover have "hsize st base = 0" "heap_bounds base st" using h by (simp_all only: heap_ok_def)
    ultimately show ?thesis using dis unfolding gap_def by blast
  qed
  have q: "hptr st p = hd (ys @ [base])" using srt(2) by (simp add: linked_append)
  let ?s = "join_next bp p st" and ?t = "join_prev bp p (join_next bp p st)"
  from join_next_gap[OF g q] obtain zs where z: "gap base (A - {bp}) xs p zs bp ?s" "hptr ?s bp = hd (zs @ [base])"
    "hsize st bp \<le> hsize ?s bp" "\<forall>a. a \<noteq> bp \<longrightarrow> hsize ?s a = hsize st a" by blast
  from join_prev_ok[OF z(1,2)] obtain hs' where t: "heap_ok base (A - {bp}) hs' (?t\<lparr>freep := p\<rparr>)"
    "\<exists>x \<in> set hs'. hsize ?s bp \<le> hsize ?t x" "\<forall>a. a \<noteq> p \<longrightarrow> hsize ?t a = hsize ?s a" by blast
  have keep: "hsize (?t\<lparr>freep := p\<rparr>) b = hsize st b" if "b \<in> A - {bp}" for b
  proof -
    have "b \<noteq> p" "b \<noteq> bp" using that gap_facts(8)[OF z(1)] by blast+
    then show ?thesis using z(4) t(3) by simp
  qed
  obtain x where "x \<in> set hs'" "hsize st bp \<le> hsize (?t\<lparr>freep := p\<rparr>) x" using t(2) z(3) by (auto intro: order_trans)
  then show ?thesis
    using t(1) keep fs by (intro exI[of _ hs'] exI[of _ "?t\<lparr>freep := p\<rparr>"] conjI) (auto simp: ufree_def)
qed

section \<open>Taking a block\<close>

lemma placed_split:
  assumes p: "placed base B st" "q \<in> B" and n: "0 < n" "n < hsize st q" and b: "heap_bounds base st"
  defines "a \<equiv> units_after q (hsize st q - n)"
  shows "a \<notin> B" "a \<noteq> base" "placed base (insert a B) (set_size a n (set_size q (hsize st q - n) st))"
proof -
  let ?t = "set_size a n (set_size q (hsize st q - n) st)"
  note q = placedD[OF p]
  have sub: "unat (hsize st q - n) = unat (hsize st q) - unat n" using n(2) by (simp add: unat_sub word_less_nat_alt word_le_nat_alt)
  have nn: "0 < unat n" "unat n < unat (hsize st q)" using n by (simp_all add: unat_gt_0 word_less_nat_alt)
  have "hi st q \<le> 2 ^ 35" using q(3) b by (simp add: heap_bounds_def)
  then have la: "lo a = lo q + 16 * (unat (hsize st q) - unat n)"
    unfolding a_def lo_def using sub nn by (subst units_after_lo) (simp_all add: hi_def)
  then have lt: "lo q < lo a" "lo a < hi st q" using nn by (simp_all add: hi_def lo_def)
  show aB: "a \<notin> B"
  proof
    assume "a \<in> B"
    moreover have "a \<noteq> q" using lt by auto
    ultimately show False using q(4)[of a] placedD(1)[OF p(1), of a] lt by (auto simp: apart_def)
  qed
  show "a \<noteq> base" using lt q(2) by (auto simp: lo_def)
  have hq: "hi ?t q = lo a" and ha: "hi ?t a = hi st q"
    using la sub nn lt by (auto simp: hi_def lo_def)
  have hz: "hi ?t z = hi st z" if "z \<in> B" "z \<noteq> q" for z using that aB by (auto simp: hi_def)
  have sep: "hi st q \<le> lo z \<or> hi st z \<le> lo q" if "z \<in> B" "z \<noteq> q" for z
    using q(4)[of z] that by (auto simp: apart_def)
  show "placed base (insert a B) ?t"
    unfolding placed_def in_heap_def hsize_pos
  proof (intro conjI ballI impI)
    fix z assume z: "z \<in> insert a B"
    show "lo z < hi ?t z" "hi ?t z \<le> unat (brk ?t)" "unat base + 16 \<le> lo z"
      using placedD[OF p(1), of z] z q lt hq ha hz[of z] by (cases "z = a"; cases "z = q"; simp)+
    fix w assume w: "w \<in> insert a B" "z \<noteq> w"
    show "apart ?t z w"
      using z w sep[of z] sep[of w] placedD(4)[OF p(1), of z w] lt hq ha hz[of z] hz[of w] aB
      by (cases "z = a"; cases "w = a"; cases "z = q"; cases "w = q") (auto simp: apart_def)
  qed
qed

lemma take_block_ok:
  assumes h: "heap_ok base A hs st" and L: "base # hs = us @ pr # q # vs" and n: "0 < n" "n \<le> hsize st q"
  shows "\<exists>a hs' st'. take_block n pr q st = (a + 16, st') \<and> a \<notin> A \<and> heap_ok base (insert a A) hs' st' \<and> hsize st' a = n \<and>
     (\<forall>b \<in> A. hsize st' b = hsize st b)"
proof -
  have pl: "placed base (A \<union> set hs) st" and bnd: "heap_bounds base st" and dis: "A \<inter> set hs = {}" using h by (simp_all add: heap_ok_def)
  have srt: "sorted_wrt (<) (us @ pr # q # vs)" and lnk: "linked st (us @ pr # q # vs) base"
    using h unfolding L[symmetric] by (simp_all add: heap_ok_def)
  have qh: "q \<in> set hs" using L by (cases us) auto
  have prL: "pr \<in> set (base # hs)" unfolding L by simp
  have size0: "hsize st base = 0" using h by (simp add: heap_ok_def)
  show ?thesis
  proof (cases "hsize st q = n")
    case True
    let ?t = "(set_ptr pr (hptr st q) st)\<lparr>freep := pr\<rparr>"
    have t: "take_block n pr q st = (q + 16, ?t)" using True by (simp add: take_block_def)
    obtain hs' where hs': "us @ pr # vs = base # hs'" using L by (cases us) auto
    have pr: "pr \<notin> set us" "pr \<notin> set vs" using srt by (auto simp: sorted_wrt_append)
    have l: "linked st us pr" "linked st vs base" "hptr st q = hd (vs @ [base])" using lnk by (simp_all add: linked_append)
    have "linked ?t (us @ pr # vs) base" using pr l by (simp add: linked_append linked_set)
    moreover have "sorted_wrt (<) (us @ pr # vs)" using srt by (auto simp: sorted_wrt_append)
    moreover have s: "set hs' = set hs - {q}"
    proof -
      have e: "insert base (set hs') = insert base (set hs) - {q}"
        using arg_cong[OF hs', of set] arg_cong[OF L, of set] srt by (auto simp: sorted_wrt_append)
      have nb: "base \<notin> set hs" "base \<notin> set hs'"
        using h \<open>sorted_wrt (<) (us @ pr # vs)\<close> unfolding hs' by (auto simp: heap_ok_def)
      then have "set hs' = insert base (set hs') - {base}" by simp
      also have "\<dots> = set hs - {q}" unfolding e using nb(1) by auto
      finally show ?thesis .
    qed
    moreover have "placed base (insert q A \<union> set hs') ?t"
    proof -
      have "insert q A \<union> set hs' = A \<union> set hs" unfolding s using qh by auto
      then show ?thesis using pl placed_cong[of _ "set_ptr pr (hptr st q) st" st] by simp
    qed
    moreover have "insert q A \<inter> set hs' = {}" unfolding s using dis by auto
    moreover have "pr \<in> set (base # hs')" unfolding hs'[symmetric] by simp
    ultimately have "heap_ok base (insert q A) hs' ?t" using size0 bnd unfolding hs' by (simp add: heap_ok_def)
    moreover have "q \<notin> A" using dis qh by auto
    ultimately show ?thesis using t True by (intro exI[of _ q] exI[of _ hs'] exI[of _ ?t]) simp
  next
    case False
    let ?a = "units_after q (hsize st q - n)"
    let ?t = "(set_size ?a n (set_size q (hsize st q - n) st))\<lparr>freep := pr\<rparr>"
    have qB: "q \<in> A \<union> set hs" using qh by blast
    have lt: "n < hsize st q" using False n(2) by simp
    note sp = placed_split[OF pl qB n(1) lt bnd]
    have t: "take_block n pr q st = (?a + 16, ?t)" using False by (simp add: take_block_def Let_def)
    have "linked ?t (base # hs) base" using h by (simp add: heap_ok_def linked_set)
    moreover have "q \<noteq> base" using qh placed_base[OF pl] by blast
    moreover have "insert ?a A \<inter> set hs = {}" using sp(1) dis by blast
    moreover have "insert ?a A \<union> set hs = insert ?a (A \<union> set hs)" by blast
    ultimately have "heap_ok base (insert ?a A) hs ?t"
      using h sp prL by (simp add: heap_ok_def)
    moreover have "hsize ?t b = hsize st b" if "b \<in> A" for b using that sp(1) dis qh by auto
    ultimately show ?thesis using t sp(1) by (intro exI[of _ ?a] exI[of _ hs] exI[of _ ?t]) simp
  qed
qed

section \<open>malloc\<close>

text \<open>The walk around the ring, which visits \<open>R\<close> and then the block \<open>freep\<close>.\<close>

lemma malloc_walk:
  "linked st (pr # R) (freep st) \<Longrightarrow> freep st \<notin> set R \<Longrightarrow>
   (\<exists>us q vs. R @ [freep st] = us @ q # vs \<and> n \<le> hsize st q \<and> malloc_loop n pr (hd (R @ [freep st])) st = Some (take_block n (last (pr # us)) q st) \<and>
      linked st (pr # us) q) \<or>
   (\<forall>u \<in> set R \<union> {freep st}. \<not> n \<le> hsize st u) \<and>
     malloc_loop n pr (hd (R @ [freep st])) st =
       (case morecore n st of None \<Rightarrow> None | Some (p, st) \<Rightarrow> if p = 0 then Some (0, st) else malloc_loop n p (hptr st p) st)"
proof (induction R arbitrary: pr)
  case Nil
  show ?case
  proof (cases "n \<le> hsize st (freep st)")
    case True
    then have "malloc_loop n pr (freep st) st = Some (take_block n pr (freep st) st)" by (subst malloc_loop.simps) simp
    with True Nil show ?thesis by (intro disjI1 exI[of _ "[]"] exI[of _ "freep st"]) simp
  next
    case False
    then show ?thesis by (intro disjI2) (subst malloc_loop.simps, simp)
  qed
next
  case (Cons u R)
  show ?case
  proof (cases "n \<le> hsize st u")
    case True
    then have "malloc_loop n pr u st = Some (take_block n pr u st)" by (subst malloc_loop.simps) simp
    with True Cons.prems show ?thesis by (intro disjI1 exI[of _ "[]"] exI[of _ u] exI[of _ "R @ [freep st]"]) simp
  next
    case False
    have step: "malloc_loop n pr u st = malloc_loop n u (hd (R @ [freep st])) st"
      using False Cons.prems by (subst malloc_loop.simps) auto
    have "linked st (u # R) (freep st)" "freep st \<notin> set R" using Cons.prems by auto
    from Cons.IH[OF this] show ?thesis
    proof (elim disjE exE conjE)
      fix us q vs
      assume "R @ [freep st] = us @ q # vs" "n \<le> hsize st q"
        "malloc_loop n u (hd (R @ [freep st])) st = Some (take_block n (last (u # us)) q st)" "linked st (u # us) q"
      with step Cons.prems show ?thesis by (intro disjI1 exI[of _ "u # us"] exI[of _ q] exI[of _ vs]) simp
    next
      assume "\<forall>u \<in> set R \<union> {freep st}. \<not> n \<le> hsize st u"
        "malloc_loop n u (hd (R @ [freep st])) st =
          (case morecore n st of None \<Rightarrow> None | Some (p, st) \<Rightarrow> if p = 0 then Some (0, st) else malloc_loop n p (hptr st p) st)"
      with step False show ?thesis by (intro disjI2) simp
    qed
  qed
qed

lemma linked_last: "linked st (pr # us) q \<Longrightarrow> hptr st (last (pr # us)) = q"
  by (induction us arbitrary: pr) auto

lemma ring_neighbours:
  "linked st L base \<Longrightarrow> pr \<in> set L \<Longrightarrow> hptr st pr = q \<Longrightarrow> q \<noteq> base \<Longrightarrow> \<exists>us vs. L = us @ pr # q # vs"
proof -
  assume a: "linked st L base" "pr \<in> set L" "hptr st pr = q" "q \<noteq> base"
  obtain us ws where L: "L = us @ pr # ws" using split_list[OF a(2)] by blast
  then have "q = hd (ws @ [base])" using a(1,3) by (simp add: linked_append)
  with a(4) obtain vs where "ws = q # vs" by (cases ws) auto
  with L show ?thesis by blast
qed

text \<open>One round of the loop from \<open>freep\<close>: it takes a block, or there is none that is large enough.\<close>

lemma malloc_round:
  assumes h: "heap_ok base A hs st" and n: "0 < n"
  shows "(\<exists>a hs' st'. malloc_loop n (freep st) (hptr st (freep st)) st = Some (a + 16, st') \<and> a \<notin> A \<and>
      heap_ok base (insert a A) hs' st' \<and> hsize st' a = n \<and> (\<forall>b \<in> A. hsize st' b = hsize st b)) \<or>
    (\<forall>x \<in> set hs. \<not> n \<le> hsize st x) \<and> malloc_loop n (freep st) (hptr st (freep st)) st =
      (case morecore n st of None \<Rightarrow> None | Some (p, st) \<Rightarrow> if p = 0 then Some (0, st) else malloc_loop n p (hptr st p) st)"
proof -
  let ?f = "freep st"
  have lnk: "linked st (base # hs) base" and srt: "sorted_wrt (<) (base # hs)" and f: "?f \<in> set (base # hs)"
    using h by (simp_all only: heap_ok_def)
  obtain xs ys where L: "base # hs = xs @ ?f # ys" using split_list[OF f] by blast
  have b: "hd (xs @ [?f]) = base" using L by (cases xs) auto
  have nf: "?f \<notin> set (ys @ xs)" using srt unfolding L by (auto simp: sorted_wrt_append)
  have all: "set (ys @ xs) \<union> {?f} = set (base # hs)" unfolding L by auto
  have "linked st xs ?f" "linked st (?f # ys) base" using lnk unfolding L linked_append by simp_all
  then have "linked st ((?f # ys) @ xs) ?f" unfolding linked_append b by simp
  then have ring: "linked st (?f # ys @ xs) ?f" by simp
  have start: "hptr st ?f = hd ((ys @ xs) @ [?f])" using ring by simp
  show ?thesis using malloc_walk[OF ring nf, of n]
  proof (elim disjE exE conjE)
    fix us q vs
    assume w: "(ys @ xs) @ [?f] = us @ q # vs" "n \<le> hsize st q"
      "malloc_loop n ?f (hd ((ys @ xs) @ [?f])) st = Some (take_block n (last (?f # us)) q st)" "linked st (?f # us) q"
    have "last (?f # us) \<in> set (?f # us)" by (rule last_in_set) simp
    moreover have "set us \<subseteq> set ((ys @ xs) @ [?f])" unfolding w(1) by auto
    ultimately have "last (?f # us) \<in> set (base # hs)" unfolding all[symmetric] by auto
    moreover have "q \<noteq> base" using w(2) n h by (auto simp: heap_ok_def)
    ultimately obtain us' vs' where "base # hs = us' @ last (?f # us) # q # vs'"
      using ring_neighbours[OF lnk _ linked_last[OF w(4)]] by blast
    from take_block_ok[OF h this n w(2)] obtain a hs' st' where "take_block n (last (?f # us)) q st = (a + 16, st')" "a \<notin> A"
      "heap_ok base (insert a A) hs' st'" "hsize st' a = n" "\<forall>b \<in> A. hsize st' b = hsize st b" by blast
    moreover from this(1) w(3) start have "malloc_loop n ?f (hptr st ?f) st = Some (a + 16, st')" by (simp only:)
    ultimately show ?thesis by (intro disjI1 exI[of _ a] exI[of _ hs'] exI[of _ st'] conjI)
  next
    assume "\<forall>u \<in> set (ys @ xs) \<union> {?f}. \<not> n \<le> hsize st u"
      "malloc_loop n ?f (hd ((ys @ xs) @ [?f])) st =
        (case morecore n st of None \<Rightarrow> None | Some (p, st) \<Rightarrow> if p = 0 then Some (0, st) else malloc_loop n p (hptr st p) st)"
    then show ?thesis unfolding start all by (intro disjI2 conjI) simp_all
  qed
qed

lemma heap_ok_grants: "heap_ok base A hs (st\<lparr>grants := g\<rparr>) = heap_ok base A hs st"
proof -
  have "linked (st\<lparr>grants := g\<rparr>) (base # hs) base = linked st (base # hs) base" by (rule linked_cong) simp
  moreover have "placed base (A \<union> set hs) (st\<lparr>grants := g\<rparr>) = placed base (A \<union> set hs) st" by (rule placed_cong) simp_all
  ultimately show ?thesis by (simp only: heap_ok_def heap_bounds_def) simp
qed

text \<open>Memory obtained from the kernel is a new block in use.\<close>

lemma new_block:
  fixes g :: "bool list"
  assumes h: "heap_ok base A hs st" and n: "0 < n" "unat (brk st) + 16 * unat n \<le> unat (top st)"
  defines "t \<equiv> set_size (brk st) n (st\<lparr>brk := brk st + of_nat (16 * unat n), grants := g\<rparr>)"
  shows "heap_ok base (insert (brk st) A) hs t" "brk st \<notin> A" "\<And>b. b \<in> A \<Longrightarrow> hsize t b = hsize st b"
proof -
  let ?B = "A \<union> set hs"
  have pl: "placed base ?B st" and bnd: "heap_bounds base st" using h by (simp_all add: heap_ok_def)
  have nb: "unat (brk t) = unat (brk st) + 16 * unat n"
    using n(2) bnd unat_add_offset[of "brk st" "16 * unat n"] by (simp add: t_def heap_bounds_def)
  have out: "x \<noteq> brk st" if "x \<in> ?B" for x using placedD[OF pl that] by (auto simp: lo_def)
  then show "brk st \<notin> A" "\<And>b. b \<in> A \<Longrightarrow> hsize t b = hsize st b" by (auto simp: t_def)
  have hz: "hi t x = hi st x" if "x \<in> ?B" for x using out[OF that] by (simp add: hi_def t_def)
  have hb: "hi t (brk st) = unat (brk t)" "lo (brk st) = unat (brk st)" using nb by (simp_all add: hi_def lo_def t_def)
  have "placed base (insert (brk st) ?B) t"
    unfolding placed_def in_heap_def hsize_pos
  proof (intro conjI ballI impI)
    fix z assume z: "z \<in> insert (brk st) ?B"
    show "lo z < hi t z" "hi t z \<le> unat (brk t)" "unat base + 16 \<le> lo z"
      using placedD[OF pl, of z] z hz[of z] hb nb n(1) bnd
      by (cases "z = brk st"; simp add: heap_bounds_def unat_gt_0)+
    fix w assume w: "w \<in> insert (brk st) ?B" "z \<noteq> w"
    show "apart t z w"
      using z w placedD(3,4)[OF pl, of z] placedD(3)[OF pl, of w] hz[of z] hz[of w] hb out
      by (cases "z = brk st"; cases "w = brk st") (auto simp: apart_def)
  qed
  moreover have "linked t (base # hs) base = linked st (base # hs) base" by (rule linked_cong) (simp add: t_def)
  moreover have "base \<noteq> brk st" using bnd by (auto simp: heap_bounds_def)
  moreover have "heap_bounds base t" using bnd nb n(2) by (simp add: heap_bounds_def t_def)
  moreover have "hsize t base = hsize st base" "freep t = freep st" using \<open>base \<noteq> brk st\<close> by (simp_all add: t_def)
  moreover have "insert (brk st) A \<inter> set hs = {}" using h out by (auto simp: heap_ok_def)
  ultimately show "heap_ok base (insert (brk st) A) hs t" using h by (simp add: heap_ok_def)
qed

lemma morecore_ok:
  assumes h: "heap_ok base A hs st" and n: "16 * unat n < 2 ^ 31"
  shows "\<exists>r hs' st'. morecore n st = Some (r, st') \<and> heap_ok base A hs' st' \<and> (\<forall>b \<in> A. hsize st' b = hsize st b) \<and>
     (r \<noteq> 0 \<longrightarrow> r = freep st' \<and> (\<exists>x \<in> set hs'. n \<le> hsize st' x))"
proof -
  define nu where "nu = (if n < 4096 then 4096 else n)"
  have nu: "n \<le> nu" "0 < nu" "16 * unat nu < 2 ^ 31"
    using n by (auto simp: nu_def not_less word_le_nat_alt word_less_nat_alt unat_gt_0[symmetric])
  define k :: i32 where "k = ucast (ucast nu * 16 :: u64)"
  have "(ucast nu * 16 :: u64) = of_nat (16 * unat nu)" by simp
  then have "unat (ucast nu * 16 :: u64) = 16 * unat nu" using nu(3) unat_of_nat_u64[of "16 * unat nu"] by (simp only:) simp
  then have k: "unat k = 16 * unat nu" using nu(3) by (simp add: k_def unsigned_ucast_eq take_bit_nat_eq_self)
  then have sk: "sint k = int (16 * unat nu)" using nu(3) sint_unat_u32[of k] by simp
  then have k1: "\<not> k <s 0" by (simp add: word_sless_alt)
  have "(scast k :: u64) = word_of_int (sint k)" by (rule scast_eq)
  then have k2: "(scast k :: u64) = of_nat (16 * unat nu)" unfolding sk of_int_of_nat_eq .
  note k' = k1 k2
  show ?thesis
  proof (cases "grants st \<noteq> [] \<and> hd (grants st) \<and> unat (brk st) + unat k \<le> unat (top st)")
    case False
    then have "usbrk k st = (- 1, st\<lparr>grants := tl (grants st)\<rparr>)" using k'(1) by (auto simp: usbrk_def)
    then have "morecore n st = Some (0, st\<lparr>grants := tl (grants st)\<rparr>)"
      by (simp add: morecore_def nu_def[symmetric] k_def[symmetric])
    then show ?thesis using h by (intro exI[of _ 0] exI[of _ hs] exI) (auto simp: heap_ok_grants)
  next
    case True
    let ?s = "st\<lparr>brk := brk st + of_nat (16 * unat nu), grants := tl (grants st)\<rparr>" and ?hp = "brk st"
    have fit: "unat (brk st) + 16 * unat nu \<le> unat (top st)" using True k by simp
    have u: "usbrk k st = (?hp, ?s)" using True k' by (simp add: usbrk_def)
    note nb = new_block(1)[OF h nu(2) fit, of "tl (grants st)"] new_block(2)[OF h nu(2) fit]
      new_block(3)[OF h nu(2) fit, of _ "tl (grants st)"]
    from ufree_ok[OF nb(1), of ?hp] obtain hs' st' where f: "ufree (?hp + 16) (set_size ?hp nu ?s) = Some st'"
      "heap_ok base (insert ?hp A - {?hp}) hs' st'" "\<forall>b \<in> insert ?hp A - {?hp}. hsize st' b = hsize (set_size ?hp nu ?s) b"
      "\<exists>x \<in> set hs'. hsize (set_size ?hp nu ?s) ?hp \<le> hsize st' x" by blast
    have A: "insert ?hp A - {?hp} = A" using nb(2) by auto
    have "unat ?hp \<le> 2 ^ 35" using h by (simp add: heap_ok_def heap_bounds_def)
    then have "?hp \<noteq> - 1" by (auto simp: unsigned_minus_1_eq_mask mask_eq_exp_minus_1)
    then have "morecore n st = Some (freep st', st')"
      using u f(1) by (simp add: morecore_def nu_def[symmetric] k_def[symmetric])
    moreover have "\<exists>x \<in> set hs'. n \<le> hsize st' x" using f(4) nu(1) by (auto intro: order_trans)
    ultimately show ?thesis using f nb(3) unfolding A by (intro exI[of _ "freep st'"] exI[of _ hs'] exI[of _ st']) simp
  qed
qed

lemma malloc_loop_ok:
  assumes h: "heap_ok base A hs st" and n: "0 < n" "16 * unat n < 2 ^ 31"
  shows "\<exists>r st'. malloc_loop n (freep st) (hptr st (freep st)) st = Some (r, st') \<and> (\<forall>b \<in> A. hsize st' b = hsize st b) \<and>
     (r = 0 \<and> (\<exists>hs'. heap_ok base A hs' st') \<or>
      (\<exists>a hs'. r = a + 16 \<and> a \<notin> A \<and> heap_ok base (insert a A) hs' st' \<and> hsize st' a = n))"
  using malloc_round[OF h n(1)]
proof (elim disjE exE conjE)
  fix a hs' st'
  assume "malloc_loop n (freep st) (hptr st (freep st)) st = Some (a + 16, st')" "a \<notin> A"
    "heap_ok base (insert a A) hs' st'" "hsize st' a = n" "\<forall>b \<in> A. hsize st' b = hsize st b"
  then show ?thesis by blast
next
  assume e: "malloc_loop n (freep st) (hptr st (freep st)) st =
      (case morecore n st of None \<Rightarrow> None | Some (p, st) \<Rightarrow> if p = 0 then Some (0, st) else malloc_loop n p (hptr st p) st)"
  from morecore_ok[OF h n(2)] obtain r hs1 st1 where m: "morecore n st = Some (r, st1)" "heap_ok base A hs1 st1"
    "\<forall>b \<in> A. hsize st1 b = hsize st b" "r \<noteq> 0 \<longrightarrow> r = freep st1 \<and> (\<exists>x \<in> set hs1. n \<le> hsize st1 x)" by blast
  show ?thesis
  proof (cases "r = 0")
    case True
    with e m show ?thesis by auto
  next
    case False
    with m obtain x where x: "r = freep st1" "x \<in> set hs1" "n \<le> hsize st1 x" by blast
    then have "\<not> (\<forall>x \<in> set hs1. \<not> n \<le> hsize st1 x)" by blast
    with malloc_round[OF m(2) n(1)] obtain a hs2 st2 where
      "malloc_loop n (freep st1) (hptr st1 (freep st1)) st1 = Some (a + 16, st2)" "a \<notin> A"
      "heap_ok base (insert a A) hs2 st2" "hsize st2 a = n" "\<forall>b \<in> A. hsize st2 b = hsize st1 b" by blast
    moreover have "malloc_loop n (freep st) (hptr st (freep st)) st = malloc_loop n (freep st1) (hptr st1 (freep st1)) st1"
      using e m(1) False x(1) by simp
    ultimately show ?thesis using m(3) by (intro exI[of _ "a + 16"] exI[of _ st2] conjI disjI2 exI[of _ a] exI[of _ hs2]) simp_all
  qed
qed

text \<open>The state of the allocator: before its first use, or with a division of the memory.\<close>

definition heap_inv :: "u64 \<Rightarrow> u64 set \<Rightarrow> uheap \<Rightarrow> bool" where
  "heap_inv base A st \<longleftrightarrow> heap_bounds base st \<and> (if freep st = 0 then A = {} else \<exists>hs. heap_ok base A hs st)"

lemma heap_ok_freep: "heap_ok base A hs st \<Longrightarrow> freep st \<noteq> 0"
  using placedD(2)[of base "A \<union> set hs" st "freep st"] by (auto simp: heap_ok_def heap_bounds_def lo_def)

lemma heap_ok_behind:
  assumes "heap_ok base A hs st" and "x \<in> A"
  shows "x + 16 \<noteq> 0"
proof -
  have "in_heap base st x" "unat (brk st) \<le> 2 ^ 35" using assms by (auto simp: heap_ok_def placed_def heap_bounds_def)
  then have "unat x \<le> 2 ^ 35" by (simp add: in_heap_def lo_def hi_def)
  then have "unat (x + 16) = unat x + 16" by (subst unat_add_lem[THEN iffD1]) simp_all
  then show ?thesis by auto
qed

lemma heap_ok_inv: "heap_ok base A hs st \<Longrightarrow> heap_inv base A st"
  using heap_ok_freep by (auto simp: heap_inv_def heap_ok_def)

lemma units_wanted: "unat (ucast ((ucast (w :: u32) + 16 - 1) div 16 + 1 :: u64) :: u32) = (unat w + 15) div 16 + 1"
proof -
  have w: "unat w < 2 ^ 32" using unsigned_less[of w] by simp
  have "(ucast w + 16 - 1) div 16 + 1 = (of_nat ((unat w + 15) div 16 + 1) :: u64)"
  proof (rule word_unat_eq_iff[THEN iffD2])
    have "(ucast w + 16 - 1 :: u64) = of_nat (unat w + 15)" by simp
    moreover have "unat (of_nat (unat w + 15) :: u64) = unat w + 15" using w by (intro unat_of_nat_u64) simp
    ultimately have "unat ((ucast w + 16 - 1 :: u64) div 16) = (unat w + 15) div 16" by (simp only: unat_div_distrib) simp
    then have "unat ((ucast w + 16 - 1 :: u64) div 16 + 1) = (unat w + 15) div 16 + 1" using w
      by (subst unat_add_lem[THEN iffD1]) simp_all
    moreover have "unat (of_nat ((unat w + 15) div 16 + 1) :: u64) = (unat w + 15) div 16 + 1" using w by (intro unat_of_nat_u64) simp
    ultimately show "unat ((ucast w + 16 - 1) div 16 + 1 :: u64) = unat (of_nat ((unat w + 15) div 16 + 1) :: u64)" by simp
  qed
  moreover have "unat (ucast (of_nat ((unat w + 15) div 16 + 1) :: u64) :: u32) = (unat w + 15) div 16 + 1"
    using w by (simp add: unsigned_ucast_eq unsigned_of_nat take_bit_nat_eq_self del: of_nat_add of_nat_Suc)
  ultimately show ?thesis by (simp only:)
qed

text \<open>The first call makes the ring of the static header alone.\<close>

definition started :: "u64 \<Rightarrow> uheap \<Rightarrow> uheap" where
  "started base st = (if freep st = 0 then set_size base 0 (set_ptr base base (st\<lparr>freep := base\<rparr>)) else st)"

lemma started_ok:
  assumes "heap_inv base A st"
  shows "\<exists>hs. heap_ok base A hs (started base st)" and "b \<in> A \<Longrightarrow> hsize (started base st) b = hsize st b"
proof -
  show "\<exists>hs. heap_ok base A hs (started base st)"
  proof (cases "freep st = 0")
    case True
    then have "heap_ok base A [] (started base st)"
      using assms by (auto simp: started_def heap_inv_def heap_ok_def placed_def heap_bounds_def set_ptr_def set_size_def)
    then show ?thesis by blast
  next
    case False
    then show ?thesis using assms by (auto simp: started_def heap_inv_def)
  qed
  show "hsize (started base st) b = hsize st b" if "b \<in> A"
    using that assms by (auto simp: started_def heap_inv_def split: if_splits)
qed

lemma malloc_started:
  "malloc base nbytes st = malloc_loop (ucast ((ucast nbytes + 16 - 1) div 16 + 1 :: u64))
     (freep (started base st)) (hptr (started base st) (freep (started base st))) (started base st)"
  by (simp add: malloc_def Let_def started_def)

text \<open>
  C14 (functional): \<^verbatim>\<open>malloc\<close> of less than 2 GB ends. It returns null and leaves the blocks in use as they are, or it
  returns the address behind the header of a new block that overlaps no block in use and no free block, lies inside
  the memory of the process, and has room for the requested bytes; all other blocks in use keep their place and size.\<close>

theorem malloc_correct:
  assumes "heap_inv base A st" and "unat nbytes + 31 < 2 ^ 31"
  shows "\<exists>r st'. malloc base nbytes st = Some (r, st') \<and> (\<forall>b \<in> A. hsize st' b = hsize st b) \<and>
     (r = 0 \<and> heap_inv base A st' \<or>
      (\<exists>a. r = a + 16 \<and> a \<notin> A \<and> heap_inv base (insert a A) st' \<and> unat nbytes + 16 \<le> 16 * unat (hsize st' a)))"
proof -
  define n :: u32 where "n = ucast ((ucast nbytes + 16 - 1) div 16 + 1 :: u64)"
  have un: "unat n = (unat nbytes + 15) div 16 + 1" unfolding n_def by (rule units_wanted)
  obtain hs where h: "heap_ok base A hs (started base st)" using started_ok(1)[OF assms(1)] by blast
  have pos: "0 < n" "16 * unat n < 2 ^ 31" using un assms(2) by (simp_all add: word_less_nat_alt)
  from malloc_loop_ok[OF h pos] obtain r st' where m: "malloc base nbytes st = Some (r, st')"
    "\<forall>b \<in> A. hsize st' b = hsize (started base st) b"
    "r = 0 \<and> (\<exists>hs'. heap_ok base A hs' st') \<or> (\<exists>a hs'. r = a + 16 \<and> a \<notin> A \<and> heap_ok base (insert a A) hs' st' \<and> hsize st' a = n)"
    unfolding malloc_started n_def[symmetric] by blast
  have keep: "\<forall>b \<in> A. hsize st' b = hsize st b" using m(2) started_ok(2)[OF assms(1)] by simp
  have room: "unat nbytes + 16 \<le> 16 * unat n" unfolding un by simp
  from m(3) show ?thesis
  proof (elim disjE exE conjE)
    fix hs' assume "r = 0" "heap_ok base A hs' st'"
    with m(1) keep show ?thesis using heap_ok_inv by blast
  next
    fix a hs' assume "r = a + 16" "a \<notin> A" "heap_ok base (insert a A) hs' st'" "hsize st' a = n"
    with m(1) keep room show ?thesis using heap_ok_inv by blast
  qed
qed

text \<open>
  C18 (roundtrip): \<^verbatim>\<open>free\<close> of a block in use ends, takes this block out of use and leaves all others as they are; the
  memory stays divided into blocks that do not overlap, and the space can be had again: a \<^verbatim>\<open>malloc\<close> of at most the size
  of the freed block that follows returns a block, whatever \<^verbatim>\<open>sbrk\<close> would answer.\<close>

theorem free_gives_back:
  assumes "heap_inv base A st" and "a \<in> A"
  shows "\<exists>st'. ufree (a + 16) st = Some st' \<and> heap_inv base (A - {a}) st' \<and> (\<forall>b \<in> A - {a}. hsize st' b = hsize st b) \<and>
     (\<forall>nbytes. (unat nbytes + 15) div 16 + 1 \<le> unat (hsize st a) \<longrightarrow> (\<exists>r st''. malloc base nbytes st' = Some (r, st'') \<and> r \<noteq> 0))"
proof -
  obtain hs where "heap_ok base A hs st" using assms by (auto simp: heap_inv_def split: if_splits)
  from ufree_ok[OF this assms(2)] obtain hs' st' x where
    f: "ufree (a + 16) st = Some st'" "heap_ok base (A - {a}) hs' st'" "\<forall>b \<in> A - {a}. hsize st' b = hsize st b"
    "x \<in> set hs'" "hsize st a \<le> hsize st' x" by blast
  have "\<exists>r st''. malloc base nbytes st' = Some (r, st'') \<and> r \<noteq> 0" if le: "(unat nbytes + 15) div 16 + 1 \<le> unat (hsize st a)" for nbytes
  proof -
    define n :: u32 where "n = ucast ((ucast nbytes + 16 - 1) div 16 + 1 :: u64)"
    have un: "unat n = (unat nbytes + 15) div 16 + 1" unfolding n_def by (rule units_wanted)
    have s: "started base st' = st'" using heap_ok_freep[OF f(2)] by (simp add: started_def)
    have "0 < n" "n \<le> hsize st' x" using un le f(5) by (simp_all add: word_less_nat_alt word_le_nat_alt)
    with malloc_round[OF f(2)] f(4) obtain b hs2 st2 where b: "malloc_loop n (freep st') (hptr st' (freep st')) st' = Some (b + 16, st2)"
      "heap_ok base (insert b (A - {a})) hs2 st2" by blast
    have "b + 16 \<noteq> 0" using b(2) by (rule heap_ok_behind) simp
    with b(1) show ?thesis unfolding malloc_started s n_def[symmetric] by blast
  qed
  with f(1,3) heap_ok_inv[OF f(2)] show ?thesis by blast
qed

text \<open>
  C35 (error): the size of a large request is lost on the way to \<^verbatim>\<open>sbrk\<close>: the first \<^verbatim>\<open>malloc(0xFFFFFFFF)\<close> of a program takes
  16 bytes more from the kernel, where 4 GB are asked for, and yet returns a block.\<close>

theorem malloc_huge_returns_16_bytes:
  assumes "heap_bounds base st" and "freep st = 0" and "grants st = True # gs" and "unat (brk st) + 16 \<le> unat (top st)"
  shows "\<exists>st'. malloc base 0xFFFFFFFF st = Some (brk st + 16, st') \<and> hsize st' (brk st) = 0x10000001 \<and>
     unat (brk st') = unat (brk st) + 16"
proof -
  define b where "b = brk st"
  have ba: "base < b" "b \<noteq> base" and sm: "unat b \<le> 2 ^ 35"
    using assms(1) by (auto simp: heap_bounds_def b_def word_less_nat_alt)
  moreover have "b \<noteq> - 1" using sm by (auto simp: unsigned_minus_1_eq_mask mask_eq_exp_minus_1)
  ultimately have lt: "base < b" "b \<noteq> base" "b \<noteq> - 1" by simp_all
  have far: "units_after b 0x10000001 \<noteq> base"
  proof
    have "unat (b + 0x100000010) = unat b + 0x100000010" using sm by (subst unat_add_lem[THEN iffD1]) simp_all
    moreover assume "units_after b 0x10000001 = base"
    ultimately show False using lt by (simp add: units_after_def word_less_nat_alt)
  qed
  define t where "t = started base st"
  have t: "freep t = base" "hptr t base = base" "hsize t base = 0" "brk t = b" "top t = top st" "grants t = True # gs"
    using assms by (simp_all add: t_def started_def b_def set_ptr_def set_size_def)
  define u where "u = set_size b 0x10000001 (t\<lparr>brk := b + 16, grants := gs\<rparr>)"
  have sb: "usbrk 16 t = (b, t\<lparr>brk := b + 16, grants := gs\<rparr>)" using assms(4) t by (simp add: usbrk_def b_def word_sless_alt)
  have u: "hptr u base = base" "hsize u base = 0" "hsize u b = 0x10000001" "freep u = base" "brk u = b + 16"
    using t lt by (simp_all add: u_def set_size_def)
  have "free_search b base u = Some base" using lt u by (subst free_search.simps) simp
  then have "ufree (b + 16) u = Some ((set_ptr base b (set_ptr b base u))\<lparr>freep := base\<rparr>)"
    using u far lt by (simp add: ufree_def join_next_def join_prev_def units_after_def set_ptr_def)
  moreover define v where "v = (set_ptr base b (set_ptr b base u))\<lparr>freep := base\<rparr>"
  moreover have lost: "(0x100000010 :: i32) = 16" by simp
  ultimately have m: "morecore 0x10000001 t = Some (base, v)" using sb lt by (simp add: morecore_def u_def v_def lost)
  have v: "hptr v base = b" "hptr v b = base" "hsize v b = 0x10000001" "brk v = b + 16" using lt u by (simp_all add: v_def set_ptr_def)
  have "malloc_loop 0x10000001 base b v = Some (b + 16, set_ptr base base v\<lparr>freep := base\<rparr>)"
    using v by (subst malloc_loop.simps) (simp add: take_block_def)
  then have "malloc base 0xFFFFFFFF st = Some (b + 16, set_ptr base base v\<lparr>freep := base\<rparr>)"
    using t m v assms(1) unfolding malloc_started t_def[symmetric] by (subst malloc_loop.simps) (simp add: heap_bounds_def)
  moreover have "unat (b + 16) = unat b + 16" using sm by (subst unat_add_lem[THEN iffD1]) simp_all
  ultimately show ?thesis using v by (simp add: b_def set_ptr_def)
qed

section \<open>Instances\<close>

definition demo_heap :: uheap where
  "demo_heap = \<lparr>hptr = (\<lambda>_. 0), hsize = (\<lambda>_. 0), freep = 0, brk = 4096, top = 0x8000000, grants = [True]\<rparr>"

text \<open>One block of 4 units in use, and the rest of a page free.\<close>

definition used_heap :: uheap where
  "used_heap = \<lparr>hptr = (\<lambda>_. 0)(16 := 4096, 4096 := 16), hsize = (\<lambda>_. 0)(4096 := 252, 8128 := 4), freep = 16, brk = 8192,
     top = 0x8000000, grants = []\<rparr>"

lemma demo_heap_inv: "heap_inv 16 {} demo_heap"
  by (simp add: heap_inv_def heap_bounds_def demo_heap_def)

lemma used_heap_inv: "heap_inv 16 {8128} used_heap"
proof -
  have "heap_ok 16 {8128} [4096] used_heap"
    by (simp add: heap_ok_def used_heap_def placed_def in_heap_def apart_def lo_def hi_def heap_bounds_def)
  then show ?thesis by (rule heap_ok_inv)
qed

theorem malloc_correct_witness:
  "\<exists>r st'. malloc 16 100 demo_heap = Some (r, st') \<and> (r = 0 \<and> heap_inv 16 {} st' \<or>
     (\<exists>a. r = a + 16 \<and> heap_inv 16 {a} st' \<and> 116 \<le> 16 * unat (hsize st' a)))"
  using malloc_correct[OF demo_heap_inv, of 100] by auto

theorem free_gives_back_witness:
  "\<exists>st'. ufree 8144 used_heap = Some st' \<and> heap_inv 16 {} st' \<and> (\<exists>r st''. malloc 16 40 st' = Some (r, st'') \<and> r \<noteq> 0)"
proof -
  from free_gives_back[OF used_heap_inv, of 8128] obtain st' where s: "ufree (8128 + 16) used_heap = Some st'" "heap_inv 16 ({8128} - {8128}) st'"
    "\<forall>nbytes. (unat nbytes + 15) div 16 + 1 \<le> unat (hsize used_heap 8128) \<longrightarrow> (\<exists>r st''. malloc 16 nbytes st' = Some (r, st'') \<and> r \<noteq> 0)"
    by blast
  then show ?thesis using s(3)[rule_format, of 40] by (simp add: used_heap_def)
qed

theorem malloc_huge_returns_16_bytes_witness:
  "\<exists>st'. malloc 16 0xFFFFFFFF demo_heap = Some (4112, st') \<and> hsize st' 4096 = 0x10000001 \<and> unat (brk st') = 4112"
  using malloc_huge_returns_16_bytes[of 16 demo_heap "[]"] by (simp add: heap_bounds_def demo_heap_def)

end
