(* ===== verification/Shell.thy ===== *)
theory Shell
  imports User_Lib
begin

text \<open>
  The shell, \<^verbatim>\<open>user/sh.c\<close>: the parser of command lines, what the processes that run a command do, and the loop over the
  input. A pointer into the line is the rest of the line from there on; \<^verbatim>\<open>es\<close> is \<open>[]\<close>, so reading the terminating zero is
  the case of the empty list. A call of \<^verbatim>\<open>panic\<close> is \<open>Fail\<close> with its message. The recursion of the parser takes fuel;
  \<open>parsecmd\<close> gives it enough for every line.
\<close>

section \<open>Commands\<close>

text \<open>The five structures. A word is its start and its end in the line until \<^verbatim>\<open>nulterminate\<close>, a string afterwards.\<close>

datatype 'a cmd =
    EXEC "'a list"
  | REDIR "'a cmd" 'a i32 i32
  | PIPE "'a cmd" "'a cmd"
  | LIST "'a cmd" "'a cmd"
  | BACK "'a cmd"

type_synonym span = "u8 list \<times> u8 list"

abbreviation (input) MAXARGS :: nat where "MAXARGS \<equiv> 10"

text \<open>Modes of \<^verbatim>\<open>open\<close>: \<^verbatim>\<open>O_RDONLY\<close>, \<^verbatim>\<open>O_WRONLY | O_CREATE | O_TRUNC\<close>, \<^verbatim>\<open>O_WRONLY | O_CREATE\<close>.\<close>

abbreviation (input) M_READ :: i32 where "M_READ \<equiv> 0"
abbreviation (input) M_WRITE :: i32 where "M_WRITE \<equiv> 0x601"
abbreviation (input) M_APPEND :: i32 where "M_APPEND \<equiv> 0x201"

text \<open>The outcome of a parse: a value, a panic, or no fuel left.\<close>

datatype 'a parsed = Got 'a | Fail string | Starved

fun pbind :: "'a parsed \<Rightarrow> ('a \<Rightarrow> 'b parsed) \<Rightarrow> 'b parsed" where
  "pbind (Got x) f = f x"
| "pbind (Fail e) f = Fail e"
| "pbind Starved f = Starved"

section \<open>Tokens\<close>

definition whitespace :: "u8 list" where
  "whitespace = [32, 9, 13, 10, 11]"

definition symbols :: "u8 list" where
  "symbols = bytes_of ''<|>&;()''"

definition skip_white :: "u8 list \<Rightarrow> u8 list" where
  "skip_white s = dropWhile (\<lambda>c. c \<in> set whitespace) s"

definition word_char :: "u8 \<Rightarrow> bool" where
  "word_char c \<longleftrightarrow> c \<notin> set whitespace \<and> c \<notin> set symbols"

text \<open>The token, its start and end, and where the next one starts.\<close>

definition gettoken :: "u8 list \<Rightarrow> u8 \<times> u8 list \<times> u8 list \<times> u8 list" where
  "gettoken ps =
     (let q = skip_white ps;
          (ret, eq) =
            (case q of
               [] \<Rightarrow> (0, [])
             | c # s \<Rightarrow>
                 if c \<in> set (bytes_of ''|();&<'') then (c, s)
                 else if c = of_char CHR ''>''
                 then (if s \<noteq> [] \<and> hd s = of_char CHR ''>'' then (of_char CHR ''+'', tl s) else (c, s))
                 else (of_char CHR ''a'', dropWhile word_char q))
      in (ret, q, eq, skip_white eq))"

definition peek :: "string \<Rightarrow> u8 list \<Rightarrow> bool \<times> u8 list" where
  "peek toks ps = (let s = skip_white ps in (s \<noteq> [] \<and> hd s \<in> set (bytes_of toks), s))"

lemma skip_white_length: "length (skip_white s) \<le> length s"
  by (simp add: skip_white_def length_dropWhile_le)

lemma skip_white_idem [simp]: "skip_white (skip_white s) = skip_white s" "skip_white [] = []"
  by (induction s) (auto simp: skip_white_def)

lemma skip_white_Cons: "skip_white s = c # r \<Longrightarrow> c \<notin> set whitespace"
  by (induction s) (auto simp: skip_white_def split: if_splits)

lemma not_symbol: "c \<notin> set (bytes_of ''|();&<'') \<Longrightarrow> c \<noteq> of_char CHR ''>'' \<Longrightarrow> c \<notin> set symbols"
  by (auto simp: symbols_def bytes_of_def)

lemma gettoken_length:
  assumes "gettoken ps = (t, q, eq, s)"
  shows "length s \<le> length ps" and "skip_white ps \<noteq> [] \<Longrightarrow> length s < length ps"
proof -
  have "length s \<le> length (skip_white ps) \<and> (skip_white ps \<noteq> [] \<longrightarrow> length s < length (skip_white ps))"
  proof (cases "skip_white ps")
    case (Cons c r)
    have "length (dropWhile word_char (c # r)) \<le> length r" if "c \<notin> set symbols"
      using that skip_white_Cons[OF Cons] length_dropWhile_le[of word_char r] by (simp add: word_char_def)
    then have "length eq \<le> length r"
      using assms Cons not_symbol[of c] by (auto simp: gettoken_def Let_def split: if_splits)
    moreover have "s = skip_white eq" using assms by (simp add: gettoken_def Let_def split: prod.splits)
    ultimately show ?thesis using skip_white_length[of eq] Cons by simp
  qed (use assms in \<open>simp add: gettoken_def\<close>)
  then show "length s \<le> length ps" "skip_white ps \<noteq> [] \<Longrightarrow> length s < length ps"
    using skip_white_length[of ps] by auto
qed

lemma peek_length:
  assumes "peek toks ps = (b, s)"
  shows "length s \<le> length ps" and "b \<Longrightarrow> skip_white s \<noteq> []" and "s = skip_white ps"
  using assms skip_white_length[of ps] by (auto simp: peek_def Let_def)

lemma redir_shorter:
  "(True, s) = peek toks ps \<Longrightarrow> (t1, q1, eq1, s1) = gettoken s \<Longrightarrow> (t2, q2, eq2, s2) = gettoken s1 \<Longrightarrow> length s2 < length ps"
  using peek_length[of toks ps True s] gettoken_length[of s t1 q1 eq1 s1] gettoken_length(1)[of s1 t2 q2 eq2 s2] by simp

section \<open>The parser\<close>

text \<open>A call of \<^verbatim>\<open>gettoken\<close> without \<^verbatim>\<open>q\<close> and \<^verbatim>\<open>eq\<close>.\<close>

definition next_token :: "u8 list \<Rightarrow> u8 list" where
  "next_token ps = (case gettoken ps of (_, _, _, s) \<Rightarrow> s)"

lemma peek_next_shorter: "(True, s) = peek toks ps \<Longrightarrow> length (next_token s) < length ps"
  using peek_length[of toks ps True s] gettoken_length(2)[of s] by (auto simp: next_token_def split: prod.splits)

text \<open>The \<^verbatim>\<open>switch\<close> on the kind of redirection.\<close>

definition redir_of :: "u8 \<Rightarrow> 'a cmd \<Rightarrow> 'a \<Rightarrow> 'a cmd" where
  "redir_of tok cmd w =
     (if tok = of_char CHR ''<'' then REDIR cmd w M_READ 0
      else if tok = of_char CHR ''>'' then REDIR cmd w M_WRITE 1
      else if tok = of_char CHR ''+'' then REDIR cmd w M_APPEND 1
      else cmd)"

function parseredirs :: "span cmd \<Rightarrow> u8 list \<Rightarrow> (span cmd \<times> u8 list) parsed" where
  "parseredirs cmd ps =
     (case peek ''<>'' ps of (b, s) \<Rightarrow>
        if \<not> b then Got (cmd, s)
        else case gettoken s of (tok, _, _, s) \<Rightarrow>
             case gettoken s of (t, q, eq, s) \<Rightarrow>
               if t \<noteq> of_char CHR ''a'' then Fail ''missing file for redirection''
               else parseredirs (redir_of tok cmd (q, eq)) s)"
  by pat_completeness auto
termination
  by (relation "measure (\<lambda>(cmd, ps). length ps)") (auto intro: redir_shorter)

declare parseredirs.simps [simp del]

text \<open>\<^verbatim>\<open>cmd\<close> points to the \<^verbatim>\<open>EXEC\<close> at the bottom of the redirections that \<^verbatim>\<open>ret\<close> has collected.\<close>

primrec add_arg :: "span \<Rightarrow> span cmd \<Rightarrow> span cmd" where
  "add_arg w (EXEC argv) = EXEC (argv @ [w])"
| "add_arg w (REDIR c file mode fd) = REDIR (add_arg w c) file mode fd"
| "add_arg w (PIPE l r) = PIPE l r"
| "add_arg w (LIST l r) = LIST l r"
| "add_arg w (BACK c) = BACK c"

text \<open>The loop of \<^verbatim>\<open>parseexec\<close>.\<close>

function parse_args :: "nat \<Rightarrow> span cmd \<Rightarrow> u8 list \<Rightarrow> (span cmd \<times> u8 list) parsed" where
  "parse_args argc ret ps =
     (case peek ''|)&;'' ps of (b, s) \<Rightarrow>
        if b then Got (ret, s)
        else case gettoken s of (tok, q, eq, s') \<Rightarrow>
               if tok = 0 then Got (ret, s')
               else if tok \<noteq> of_char CHR ''a'' then Fail ''syntax''
               else if MAXARGS \<le> argc + 1 then Fail ''too many args''
               else pbind (parseredirs (add_arg (q, eq) ret) s') (\<lambda>(ret, s''). parse_args (argc + 1) ret s''))"
  by pat_completeness auto
termination
  by (relation "measure (\<lambda>(argc, ret, ps). MAXARGS - argc)") auto

declare parse_args.simps [simp del]

text \<open>The loop over \<^verbatim>\<open>&\<close> in \<^verbatim>\<open>parseline\<close>.\<close>

function parse_backs :: "span cmd \<Rightarrow> u8 list \<Rightarrow> span cmd \<times> u8 list" where
  "parse_backs cmd ps =
     (case peek ''&'' ps of (b, s) \<Rightarrow> if b then parse_backs (BACK cmd) (next_token s) else (cmd, s))"
  by pat_completeness auto
termination
  by (relation "measure (\<lambda>(cmd, ps). length ps)") (auto intro: peek_next_shorter)

declare parse_backs.simps [simp del]

fun parseline :: "nat \<Rightarrow> u8 list \<Rightarrow> (span cmd \<times> u8 list) parsed"
  and parsepipe :: "nat \<Rightarrow> u8 list \<Rightarrow> (span cmd \<times> u8 list) parsed"
  and parseexec :: "nat \<Rightarrow> u8 list \<Rightarrow> (span cmd \<times> u8 list) parsed"
  and parseblock :: "nat \<Rightarrow> u8 list \<Rightarrow> (span cmd \<times> u8 list) parsed" where
  "parseline 0 ps = Starved"
| "parseline (Suc n) ps =
     pbind (parsepipe n ps) (\<lambda>(cmd, s).
       case parse_backs cmd s of (cmd, s) \<Rightarrow>
       case peek '';'' s of (b, s) \<Rightarrow>
         if b then pbind (parseline n (next_token s)) (\<lambda>(right, s). Got (LIST cmd right, s))
         else Got (cmd, s))"
| "parsepipe 0 ps = Starved"
| "parsepipe (Suc n) ps =
     pbind (parseexec n ps) (\<lambda>(cmd, s).
       case peek ''|'' s of (b, s) \<Rightarrow>
         if b then pbind (parsepipe n (next_token s)) (\<lambda>(right, s). Got (PIPE cmd right, s))
         else Got (cmd, s))"
| "parseexec 0 ps = Starved"
| "parseexec (Suc n) ps =
     (case peek ''('' ps of (b, s) \<Rightarrow>
        if b then parseblock n s
        else pbind (parseredirs (EXEC []) s) (\<lambda>(ret, s). parse_args 0 ret s))"
| "parseblock 0 ps = Starved"
| "parseblock (Suc n) ps =
     (case peek ''('' ps of (b, s) \<Rightarrow>
        if \<not> b then Fail ''parseblock''
        else pbind (parseline n (next_token s)) (\<lambda>(cmd, s).
             case peek '')'' s of (b, s) \<Rightarrow>
               if \<not> b then Fail ''syntax - missing )''
               else parseredirs cmd (next_token s)))"

text \<open>A zero byte is stored at the end of every word. No word contains one and no word continues over the end of
  another, so the string at the start of the word is then the word.\<close>

definition word_at :: "span \<Rightarrow> u8 list" where
  "word_at w = take (length (fst w) - length (snd w)) (fst w)"

primrec nulterminate :: "span cmd \<Rightarrow> u8 list cmd" where
  "nulterminate (EXEC argv) = EXEC (map word_at argv)"
| "nulterminate (REDIR c file mode fd) = REDIR (nulterminate c) (word_at file) mode fd"
| "nulterminate (PIPE l r) = PIPE (nulterminate l) (nulterminate r)"
| "nulterminate (LIST l r) = LIST (nulterminate l) (nulterminate r)"
| "nulterminate (BACK c) = BACK (nulterminate c)"

definition parsecmd :: "u8 list \<Rightarrow> u8 list cmd parsed" where
  "parsecmd s =
     pbind (parseline (4 * length s + 4) s) (\<lambda>(cmd, s).
       case peek [] s of (_, s) \<Rightarrow> if s \<noteq> [] then Fail ''syntax'' else Got (nulterminate cmd))"

section \<open>Running commands\<close>

text \<open>What a process does: its system calls in order. A call that can fail has a continuation for each outcome; \<^verbatim>\<open>exec\<close>
  returns only when it fails. \<open>Fork\<close> has the child, the parent and the failure.\<close>

datatype io =
    Exit i32
  | Exec "u8 list list" io
  | Close i32 io
  | Dup i32 io
  | Open "u8 list" i32 io io
  | MakePipe "i32 \<Rightarrow> i32 \<Rightarrow> io" io
  | Fork io io io
  | Wait io
  | Print i32 "u8 list" io

definition panic :: "string \<Rightarrow> io" where
  "panic msg = Print 2 (bytes_of msg @ [10]) (Exit 1)"

definition fork1 :: "io \<Rightarrow> io \<Rightarrow> io" where
  "fork1 child parent = Fork child parent (panic ''fork'')"

primrec runcmd :: "u8 list cmd \<Rightarrow> io" where
  "runcmd (EXEC argv) =
     (if argv = [] then Exit 1
      else Exec argv (Print 2 (bytes_of ''exec '' @ hd argv @ bytes_of '' failed'' @ [10]) (Exit 0)))"
| "runcmd (REDIR c file mode fd) =
     Close fd (Open file mode (runcmd c)
       (Print 2 (bytes_of ''open '' @ file @ bytes_of '' failed'' @ [10]) (Exit 1)))"
| "runcmd (LIST l r) = fork1 (runcmd l) (Wait (runcmd r))"
| "runcmd (PIPE l r) =
     MakePipe (\<lambda>p0 p1.
       fork1 (Close 1 (Dup p1 (Close p0 (Close p1 (runcmd l)))))
         (fork1 (Close 0 (Dup p0 (Close p0 (Close p1 (runcmd r)))))
            (Close p0 (Close p1 (Wait (Wait (Exit 0)))))))
       (panic ''pipe'')"
| "runcmd (BACK c) = fork1 (runcmd c) (Exit 0)"

section \<open>The loop over the input\<close>

text \<open>\<^verbatim>\<open>getcmd\<close>: the line without its zero byte, or \<open>None\<close> at the end of the input. The buffer has 100 bytes.\<close>

definition getcmd :: "source \<Rightarrow> u8 list option \<times> source" where
  "getcmd src = (case gets 100 src of (buf, src) \<Rightarrow>
     (let line = takeWhile (\<lambda>c. c \<noteq> 0) buf in if hd buf = 0 then None else Some line, src))"

text \<open>The descriptors that successive calls of \<^verbatim>\<open>open\<close> on the console return: those that stay open, and the one that is closed
  again.\<close>

fun open_consoles :: "i32 list \<Rightarrow> i32 list \<times> i32 option" where
  "open_consoles [] = ([], None)"
| "open_consoles (fd # fds) =
     (if fd <s 0 then ([], None)
      else if 3 \<le>s fd then ([], Some fd)
      else case open_consoles fds of (kept, closed) \<Rightarrow> (fd # kept, closed))"

text \<open>What the shell does with a line: nothing, change the directory itself, or run it in a child and wait.\<close>

datatype line_act = Blank | Chdir "u8 list" | Run "u8 list"

definition line_action :: "u8 list \<Rightarrow> line_act" where
  "line_action buf =
     (let cmd = dropWhile (\<lambda>c. c = 32 \<or> c = 9) buf
      in if cmd \<noteq> [] \<and> hd cmd = 10 then Blank
         else if take 3 cmd = bytes_of ''cd '' then Chdir (drop 3 (butlast cmd))
         else Run cmd)"

lemma read_one: "read_some (Suc 0) (ks, b # bs) = ([b], tl ks, bs)" "read_some (Suc 0) (ks, []) = ([], tl ks, [])"
  by (simp_all add: read_some_def Let_def)

lemma gets_loop_length: "length (snd (snd (gets_loop i mx src))) \<le> length (snd src)"
proof (induction i mx src rule: gets_loop.induct)
  case (1 i mx src)
  obtain ks bs where "src = (ks, bs)" by (cases src)
  with 1 show ?case by (subst gets_loop.simps, cases bs) (auto simp: read_one split: prod.splits)
qed

lemma gets_consumes: "gets 100 src = (buf, src') \<Longrightarrow> hd buf \<noteq> 0 \<Longrightarrow> length (snd src') < length (snd src)"
proof -
  assume g: "gets 100 src = (buf, src')" "hd buf \<noteq> 0"
  obtain ks bs where src: "src = (ks, bs)" by (cases src)
  show ?thesis
  proof (cases bs)
    case (Cons b bs')
    with g src gets_loop_length[of "Suc 0" 100 "(tl ks, bs')"] show ?thesis
      by (auto simp: gets_def gets_loop.simps[of 0] read_one split: if_splits prod.splits)
  qed (use g src in \<open>auto simp: gets_def gets_loop.simps[of 0] read_one\<close>)
qed

function main_loop :: "source \<Rightarrow> line_act list" where
  "main_loop src = (case getcmd src of (None, _) \<Rightarrow> [] | (Some buf, src') \<Rightarrow> line_action buf # main_loop src')"
  by pat_completeness auto
termination
  by (relation "measure (\<lambda>src. length (snd src))")
     (auto simp: getcmd_def Let_def split: prod.splits if_splits dest: gets_consumes)

declare main_loop.simps [simp del]

section \<open>The parser ends\<close>

text \<open>The parse is over: it does not starve, and no more than \<open>ps\<close> is left.\<close>

definition ends :: "u8 list \<Rightarrow> ('a \<times> u8 list) parsed \<Rightarrow> bool" where
  "ends ps r \<longleftrightarrow> (case r of Got (_, s) \<Rightarrow> length s \<le> length ps | Fail _ \<Rightarrow> True | Starved \<Rightarrow> False)"

lemma ends_simps [simp]: "ends ps (Got (x, s)) \<longleftrightarrow> length s \<le> length ps" "ends ps (Fail e)" "\<not> ends ps Starved"
  by (simp_all add: ends_def)

lemma ends_bind:
  "ends qs r \<Longrightarrow> (\<And>x s. r = Got (x, s) \<Longrightarrow> length s \<le> length qs \<Longrightarrow> ends ps (f (x, s))) \<Longrightarrow> ends ps (pbind r f)"
  by (cases r) (auto simp: ends_def)

lemma ends_mono: "ends qs r \<Longrightarrow> length qs \<le> length ps \<Longrightarrow> ends ps r"
  by (auto simp: ends_def split: parsed.splits)

lemma peek_fst_snd: "peek toks ps = (fst (peek toks ps), skip_white ps)"
  by (simp add: peek_def Let_def)

lemma peek_case: "case_prod f (peek toks s) = f (fst (peek toks s)) (skip_white s)"
  by (simp add: peek_def Let_def)

lemma next_token_length: "length (next_token s) \<le> length s" "skip_white s \<noteq> [] \<Longrightarrow> length (next_token s) < length s"
  using gettoken_length[of s] by (auto simp: next_token_def split: prod.splits)

lemma peek_next: "fst (peek toks ps) \<Longrightarrow> length (next_token (skip_white ps)) < length ps"
  using peek_next_shorter[of "skip_white ps" toks ps] peek_fst_snd[of toks ps] by simp

lemma parseredirs_stop: "\<not> fst (peek ''<>'' ps) \<Longrightarrow> parseredirs cmd ps = Got (cmd, skip_white ps)"
  by (subst parseredirs.simps) (simp add: peek_case)

lemma parseredirs_go:
  "fst (peek ''<>'' ps) \<Longrightarrow> gettoken (skip_white ps) = (t1, q1, e1, s1) \<Longrightarrow> gettoken s1 = (t2, q2, e2, s2) \<Longrightarrow>
   parseredirs cmd ps =
     (if t2 \<noteq> of_char CHR ''a'' then Fail ''missing file for redirection'' else parseredirs (redir_of t1 cmd (q2, e2)) s2)"
  by (subst parseredirs.simps) (simp add: peek_case)

lemma parseredirs_ends: "ends ps (parseredirs cmd ps)"
proof (induction "length ps" arbitrary: cmd ps rule: less_induct)
  case less
  show ?case
  proof (cases "fst (peek ''<>'' ps)")
    case True
    obtain t1 q1 e1 s1 t2 q2 e2 s2 where g: "gettoken (skip_white ps) = (t1, q1, e1, s1)" "gettoken s1 = (t2, q2, e2, s2)"
      by (metis prod_cases4)
    have "(True, skip_white ps) = peek ''<>'' ps" using True peek_fst_snd[of "''<>''" ps] by simp
    from redir_shorter[OF this g[symmetric]] have "length s2 < length ps" .
    with less[of s2] show ?thesis by (auto simp: parseredirs_go[OF True g] intro: ends_mono[OF _ less_imp_le])
  qed (simp add: parseredirs_stop skip_white_length)
qed

lemma parse_args_eq:
  "gettoken (skip_white ps) = (t, q, e, s) \<Longrightarrow>
   parse_args argc ret ps =
     (if fst (peek ''|)&;'' ps) then Got (ret, skip_white ps)
      else if t = 0 then Got (ret, s)
      else if t \<noteq> of_char CHR ''a'' then Fail ''syntax''
      else if MAXARGS \<le> argc + 1 then Fail ''too many args''
      else pbind (parseredirs (add_arg (q, e) ret) s) (\<lambda>(ret, s). parse_args (argc + 1) ret s))"
  by (subst parse_args.simps) (simp add: peek_case)

lemma parse_args_ends: "ends ps (parse_args argc ret ps)"
proof (induction "MAXARGS - argc" arbitrary: argc ret ps rule: less_induct)
  case less
  obtain t q e s where g: "gettoken (skip_white ps) = (t, q, e, s)" by (metis prod_cases4)
  have len: "length s \<le> length ps" using gettoken_length(1)[OF g] skip_white_length[of ps] by simp
  have "ends ps (pbind (parseredirs (add_arg (q, e) ret) s) (\<lambda>(ret, s). parse_args (argc + 1) ret s))"
    if "\<not> MAXARGS \<le> argc + 1"
    using less[of "argc + 1"] that len by (intro ends_bind[OF parseredirs_ends]) (auto intro: ends_mono[OF less])
  with len skip_white_length[of ps] show ?case by (auto simp: parse_args_eq[OF g])
qed

lemma parse_backs_eq:
  "parse_backs cmd ps =
     (if fst (peek ''&'' ps) then parse_backs (BACK cmd) (next_token (skip_white ps)) else (cmd, skip_white ps))"
  by (subst parse_backs.simps) (simp add: peek_case)

lemma parse_backs_length: "parse_backs cmd ps = (c, s) \<Longrightarrow> length s \<le> length ps"
proof (induction "length ps" arbitrary: cmd ps rule: less_induct)
  case less
  show ?case
  proof (cases "fst (peek ''&'' ps)")
    case True
    with less(1)[OF peek_next[OF True], of "BACK cmd"] less(2) peek_next[OF True] show ?thesis
      by (simp add: parse_backs_eq[of cmd ps])
  next
    case False
    with less(2) skip_white_length[of ps] show ?thesis by (simp add: parse_backs_eq[of cmd ps])
  qed
qed

lemma parser_ends:
  "4 * length ps + 4 \<le> n \<Longrightarrow> ends ps (parseline n ps)"
  "4 * length ps + 3 \<le> n \<Longrightarrow> ends ps (parsepipe n ps)"
  "4 * length ps + 2 \<le> n \<Longrightarrow> ends ps (parseexec n ps)"
  "4 * length ps + 1 \<le> n \<Longrightarrow> ends ps (parseblock n ps)"
proof (induction n arbitrary: ps)
  case (Suc n)
  note peek_short = peek_next skip_white_length next_token_length(1)
  { case 1
    show ?case unfolding parseline.simps
    proof (rule ends_bind[OF Suc.IH(2)])
      show "4 * length ps + 3 \<le> n" using 1 by simp
      fix cmd and s :: "u8 list" assume len: "length s \<le> length ps"
      obtain c s' where b: "parse_backs cmd s = (c, s')" by (cases "parse_backs cmd s")
      have len': "length s' \<le> length ps" using parse_backs_length[OF b] len by simp
      have "ends ps (pbind (parseline n (next_token (skip_white s'))) (\<lambda>(right, s). Got (LIST c right, s)))"
        if "fst (peek '';'' s')"
        using peek_next[OF that] len' 1 by (intro ends_bind[OF Suc.IH(1)]) auto
      then show "ends ps ((\<lambda>(cmd, s). case parse_backs cmd s of (cmd, s) \<Rightarrow> case peek '';'' s of (b, s) \<Rightarrow>
           if b then pbind (parseline n (next_token s)) (\<lambda>(right, s). Got (LIST cmd right, s)) else Got (cmd, s)) (cmd, s))"
        using b skip_white_length[of s'] len' by (simp add: peek_case)
    qed
  next
    case 2
    show ?case unfolding parsepipe.simps
    proof (rule ends_bind[OF Suc.IH(3)])
      show "4 * length ps + 2 \<le> n" using 2 by simp
      fix cmd and s :: "u8 list" assume len: "length s \<le> length ps"
      have "ends ps (pbind (parsepipe n (next_token (skip_white s))) (\<lambda>(right, s). Got (PIPE cmd right, s)))"
        if "fst (peek ''|'' s)"
        using peek_next[OF that] len 2 by (intro ends_bind[OF Suc.IH(2)]) auto
      then show "ends ps ((\<lambda>(cmd, s). case peek ''|'' s of (b, s) \<Rightarrow>
           if b then pbind (parsepipe n (next_token s)) (\<lambda>(right, s). Got (PIPE cmd right, s)) else Got (cmd, s)) (cmd, s))"
        using skip_white_length[of s] len by (simp add: peek_case)
    qed
  next
    case 3
    have "ends ps (parseblock n (skip_white ps))" if "fst (peek ''('' ps)"
      using 3 skip_white_length[of ps] by (intro ends_mono[OF Suc.IH(4)]) simp_all
    moreover have "ends ps (pbind (parseredirs (EXEC []) (skip_white ps)) (\<lambda>(ret, s). parse_args 0 ret s))"
      using skip_white_length[of ps] by (intro ends_bind[OF parseredirs_ends]) (auto intro: ends_mono[OF parse_args_ends])
    ultimately show ?case by (simp add: peek_case)
  next
    case 4
    show ?case
    proof (cases "fst (peek ''('' ps)")
      case True
      let ?s = "next_token (skip_white ps)"
      have len: "length ?s < length ps" by (rule peek_next[OF True])
      have "ends ps (pbind (parseline n ?s) (\<lambda>(cmd, s). case peek '')'' s of (b, s) \<Rightarrow>
             if \<not> b then Fail ''syntax - missing )'' else parseredirs cmd (next_token s)))"
      proof (rule ends_bind[OF Suc.IH(1)])
        show "4 * length ?s + 4 \<le> n" using len 4 by simp
        fix cmd and s :: "u8 list" assume "length s \<le> length ?s"
        then have "length (next_token (skip_white s)) \<le> length ps"
          using len next_token_length(1)[of "skip_white s"] skip_white_length[of s] by simp
        then show "ends ps ((\<lambda>(cmd, s). case peek '')'' s of (b, s) \<Rightarrow>
            if \<not> b then Fail ''syntax - missing )'' else parseredirs cmd (next_token s)) (cmd, s))"
          by (auto simp: peek_case intro: ends_mono[OF parseredirs_ends])
      qed
      with True show ?thesis by (simp add: peek_case)
    qed (simp add: peek_case)
  }
qed simp_all

text \<open>
  C21 (termination): the recursive descent parser ends on every line: each of its calls that leads back to itself has
  consumed a character, so \<open>parsecmd\<close> returns a command or stops with one of its messages.\<close>

theorem parsecmd_terminates: "(\<exists>c. parsecmd s = Got c) \<or> (\<exists>msg. parsecmd s = Fail msg)"
proof -
  have "ends s (parseline (4 * length s + 4) s)" by (rule parser_ends) simp
  then show ?thesis
  proof (cases "parseline (4 * length s + 4) s")
    case (Got x)
    obtain c r where "x = (c, r)" by (cases x)
    with Got show ?thesis by (cases "skip_white r = []") (simp_all add: parsecmd_def peek_case)
  qed (simp_all add: parsecmd_def)
qed

end
