(* ===== verification/Shell_Props.thy ===== *)
theory Shell_Props
  imports Shell
begin

text \<open>
  What the shell's parser understands: every command can be written, with parentheses where the grammar needs them,
  and is read back as itself; and what every parsed command looks like.
\<close>

section \<open>Writing a command\<close>

definition valid_word :: "u8 list \<Rightarrow> bool" where
  "valid_word w \<longleftrightarrow> w \<noteq> [] \<and> (\<forall>c \<in> set w. word_char c)"

definition valid_redir :: "u8 list \<times> i32 \<times> i32 \<Rightarrow> bool" where
  "valid_redir r \<longleftrightarrow> valid_word (fst r) \<and> snd r \<in> {(M_READ, 0), (M_WRITE, 1), (M_APPEND, 1)}"

primrec valid_cmd :: "u8 list cmd \<Rightarrow> bool" where
  "valid_cmd (EXEC argv) \<longleftrightarrow> length argv < MAXARGS \<and> (\<forall>w \<in> set argv. valid_word w)"
| "valid_cmd (REDIR c file mode fd) \<longleftrightarrow> valid_cmd c \<and> valid_redir (file, mode, fd)"
| "valid_cmd (PIPE l r) \<longleftrightarrow> valid_cmd l \<and> valid_cmd r"
| "valid_cmd (LIST l r) \<longleftrightarrow> valid_cmd l \<and> valid_cmd r"
| "valid_cmd (BACK c) \<longleftrightarrow> valid_cmd c"

definition redir_op :: "i32 \<Rightarrow> u8 list" where
  "redir_op mode = bytes_of (if mode = M_READ then ''<'' else if mode = M_WRITE then ''>'' else ''>>'')"

definition write_redir :: "u8 list \<times> i32 \<times> i32 \<Rightarrow> u8 list" where
  "write_redir r = redir_op (fst (snd r)) @ fst r @ [32]"

definition write_words :: "u8 list list \<Rightarrow> u8 list" where
  "write_words ws = concat (map (\<lambda>w. w @ [32]) ws)"

definition parens :: "bool \<Rightarrow> u8 list \<Rightarrow> u8 list" where
  "parens b s = (if b then [40] @ s @ [41] else s)"

text \<open>The level is 0 where a line may stand, 1 for the part of a line before a semicolon, 2 for a pipe, 3 for one command.\<close>

primrec unparse :: "u8 list cmd \<Rightarrow> nat \<Rightarrow> u8 list" where
  "unparse (EXEC argv) k = write_words argv"
| "unparse (REDIR c file mode fd) k = unparse c 3 @ write_redir (file, mode, fd)"
| "unparse (PIPE l r) k = parens (2 < k) (unparse l 3 @ [124] @ unparse r 2)"
| "unparse (LIST l r) k = parens (0 < k) (unparse l 1 @ [59] @ unparse r 0)"
| "unparse (BACK c) k = parens (1 < k) (unparse c 1 @ [38])"

section \<open>Tokens of written commands\<close>

lemma skip_white_append: "s \<noteq> [] \<Longrightarrow> hd s \<notin> set whitespace \<Longrightarrow> skip_white (s @ t) = s @ t"
  by (cases s) (simp_all add: skip_white_def)

lemma skip_white_nonwhite [simp]: "c \<notin> set whitespace \<Longrightarrow> skip_white (c # s) = c # s"
  and skip_white_space [simp]: "skip_white (32 # s) = skip_white s"
  by (simp_all add: skip_white_def whitespace_def)

lemma valid_word_hd: "valid_word w \<Longrightarrow> w \<noteq> [] \<and> word_char (hd w)"
  by (cases w) (auto simp: valid_word_def)

lemma gettoken_word:
  assumes "valid_word w"
  shows "gettoken (w @ 32 # x) = (of_char CHR ''a'', w @ 32 # x, 32 # x, skip_white x)"
proof -
  obtain c r where w: "w = c # r" "word_char c" using assms by (cases w) (auto simp: valid_word_def)
  then have c: "c \<notin> set whitespace" "c \<notin> set (bytes_of ''|();&<'')" "c \<noteq> of_char CHR ''>''"
    by (auto simp: word_char_def symbols_def bytes_of_def)
  have "dropWhile word_char (w @ 32 # x) = 32 # x"
    using assms by (auto simp: valid_word_def dropWhile_append3 word_char_def whitespace_def)
  with w c show ?thesis by (simp add: gettoken_def)
qed

lemma word_at_word [simp]: "word_at (w @ x, x) = w"
  by (simp add: word_at_def)

lemma gettoken_symbol: "c \<in> set (bytes_of ''|();&<'') \<Longrightarrow> gettoken (c # x) = (c, c # x, x, skip_white x)"
proof -
  assume c: "c \<in> set (bytes_of ''|();&<'')"
  then have "c \<notin> set whitespace" by (auto simp: bytes_of_def whitespace_def)
  with c show ?thesis by (simp add: gettoken_def)
qed

lemma gettoken_redir:
  assumes "valid_redir r"
  shows "\<exists>t q e. gettoken (write_redir r @ x) = (t, q, e, fst r @ 32 # x) \<and>
    redir_of t c y = REDIR c y (fst (snd r)) (snd (snd r))"
proof -
  obtain f m fd where r: "r = (f, m, fd)" by (cases r)
  from assms r obtain d g where f: "f = d # g" "word_char d" "valid_word f"
    by (cases f) (auto simp: valid_redir_def valid_word_def)
  then have d: "d \<notin> set whitespace" "d \<noteq> of_char CHR ''>''" by (auto simp: word_char_def symbols_def bytes_of_def)
  from assms r have "(m, fd) \<in> {(M_READ, 0), (M_WRITE, 1), (M_APPEND, 1)}" by (simp add: valid_redir_def)
  then show ?thesis using r f d
    by (auto simp: write_redir_def redir_op_def bytes_of_def gettoken_def redir_of_def whitespace_def)
qed

section \<open>Reading written commands\<close>

lemma peek_fst: "fst (peek toks s) \<longleftrightarrow> skip_white s \<noteq> [] \<and> hd (skip_white s) \<in> set (bytes_of toks)"
  by (simp add: peek_def Let_def)

lemma peek_skip [simp]: "peek toks (skip_white s) = peek toks s"
  by (simp add: peek_def)

text \<open>White space in front does not matter.\<close>

lemma parseredirs_skip [simp]: "parseredirs c (skip_white s) = parseredirs c s"
  by (subst (1 2) parseredirs.simps) simp

lemma parse_args_skip [simp]: "parse_args n c (skip_white s) = parse_args n c s"
  by (subst (1 2) parse_args.simps) simp

lemma parser_skip [simp]:
  "parseexec n (skip_white s) = parseexec n s" "parsepipe n (skip_white s) = parsepipe n s" "parseline n (skip_white s) = parseline n s"
proof -
  show e: "parseexec n (skip_white s) = parseexec n s" for n by (cases n) simp_all
  show p: "parsepipe n (skip_white s) = parsepipe n s" for n by (cases n) (simp_all add: e)
  show "parseline n (skip_white s) = parseline n s" by (cases n) (simp_all add: p)
qed

lemma next_token_symbol: "c \<in> set (bytes_of ''|();&<'') \<Longrightarrow> next_token (c # x) = skip_white x"
  by (simp add: next_token_def gettoken_symbol)

text \<open>What may follow a command: nothing, or one of some symbols.\<close>

definition follow :: "string \<Rightarrow> u8 list \<Rightarrow> bool" where
  "follow toks rest \<longleftrightarrow> skip_white rest = [] \<or> hd (skip_white rest) \<in> set (bytes_of toks)"

definition write_redirs :: "(u8 list \<times> i32 \<times> i32) list \<Rightarrow> u8 list" where
  "write_redirs rs = concat (map write_redir rs)"

definition apply_redirs :: "(u8 list \<times> i32 \<times> i32) list \<Rightarrow> u8 list cmd \<Rightarrow> u8 list cmd" where
  "apply_redirs rs c = foldl (\<lambda>c (file, mode, fd). REDIR c file mode fd) c rs"

lemma write_redir_start:
  assumes "valid_redir r"
  shows "skip_white (write_redir r @ x) = write_redir r @ x" "fst (peek ''<>'' (write_redir r @ x))"
proof -
  have "write_redir r \<noteq> []" "hd (write_redir r) \<in> {60, 62}"
    by (auto simp: write_redir_def redir_op_def bytes_of_def)
  then show "skip_white (write_redir r @ x) = write_redir r @ x" by (intro skip_white_append) (auto simp: whitespace_def)
  then show "fst (peek ''<>'' (write_redir r @ x))"
    using \<open>write_redir r \<noteq> []\<close> \<open>hd (write_redir r) \<in> {60, 62}\<close> by (auto simp: peek_fst bytes_of_def)
qed

lemma parse_written_redirs:
  "\<forall>r \<in> set rs. valid_redir r \<Longrightarrow> \<not> fst (peek ''<>'' rest) \<Longrightarrow>
   \<exists>c'. parseredirs c (write_redirs rs @ rest) = Got (c', skip_white rest) \<and> nulterminate c' = apply_redirs rs (nulterminate c)"
proof (induction rs arbitrary: c)
  case Nil
  then show ?case by (simp add: write_redirs_def apply_redirs_def parseredirs_stop)
next
  case (Cons r rs)
  let ?x = "write_redirs rs @ rest"
  obtain f m fd where r: "r = (f, m, fd)" by (cases r)
  from Cons.prems(1) have v: "valid_redir r" "valid_word f" by (simp_all add: r valid_redir_def)
  from gettoken_redir[OF v(1), of ?x c "(f @ 32 # ?x, 32 # ?x)"] r obtain t q e where
    t: "gettoken (write_redir r @ ?x) = (t, q, e, f @ 32 # ?x)" "redir_of t c (f @ 32 # ?x, 32 # ?x) = REDIR c (f @ 32 # ?x, 32 # ?x) m fd"
    by auto
  have "parseredirs c (write_redir r @ ?x) = parseredirs (REDIR c (f @ 32 # ?x, 32 # ?x) m fd) ?x"
    using parseredirs_go[of "write_redir r @ ?x", OF write_redir_start(2)[OF v(1)], unfolded write_redir_start(1)[OF v(1)],
        OF t(1) gettoken_word[OF v(2)]] t(2) by simp
  moreover obtain c' where "parseredirs (REDIR c (f @ 32 # ?x, 32 # ?x) m fd) ?x = Got (c', skip_white rest)"
    "nulterminate c' = apply_redirs rs (REDIR (nulterminate c) f m fd)"
    using Cons.IH[of "REDIR c (f @ 32 # ?x, 32 # ?x) m fd"] Cons.prems by auto
  ultimately show ?case by (simp add: write_redirs_def apply_redirs_def r)
qed

lemma parse_args_stop: "follow ''|)&;'' rest \<Longrightarrow> parse_args n c rest = Got (c, skip_white rest)"
proof -
  assume f: "follow ''|)&;'' rest"
  obtain t q e s where g: "gettoken (skip_white rest) = (t, q, e, s)" by (metis prod_cases4)
  have "t = 0 \<and> s = []" if "skip_white rest = []" using g that by (auto simp: gettoken_def)
  with f show ?thesis by (auto simp: parse_args_eq[OF g] peek_fst follow_def)
qed

lemma valid_word_start:
  assumes "valid_word w"
  shows "skip_white (w @ x) = w @ x" "\<not> fst (peek ''<>'' (w @ x))" "\<not> fst (peek ''|)&;'' (w @ x))" "\<not> fst (peek ''('' (w @ x))"
proof -
  have w: "w \<noteq> []" "hd w \<notin> set whitespace" "hd w \<notin> set symbols" using valid_word_hd[OF assms] by (auto simp: word_char_def)
  then show s: "skip_white (w @ x) = w @ x" by (intro skip_white_append)
  from w show "\<not> fst (peek ''<>'' (w @ x))" "\<not> fst (peek ''|)&;'' (w @ x))" "\<not> fst (peek ''('' (w @ x))"
    by (auto simp: peek_fst s symbols_def bytes_of_def)
qed

lemma parse_written_args:
  assumes "ws \<noteq> []" "\<forall>w \<in> set ws. valid_word w" "\<forall>r \<in> set rs. valid_redir r" "argc + length ws < MAXARGS" "follow ''|)&;'' rest"
  shows "\<exists>c'. parse_args argc (EXEC argv) (write_words ws @ write_redirs rs @ rest) = Got (c', skip_white rest) \<and>
    nulterminate c' = apply_redirs rs (EXEC (map word_at argv @ ws))"
  using assms
proof (induction ws arbitrary: argc argv)
  case (Cons w ws)
  let ?x = "write_words ws @ write_redirs rs @ rest" and ?a = "argv @ [(w @ 32 # write_words ws @ write_redirs rs @ rest, 32 # write_words ws @ write_redirs rs @ rest)]"
  have v: "valid_word w" using Cons.prems(2) by simp
  have nr: "\<not> fst (peek ''<>'' rest)" using Cons.prems(5) by (auto simp: follow_def peek_fst bytes_of_def)
  have step: "parse_args argc (EXEC argv) (w @ 32 # ?x) = pbind (parseredirs (EXEC ?a) ?x) (\<lambda>(ret, s). parse_args (argc + 1) ret s)"
    using parse_args_eq[of "w @ 32 # ?x", unfolded valid_word_start(1)[OF v], OF gettoken_word[OF v], of argc "EXEC argv"]
      Cons.prems(4) valid_word_start(3)[OF v] by simp
  show ?case
  proof (cases ws)
    case Nil
    obtain c' where "parseredirs (EXEC ?a) (write_redirs rs @ rest) = Got (c', skip_white rest)"
      "nulterminate c' = apply_redirs rs (EXEC (map word_at argv @ [w]))"
      using parse_written_redirs[OF Cons.prems(3) nr, of "EXEC ?a"] Nil by (auto simp: write_words_def)
    with step Nil parse_args_stop[OF Cons.prems(5)] show ?thesis by (simp add: write_words_def)
  next
    case (Cons w' ws')
    then have v': "valid_word w'" using Cons.prems(2) by simp
    have "parseredirs (EXEC ?a) ?x = Got (EXEC ?a, ?x)"
      using parseredirs_stop[OF valid_word_start(2)[OF v']] valid_word_start(1)[OF v'] Cons by (simp add: write_words_def)
    with step Cons.IH[of "argc + 1" ?a] Cons.prems Cons show ?thesis by (simp add: write_words_def)
  qed
qed simp

text \<open>The four levels: with enough fuel the text of a command is read as that command, up to what follows it.\<close>

definition reads :: "(nat \<Rightarrow> u8 list \<Rightarrow> (span cmd \<times> u8 list) parsed) \<Rightarrow> nat \<Rightarrow> u8 list \<Rightarrow> u8 list \<Rightarrow> u8 list cmd \<Rightarrow> bool" where
  "reads parse k str rest c \<longleftrightarrow>
     (\<forall>n. 4 * length (str @ rest) + k \<le> n \<longrightarrow> (\<exists>c'. parse n (str @ rest) = Got (c', skip_white rest) \<and> nulterminate c' = c))"

definition exec_level :: "u8 list cmd \<Rightarrow> bool" where
  "exec_level c \<longleftrightarrow> (\<forall>rs rest. (\<forall>r \<in> set rs. valid_redir r) \<and> follow ''|)&;'' rest \<longrightarrow>
     reads parseexec 2 (unparse c 3 @ write_redirs rs) rest (apply_redirs rs c))"

definition pipe_level :: "u8 list cmd \<Rightarrow> bool" where
  "pipe_level c \<longleftrightarrow> (\<forall>rest. follow '')&;'' rest \<longrightarrow> reads parsepipe 3 (unparse c 2) rest c)"

text \<open>Before a semicolon, any number \<open>k\<close> of ampersands may follow.\<close>

definition back_level :: "u8 list cmd \<Rightarrow> bool" where
  "back_level c \<longleftrightarrow> (\<forall>n k rest. follow '');'' rest \<and> 4 * length (unparse c 1 @ replicate k 38 @ rest) + 3 \<le> n \<longrightarrow>
     (\<exists>c' s c''. parsepipe n (unparse c 1 @ replicate k 38 @ rest) = Got (c', s) \<and>
        parse_backs c' s = (c'', skip_white rest) \<and> nulterminate c'' = (BACK ^^ k) c))"

definition line_level :: "u8 list cmd \<Rightarrow> bool" where
  "line_level c \<longleftrightarrow> (\<forall>rest. follow '')'' rest \<longrightarrow> reads parseline 4 (unparse c 0) rest c)"

lemma readsE:
  assumes "reads parse k str rest c" "4 * length (str @ rest) + k \<le> n"
  obtains c' where "parse n (str @ rest) = Got (c', skip_white rest)" "nulterminate c' = c"
  using assms by (auto simp: reads_def)

lemma back_levelE:
  assumes "back_level c" "follow '');'' rest" "4 * length (unparse c 1 @ replicate k 38 @ rest) + 3 \<le> n"
  obtains c' s c'' where "parsepipe n (unparse c 1 @ replicate k 38 @ rest) = Got (c', s)"
    "parse_backs c' s = (c'', skip_white rest)" "nulterminate c'' = (BACK ^^ k) c"
  using assms unfolding back_level_def by blast

lemma follow_mono: "follow toks rest \<Longrightarrow> set (bytes_of toks) \<subseteq> set (bytes_of toks') \<Longrightarrow> follow toks' rest"
  by (auto simp: follow_def)

lemma follow_sets:
  "set (bytes_of '')'') \<subseteq> set (bytes_of '');'')" "set (bytes_of '');'') \<subseteq> set (bytes_of '')&;'')"
  "set (bytes_of '')&;'') \<subseteq> set (bytes_of ''|)&;'')"
  by (auto simp: bytes_of_def)

lemma apply_redirs_Nil [simp]: "apply_redirs [] c = c" "write_redirs [] = []"
  by (simp_all add: apply_redirs_def write_redirs_def)

lemma exec_level_exec: "valid_cmd (EXEC argv) \<Longrightarrow> exec_level (EXEC argv)"
  unfolding exec_level_def reads_def
proof (intro allI impI)
  fix rs rest n
  assume v: "valid_cmd (EXEC argv)" and a: "(\<forall>r \<in> set rs. valid_redir r) \<and> follow ''|)&;'' rest"
    and n: "4 * length ((unparse (EXEC argv) 3 @ write_redirs rs) @ rest) + 2 \<le> n"
  then obtain m where m: "n = Suc m" by (cases n) auto
  let ?in = "write_words argv @ write_redirs rs @ rest"
  have nr: "\<not> fst (peek ''<>'' rest)" "\<not> fst (peek ''('' rest)" using a by (auto simp: follow_def peek_fst bytes_of_def)
  have "\<exists>c'. pbind (parseredirs (EXEC []) ?in) (\<lambda>(ret, s). parse_args 0 ret s) = Got (c', skip_white rest) \<and>
      nulterminate c' = apply_redirs rs (EXEC argv) \<and> \<not> fst (peek ''('' ?in)"
  proof (cases argv)
    case Nil
    obtain c' where "parseredirs (EXEC []) (write_redirs rs @ rest) = Got (c', skip_white rest)"
      "nulterminate c' = apply_redirs rs (EXEC [])"
      using parse_written_redirs[of rs rest "EXEC []"] a nr by auto
    moreover have "\<not> fst (peek ''('' (write_redirs rs @ rest))"
    proof (cases rs)
      case (Cons r rs')
      with a write_redir_start[of r "write_redirs rs' @ rest"] show ?thesis
        by (auto simp: write_redirs_def peek_fst bytes_of_def)
    qed (simp add: nr)
    ultimately show ?thesis using Nil parse_args_stop[of rest 0] a by (simp add: write_words_def)
  next
    case (Cons w ws)
    then have w: "valid_word w" using v by simp
    have "?in = w @ 32 # write_words ws @ write_redirs rs @ rest" by (simp add: Cons write_words_def)
    then have "parseredirs (EXEC []) ?in = Got (EXEC [], ?in)" "\<not> fst (peek ''('' ?in)"
      using parseredirs_stop[OF valid_word_start(2)[OF w]] valid_word_start(1,4)[OF w] by metis+
    with parse_written_args[of argv rs 0 rest "[]"] v a Cons show ?thesis by auto
  qed
  then show "\<exists>c'. parseexec n ((unparse (EXEC argv) 3 @ write_redirs rs) @ rest) = Got (c', skip_white rest) \<and>
      nulterminate c' = apply_redirs rs (EXEC argv)"
    by (auto simp: m peek_case)
qed

lemma exec_level_redir: "exec_level c \<Longrightarrow> valid_redir (file, mode, fd) \<Longrightarrow> exec_level (REDIR c file mode fd)"
  unfolding exec_level_def
proof (intro allI impI)
  fix rs rest
  assume c: "\<forall>rs rest. (\<forall>r \<in> set rs. valid_redir r) \<and> follow ''|)&;'' rest \<longrightarrow>
      reads parseexec 2 (unparse c 3 @ write_redirs rs) rest (apply_redirs rs c)"
    and "valid_redir (file, mode, fd)" "(\<forall>r \<in> set rs. valid_redir r) \<and> follow ''|)&;'' rest"
  with spec[OF c, of "(file, mode, fd) # rs"]
  show "reads parseexec 2 (unparse (REDIR c file mode fd) 3 @ write_redirs rs) rest (apply_redirs rs (REDIR c file mode fd))"
    by (simp add: write_redirs_def apply_redirs_def)
qed

lemma exec_level_parens:
  assumes "line_level c" "unparse c 3 = 40 # unparse c 0 @ [41]"
  shows "exec_level c"
  unfolding exec_level_def reads_def
proof (intro allI impI)
  fix rs rest n
  let ?in = "write_redirs rs @ rest"
  assume a: "(\<forall>r \<in> set rs. valid_redir r) \<and> follow ''|)&;'' rest"
    and n: "4 * length ((unparse c 3 @ write_redirs rs) @ rest) + 2 \<le> n"
  from n obtain m where m: "n = Suc (Suc m)" by (cases n; cases "n - 1") auto
  have par: "(40 :: u8) \<in> set (bytes_of ''|();&<'')" "(41 :: u8) \<in> set (bytes_of ''|();&<'')" "(40 :: u8) \<notin> set whitespace" "(41 :: u8) \<notin> set whitespace"
    by (simp_all add: bytes_of_def whitespace_def)
  have "follow '')'' (41 # ?in)" using par by (simp add: follow_def bytes_of_def)
  then obtain c1 where c1: "parseline m (unparse c 0 @ 41 # ?in) = Got (c1, 41 # ?in)" "nulterminate c1 = c"
    using assms n m par unfolding line_level_def reads_def by (auto elim!: allE[of _ "41 # ?in"] allE[of _ m])
  have "\<not> fst (peek ''<>'' rest)" using a by (auto simp: follow_def peek_fst bytes_of_def)
  with a obtain c2 where "parseredirs c1 ?in = Got (c2, skip_white rest)" "nulterminate c2 = apply_redirs rs c"
    using parse_written_redirs[of rs rest c1] c1 by auto
  then show "\<exists>c'. parseexec n ((unparse c 3 @ write_redirs rs) @ rest) = Got (c', skip_white rest) \<and>
      nulterminate c' = apply_redirs rs c"
    using c1 par by (simp add: m assms(2) peek_case peek_fst next_token_symbol bytes_of_def)
qed

lemma symbol_facts:
  "(124 :: u8) \<in> set (bytes_of ''|();&<'')" "(59 :: u8) \<in> set (bytes_of ''|();&<'')" "(38 :: u8) \<in> set (bytes_of ''|();&<'')"
  "(124 :: u8) \<notin> set whitespace" "(59 :: u8) \<notin> set whitespace" "(38 :: u8) \<notin> set whitespace"
  by (simp_all add: bytes_of_def whitespace_def)

lemma pipe_level_exec:
  assumes "exec_level c" "unparse c 2 = unparse c 3"
  shows "pipe_level c"
  unfolding pipe_level_def reads_def
proof (intro allI impI)
  fix rest n
  assume f: "follow '')&;'' rest" and n: "4 * length (unparse c 2 @ rest) + 3 \<le> n"
  then obtain m where m: "n = Suc m" by (cases n) auto
  have "follow ''|)&;'' rest" using follow_mono[OF f follow_sets(3)] .
  with assms(1) have "reads parseexec 2 (unparse c 3) rest c" by (auto simp: exec_level_def dest: spec[of _ "[]"])
  then obtain c' where "parseexec m (unparse c 3 @ rest) = Got (c', skip_white rest)" "nulterminate c' = c"
    by (rule readsE[where n = m]) (use n m assms(2) in auto)
  moreover have "\<not> fst (peek ''|'' rest)" using f by (auto simp: follow_def peek_fst bytes_of_def)
  ultimately show "\<exists>c'. parsepipe n (unparse c 2 @ rest) = Got (c', skip_white rest) \<and> nulterminate c' = c"
    by (simp add: m assms(2) peek_case)
qed

lemma pipe_level_pipe:
  assumes "exec_level l" "pipe_level r"
  shows "pipe_level (PIPE l r)"
  unfolding pipe_level_def reads_def
proof (intro allI impI)
  fix rest n
  let ?x = "unparse r 2 @ rest"
  assume f: "follow '')&;'' rest" and n: "4 * length (unparse (PIPE l r) 2 @ rest) + 3 \<le> n"
  then obtain m where m: "n = Suc m" by (cases n) auto
  have "follow ''|)&;'' (124 # ?x)" by (simp add: follow_def symbol_facts bytes_of_def)
  with assms(1) have "reads parseexec 2 (unparse l 3) (124 # ?x) l" by (auto simp: exec_level_def dest: spec[of _ "[]"])
  then obtain l' where l': "parseexec m (unparse l 3 @ 124 # ?x) = Got (l', 124 # ?x)" "nulterminate l' = l"
    by (rule readsE[where n = m]) (use n m in \<open>auto simp: parens_def symbol_facts\<close>)
  from assms(2) f have "reads parsepipe 3 (unparse r 2) rest r" by (simp add: pipe_level_def)
  then obtain r' where r': "parsepipe m ?x = Got (r', skip_white rest)" "nulterminate r' = r"
    by (rule readsE[where n = m]) (use n m in \<open>auto simp: parens_def\<close>)
  have "fst (peek ''|'' (124 # ?x))" by (simp add: peek_fst symbol_facts bytes_of_def)
  then show "\<exists>c'. parsepipe n (unparse (PIPE l r) 2 @ rest) = Got (c', skip_white rest) \<and> nulterminate c' = PIPE l r"
    using l' r' by (simp add: m parens_def peek_case symbol_facts next_token_symbol)
qed

lemma parse_backs_skip [simp]: "parse_backs c (skip_white s) = parse_backs c s"
  by (subst (1 2) parse_backs.simps) simp

lemma parse_backs_written:
  "\<not> fst (peek ''&'' rest) \<Longrightarrow> parse_backs c (replicate k 38 @ rest) = ((BACK ^^ k) c, skip_white rest)"
proof (induction k arbitrary: c)
  case 0
  then show ?case by (simp add: parse_backs_eq[of c rest])
next
  case (Suc k)
  have "fst (peek ''&'' (38 # replicate k 38 @ rest))" by (simp add: peek_fst symbol_facts bytes_of_def)
  with Suc show ?case by (simp add: parse_backs_eq[of c "38 # replicate k 38 @ rest"] symbol_facts next_token_symbol funpow_swap1)
qed

lemma nulterminate_backs: "nulterminate ((BACK ^^ k) c) = (BACK ^^ k) (nulterminate c)"
  by (induction k) simp_all

lemma back_level_pipe:
  assumes "pipe_level c" "unparse c 1 = unparse c 2"
  shows "back_level c"
  unfolding back_level_def
proof (intro allI impI)
  fix n k and rest :: "u8 list"
  let ?x = "replicate k 38 @ rest"
  assume a: "follow '');'' rest \<and> 4 * length (unparse c 1 @ ?x) + 3 \<le> n"
  have "follow '')&;'' ?x"
  proof (cases k)
    case 0
    with a follow_mono[OF _ follow_sets(2)] show ?thesis by simp
  qed (simp add: follow_def symbol_facts bytes_of_def)
  with assms(1) have "reads parsepipe 3 (unparse c 2) ?x c" by (simp add: pipe_level_def)
  then obtain c' where "parsepipe n (unparse c 2 @ ?x) = Got (c', skip_white ?x)" "nulterminate c' = c"
    by (rule readsE[where n = n]) (use a assms(2) in auto)
  moreover have "\<not> fst (peek ''&'' rest)" using a by (auto simp: follow_def peek_fst bytes_of_def)
  ultimately show "\<exists>c' s c''. parsepipe n (unparse c 1 @ ?x) = Got (c', s) \<and> parse_backs c' s = (c'', skip_white rest) \<and>
      nulterminate c'' = (BACK ^^ k) c"
    by (simp add: assms(2) parse_backs_written nulterminate_backs del: One_nat_def)
qed

lemma back_level_back: "back_level c \<Longrightarrow> back_level (BACK c)"
proof -
  assume c: "back_level c"
  show ?thesis unfolding back_level_def
  proof (intro allI impI)
    fix n k and rest :: "u8 list"
    assume "follow '');'' rest \<and> 4 * length (unparse (BACK c) 1 @ replicate k 38 @ rest) + 3 \<le> n"
    then have f: "follow '');'' rest" "4 * length (unparse c 1 @ replicate (Suc k) 38 @ rest) + 3 \<le> n"
      by (simp_all add: parens_def)
    obtain c' s c'' where "parsepipe n (unparse c 1 @ replicate (Suc k) 38 @ rest) = Got (c', s)"
      "parse_backs c' s = (c'', skip_white rest)" "nulterminate c'' = (BACK ^^ Suc k) c" by (rule back_levelE[OF c f])
    then show "\<exists>c' s c''. parsepipe n (unparse (BACK c) 1 @ replicate k 38 @ rest) = Got (c', s) \<and>
        parse_backs c' s = (c'', skip_white rest) \<and> nulterminate c'' = (BACK ^^ k) (BACK c)"
      by (simp add: parens_def funpow_swap1)
  qed
qed

lemma line_level_back:
  assumes "back_level c" "unparse c 0 = unparse c 1"
  shows "line_level c"
  unfolding line_level_def reads_def
proof (intro allI impI)
  fix rest n
  assume f: "follow '')'' rest" and n: "4 * length (unparse c 0 @ rest) + 4 \<le> n"
  then obtain m where m: "n = Suc m" by (cases n) auto
  have "follow '');'' rest" using follow_mono[OF f follow_sets(1)] .
  then obtain c' s c'' where "parsepipe m (unparse c 1 @ replicate 0 38 @ rest) = Got (c', s)"
    "parse_backs c' s = (c'', skip_white rest)" "nulterminate c'' = (BACK ^^ 0) c"
    by (rule back_levelE[where k = 0 and n = m, OF assms(1)]) (use n m assms(2) in auto)
  moreover have "\<not> fst (peek '';'' rest)" using f by (auto simp: follow_def peek_fst bytes_of_def)
  ultimately show "\<exists>c'. parseline n (unparse c 0 @ rest) = Got (c', skip_white rest) \<and> nulterminate c' = c"
    by (simp add: m assms(2) peek_case)
qed

lemma line_level_list:
  assumes "back_level l" "line_level r"
  shows "line_level (LIST l r)"
  unfolding line_level_def reads_def
proof (intro allI impI)
  fix rest n
  let ?x = "unparse r 0 @ rest"
  assume f: "follow '')'' rest" and n: "4 * length (unparse (LIST l r) 0 @ rest) + 4 \<le> n"
  then obtain m where m: "n = Suc m" by (cases n) auto
  have "follow '');'' (59 # ?x)" by (simp add: follow_def symbol_facts bytes_of_def)
  then obtain l' s l'' where l': "parsepipe m (unparse l 1 @ replicate 0 38 @ 59 # ?x) = Got (l', s)"
    "parse_backs l' s = (l'', skip_white (59 # ?x))" "nulterminate l'' = (BACK ^^ 0) l"
    by (rule back_levelE[where k = 0 and n = m, OF assms(1)]) (use n m in \<open>auto simp: parens_def\<close>)
  from assms(2) f have "reads parseline 4 (unparse r 0) rest r" by (simp add: line_level_def)
  then obtain r' where r': "parseline m ?x = Got (r', skip_white rest)" "nulterminate r' = r"
    by (rule readsE[where n = m]) (use n m in \<open>auto simp: parens_def\<close>)
  have "fst (peek '';'' (59 # ?x))" by (simp add: peek_fst symbol_facts bytes_of_def)
  then show "\<exists>c'. parseline n (unparse (LIST l r) 0 @ rest) = Got (c', skip_white rest) \<and> nulterminate c' = LIST l r"
    using l' r' by (simp add: m parens_def peek_case symbol_facts next_token_symbol)
qed

lemma all_levels: "valid_cmd c \<Longrightarrow> exec_level c \<and> pipe_level c \<and> back_level c \<and> line_level c"
proof (induction c)
  case (EXEC argv)
  then have "exec_level (EXEC argv)" by (rule exec_level_exec)
  then show ?case by (auto intro!: line_level_back back_level_pipe pipe_level_exec)
next
  case (REDIR c f mode fd)
  then have "exec_level (REDIR c f mode fd)" by (intro exec_level_redir) simp_all
  then show ?case by (auto intro!: line_level_back back_level_pipe pipe_level_exec)
next
  case (PIPE l r)
  then have p: "pipe_level (PIPE l r)" by (intro pipe_level_pipe) simp_all
  then have b: "back_level (PIPE l r)" by (rule back_level_pipe) (simp add: parens_def)
  then have l: "line_level (PIPE l r)" by (rule line_level_back) (simp add: parens_def)
  then have "exec_level (PIPE l r)" by (rule exec_level_parens) (simp add: parens_def)
  with p b l show ?case by simp
next
  case (LIST l r)
  then have l: "line_level (LIST l r)" by (intro line_level_list) simp_all
  then have e: "exec_level (LIST l r)" by (rule exec_level_parens) (simp add: parens_def)
  then have p: "pipe_level (LIST l r)" by (rule pipe_level_exec) (simp add: parens_def)
  then have "back_level (LIST l r)" by (rule back_level_pipe) (simp add: parens_def)
  with p e l show ?case by simp
next
  case (BACK c)
  then have b: "back_level (BACK c)" by (intro back_level_back) simp_all
  then have l: "line_level (BACK c)" by (rule line_level_back) (simp add: parens_def)
  then have e: "exec_level (BACK c)" by (rule exec_level_parens) (simp add: parens_def)
  then have "pipe_level (BACK c)" by (rule pipe_level_exec) (simp add: parens_def)
  with b e l show ?case by simp
qed

text \<open>
  C11 (roundtrip): every command whose words are non-empty and contain neither white space nor symbols, with at most nine
  words to each program, can be written as a line (\<open>unparse\<close> puts parentheses where the grammar needs them) that
  \<^verbatim>\<open>parsecmd\<close> reads back as exactly that command.\<close>

theorem parse_unparse_roundtrip:
  assumes "valid_cmd c"
  shows "parsecmd (unparse c 0) = Got c"
proof -
  have "reads parseline 4 (unparse c 0) [] c"
    using all_levels[OF assms] by (simp add: line_level_def follow_def)
  then obtain c' where "parseline (4 * length (unparse c 0) + 4) (unparse c 0 @ []) = Got (c', skip_white [])" "nulterminate c' = c"
    by (rule readsE[where n = "4 * length (unparse c 0) + 4"]) simp_all
  then show ?thesis by (simp add: parsecmd_def peek_case)
qed

text \<open>\<^verbatim>\<open>(a b | c)>f&;d\<close>\<close>

theorem parse_unparse_roundtrip_witness:
  "let c = LIST (BACK (REDIR (PIPE (EXEC [[97], [98]]) (EXEC [[99]])) [102] M_WRITE 1)) (EXEC [[100]])
   in parsecmd (bytes_of ''(a b |c )>f &;d '') = Got c"
proof -
  let ?c = "LIST (BACK (REDIR (PIPE (EXEC [[97], [98]]) (EXEC [[99]])) [102] M_WRITE 1)) (EXEC [[100]]) :: u8 list cmd"
  have "unparse ?c 0 = bytes_of ''(a b |c )>f &;d ''"
    by (simp add: parens_def write_words_def write_redir_def redir_op_def bytes_of_def)
  moreover have "valid_cmd ?c"
    by (simp add: valid_redir_def valid_word_def word_char_def whitespace_def symbols_def bytes_of_def)
  ultimately show ?thesis using parse_unparse_roundtrip[of ?c] by simp
qed

section \<open>What a parsed command looks like\<close>

lemma gettoken_valid: "gettoken ps = (of_char CHR ''a'', q, e, s) \<Longrightarrow> valid_word (word_at (q, e))"
proof (cases "skip_white ps")
  case (Cons c r)
  assume g: "gettoken ps = (of_char CHR ''a'', q, e, s)"
  have "c \<notin> set (bytes_of ''|();&<'')" "c \<noteq> of_char CHR ''>''"
    using g Cons by (auto simp: gettoken_def bytes_of_def split: if_splits)
  then have c: "word_char c" "q = c # r" "e = dropWhile word_char r"
    using g Cons skip_white_Cons[OF Cons] not_symbol[of c] by (auto simp: gettoken_def word_char_def)
  then have "q = (c # takeWhile word_char r) @ e" by simp
  then have "word_at (q, e) = c # takeWhile word_char r" by (simp only: word_at_word)
  with c(1) show ?thesis by (auto simp: valid_word_def dest: set_takeWhileD)
qed (simp add: gettoken_def)

text \<open>A simple command, with \<open>n\<close> words: redirections of a program.\<close>

fun simple :: "nat \<Rightarrow> 'a cmd \<Rightarrow> bool" where
  "simple n (EXEC argv) \<longleftrightarrow> length argv = n"
| "simple n (REDIR c f m fd) \<longleftrightarrow> simple n c"
| "simple n _ \<longleftrightarrow> False"

lemma redir_of_valid:
  "valid_cmd (nulterminate c) \<Longrightarrow> valid_word (word_at w) \<Longrightarrow> valid_cmd (nulterminate (redir_of t c w))"
  "simple n c \<Longrightarrow> simple n (redir_of t c w)"
  by (simp_all add: redir_of_def valid_redir_def)

lemma parseredirs_valid:
  "parseredirs c ps = Got (c', s) \<Longrightarrow> valid_cmd (nulterminate c) \<Longrightarrow> valid_cmd (nulterminate c') \<and> (simple n c \<longrightarrow> simple n c')"
proof (induction "length ps" arbitrary: c ps rule: less_induct)
  case less
  show ?case
  proof (cases "fst (peek ''<>'' ps)")
    case True
    obtain t1 q1 e1 s1 t2 q2 e2 s2 where g: "gettoken (skip_white ps) = (t1, q1, e1, s1)" "gettoken s1 = (t2, q2, e2, s2)"
      by (metis prod_cases4)
    have "(True, skip_white ps) = peek ''<>'' ps" using True peek_fst_snd[of "''<>''" ps] by simp
    from redir_shorter[OF this g[symmetric]] have "length s2 < length ps" .
    moreover have t: "t2 = of_char CHR ''a''" "parseredirs (redir_of t1 c (q2, e2)) s2 = Got (c', s)"
      using less.prems(1) by (simp_all add: parseredirs_go[OF True g] split: if_splits)
    moreover have "valid_word (word_at (q2, e2))" using gettoken_valid g(2) t(1) by blast
    ultimately show ?thesis
      using less.hyps[of s2 "redir_of t1 c (q2, e2)"] less.prems(2) redir_of_valid by blast
  qed (use less.prems in \<open>simp add: parseredirs_stop\<close>)
qed

lemma add_arg_valid:
  "simple n c \<Longrightarrow> simple (Suc n) (add_arg w c)"
  "simple n c \<Longrightarrow> valid_cmd (nulterminate c) \<Longrightarrow> valid_word (word_at w) \<Longrightarrow> Suc n < MAXARGS \<Longrightarrow> valid_cmd (nulterminate (add_arg w c))"
  by (induction n c rule: simple.induct) auto

lemma pbind_Got: "pbind r f = Got y \<longleftrightarrow> (\<exists>x. r = Got x \<and> f x = Got y)"
  by (cases r) auto

lemma parse_args_valid:
  "parse_args n c ps = Got (c', s) \<Longrightarrow> valid_cmd (nulterminate c) \<Longrightarrow> simple n c \<Longrightarrow> valid_cmd (nulterminate c')"
proof (induction "MAXARGS - n" arbitrary: n c ps rule: less_induct)
  case less
  obtain t q e s1 where g: "gettoken (skip_white ps) = (t, q, e, s1)" by (metis prod_cases4)
  show ?case
  proof (cases "fst (peek ''|)&;'' ps) \<or> t = 0")
    case False
    with less.prems(1) obtain c2 s2 where c2: "t = of_char CHR ''a''" "n + 1 < MAXARGS"
      "parseredirs (add_arg (q, e) c) s1 = Got (c2, s2)" "parse_args (n + 1) c2 s2 = Got (c', s)"
      by (auto simp: parse_args_eq[OF g] pbind_Got split: if_splits)
    have "valid_word (word_at (q, e))" using gettoken_valid g c2(1) by blast
    then have "valid_cmd (nulterminate (add_arg (q, e) c))" "simple (n + 1) (add_arg (q, e) c)"
      using add_arg_valid less.prems(2,3) c2(2) by auto
    then have "valid_cmd (nulterminate c2)" "simple (n + 1) c2" using parseredirs_valid[OF c2(3)] by blast+
    with less.hyps[OF _ c2(4)] c2(2) show ?thesis by simp
  qed (use less.prems in \<open>auto simp: parse_args_eq[OF g] split: if_splits\<close>)
qed

lemma parse_backs_valid: "parse_backs c ps = (c', s) \<Longrightarrow> valid_cmd (nulterminate c) \<Longrightarrow> valid_cmd (nulterminate c')"
proof (induction "length ps" arbitrary: c ps rule: less_induct)
  case less
  then show ?case using peek_next[of "''&''" ps] by (auto simp: parse_backs_eq[of c ps] split: if_splits)
qed

lemma parser_valid:
  "parseline n ps = Got (c, s) \<Longrightarrow> valid_cmd (nulterminate c)"
  "parsepipe n ps = Got (c, s) \<Longrightarrow> valid_cmd (nulterminate c)"
  "parseexec n ps = Got (c, s) \<Longrightarrow> valid_cmd (nulterminate c)"
  "parseblock n ps = Got (c, s) \<Longrightarrow> valid_cmd (nulterminate c)"
proof (induction n arbitrary: ps c s)
  case (Suc n)
  { case 1
    then obtain c1 s1 where c1: "parsepipe n ps = Got (c1, s1)" by (auto simp: pbind_Got)
    obtain c2 s2 where c: "parsepipe n ps = Got (c1, s1)" "parse_backs c1 s1 = (c2, s2)"
      using c1 by (cases "parse_backs c1 s1")
    have "valid_cmd (nulterminate c2)" using parse_backs_valid[OF c(2)] Suc.IH(2)[OF c(1)] .
    with 1 c Suc.IH(1) show ?case by (auto simp: pbind_Got peek_case split: if_splits)
  next
    case 2
    with Suc.IH(2,3) show ?case by (fastforce simp: pbind_Got peek_case split: if_splits)
  next
    case 3
    have "valid_cmd (nulterminate (EXEC []))" "simple 0 (EXEC [])" by simp_all
    with 3 Suc.IH(4) show ?case
      by (auto simp: pbind_Got peek_case split: if_splits dest!: parseredirs_valid[where n = 0] parse_args_valid)
  next
    case 4
    with Suc.IH(1) show ?case
      by (auto simp: pbind_Got peek_case split: if_splits dest!: parseredirs_valid)
  }
qed simp_all

text \<open>
  C22 (type): every command that \<^verbatim>\<open>parsecmd\<close> returns is well formed: the words are non-empty and free of white space and
  symbols, a program has at most nine of them, so the array of ten always has room for the final null, and a redirection
  is one of the three of the grammar.\<close>

theorem parsed_commands_valid:
  assumes "parsecmd s = Got c"
  shows "valid_cmd c"
proof -
  obtain c' r where "parseline (4 * length s + 4) s = Got (c', r)" "c = nulterminate c'"
    using assms by (auto simp: parsecmd_def pbind_Got peek_case split: if_splits)
  then show ?thesis using parser_valid(1) by simp
qed

theorem parsed_commands_valid_witness: "\<exists>c. parsecmd (bytes_of ''a b<f'') = Got c \<and> valid_cmd c"
proof -
  have "parsecmd (bytes_of ''a b<f'') = Got (REDIR (EXEC [[97], [98]]) [102] M_READ 0)" by code_simp
  with parsed_commands_valid[OF this] show ?thesis by blast
qed

section \<open>The descriptors of the programs of a command\<close>












end
