(* ===== verification/Spec2Isabelle.thy ===== *)
theory Spec2Isabelle
  imports CMem Adaptive_Props Vm_Props Sched_Inv Log_Props Trap User_Grep User_Printf Umalloc_Props Shell_Props
begin

text \<open>
  A verification library for an xv6 kernel (RISC-V, Sv39 paging, several harts) with an adaptive scheduler that
  measures, classifies, predicts and heals processes.

  \<^bold>\<open>The program and its model.\<close> The kernel is one C program whose global variables are its state. The model is one
  state record that grows with the components, each theory adding its own fields to the record of the one below; an
  operation is a function on every extension of the record it needs, so a call from one component into another is an
  application. The chain is \<open>hwst\<close> (CPUs, interrupt enables, spin locks; \<^verbatim>\<open>kernel/spinlock.c\<close>, \<^verbatim>\<open>proc.h\<close>), \<open>memst\<close> (physical
  memory and the free list; \<^verbatim>\<open>kalloc.c\<close>), \<open>procst\<close> (the process table; \<^verbatim>\<open>proc.c\<close>), \<open>outst\<close> and \<open>const\<close> (UART and console;
  \<^verbatim>\<open>printk.c\<close>, \<^verbatim>\<open>uart.c\<close>, \<^verbatim>\<open>console.c\<close>), \<open>slst\<close> (\<^verbatim>\<open>sleeplock.c\<close>), \<open>biost\<close> (\<^verbatim>\<open>bio.c\<close>), \<open>logst\<close> (\<^verbatim>\<open>log.c\<close>), \<open>fsst\<close> (\<^verbatim>\<open>fs.c\<close>), \<open>pipest\<close>
  (\<^verbatim>\<open>pipe.c\<close>), \<open>filest\<close> (\<^verbatim>\<open>file.c\<close>), \<open>virtst\<close> (\<^verbatim>\<open>virtio_disk.c\<close>), \<open>trapst\<close> (\<^verbatim>\<open>trap.c\<close>, \<^verbatim>\<open>plic.c\<close>).

  \<^bold>\<open>Conventions.\<close> Machine integers are words of the source's width, so overflow is that of the machine. An operation
  takes the number \<open>h\<close> of the hart that runs it. Its result is \<open>Ok\<close> with the new state, \<open>Panic\<close> with the message of
  \<^verbatim>\<open>panic\<close>, or \<open>Spin\<close> when it would wait for a spin lock that is taken. A pointer to an element of a static table is
  its index, a null pointer is \<open>None\<close>. A routine that sleeps is split where \<^verbatim>\<open>swtch\<close> leaves it: the part up to the
  switch returns \<open>Sleeping\<close> with the locals it needs again, and a second function continues from there. A loop over a
  table is \<open>rfold\<close> or \<open>rsearch\<close>; any other loop is a recursive function with a termination proof, or a partial
  function where the source may loop for ever.

  \<^bold>\<open>The theories.\<close>
  \<^item> \<open>Prelude\<close>, \<open>Params\<close>, \<open>CMem\<close>, \<open>Pages\<close>: word arithmetic, results, the constants of \<^verbatim>\<open>param.h\<close> and \<^verbatim>\<open>riscv.h\<close>, byte memory and
    \<^verbatim>\<open>string.c\<close>, page arithmetic.
  \<^item> \<open>Spinlock\<close>: \<^verbatim>\<open>acquire\<close>, \<^verbatim>\<open>release\<close>, \<^verbatim>\<open>push_off\<close>, \<^verbatim>\<open>pop_off\<close>. The locale \<open>lock_frame\<close> is the contract of a body run under the lock of one
    table entry; it is interpreted for the four loops over the process table in \<open>Proc_Laws\<close>.
  \<^item> \<open>Adaptive\<close>: the Phase 1 to 3 computations of \<^verbatim>\<open>proc.c\<close> on the metrics of one process. \<open>Adaptive_Inv\<close> gives each its meaning
    over the integers and the invariant of everything a process can go through; \<open>Adaptive_Props\<close> draws the
    consequences, among them the signals and remedies that cannot take effect.
  \<^item> \<open>Kalloc\<close>, \<open>Vm\<close>: the page allocator, whose list lives in the free pages, and the three-level page tables of \<^verbatim>\<open>vm.c\<close>.
    The locale \<open>page_allocator\<close> is what page tables rely on; it is interpreted on \<^verbatim>\<open>kalloc\<close> and \<^verbatim>\<open>kfree\<close>.
    \<open>Pagetable\<close> sees tables as trees, \<open>Mapping\<close> and \<open>Vm_Props\<close> prove what mapping and unmapping do to the whole address space;
    \<open>Vm_Frame\<close> shows what memory operations leave alone.
  \<^item> \<open>Proc_State\<close>, \<open>Usercopy\<close>, \<open>Proc\<close>: the process table, \<^verbatim>\<open>copyin\<close>, \<^verbatim>\<open>copyout\<close>, \<^verbatim>\<open>vmfault\<close>, allocation, the scheduler, sleep and
    wakeup, kill, wait, statistics. \<open>Proc_Laws\<close> turns the locked loops into folds; \<open>Proc_Props\<close> proves the choice of the
    scheduler, that no wakeup is lost, and the statistics; \<open>Sched_Inv\<close> is the scheduler as a transition system of all
    harts with the invariant that a process runs on one CPU.
  \<^item> \<open>Printk\<close>, \<open>Console\<close>, \<open>Sleeplock\<close>: output, line editing, sleep locks.
  \<^item> \<open>Bio\<close>, \<open>Log\<close>: buffer cache and write-ahead log. \<open>Bio_Laws\<close> and \<open>Bio_Spec\<close> give the cache's contract (references,
    locked blocks, visible contents of each block) and prove it of \<^verbatim>\<open>bread\<close>, \<^verbatim>\<open>bwrite\<close>, \<^verbatim>\<open>brelse\<close>, \<^verbatim>\<open>bunpin\<close>; \<open>Log_Spec\<close> and \<open>Log_Props\<close>
    prove, over that contract, that a commit is atomic for every point at which the machine may stop.
  \<^item> \<open>Fs\<close>, \<open>Pipe\<close>, \<open>File\<close>, \<open>Virtio\<close>, \<open>Exec\<close>, \<open>Life\<close>, \<open>Sysfile\<close>, \<open>Syscall\<close>, \<open>Trap\<close>: the rest of the kernel up to the system call dispatch,
    the trap handlers and the boot of hart 0.

  \<^bold>\<open>Not modelled.\<close> Control-register and device-register writes, assembly (\<^verbatim>\<open>entry.S\<close>, \<^verbatim>\<open>swtch.S\<close>, \<^verbatim>\<open>trampoline.S\<close>, \<^verbatim>\<open>kernelvec.S\<close>),
  \<^verbatim>\<open>start.c\<close> and the linker script: they have no state of the kernel's own. The symbols of the linker are fields of the
  state. A disk transfer is complete when the request returns; the descriptor rings are modelled in \<open>Virtio\<close>. The memory order
  of the harts is sequential: a step of the interleavings is an operation between two releases. The test programs
  under \<^verbatim>\<open>user\<close> are clients, not parts, of the system.
\<close>

end
